(* ===== verification/Prelude.thy ===== *)
theory Prelude
  imports Main "HOL-Library.Word"
begin

text \<open>
  Shared vocabulary of the development.

  \<^item> The machine integers of the source (\<open>u8\<close> \<dots> \<open>u64\<close>, \<open>usize\<close>) as words.
  \<^item> \<open>abort\<close>: the ways an execution fails to return. The model follows the default (debug)
    profile of \<^verbatim>\<open>cargo osbuild\<close>, in which integer overflow, an over-long shift and an index out
    of bounds panic. A run that ends in \<open>Inr\<close> performs no overflow, so the release profile, where
    the same operations wrap, computes the same values on it.
  \<^item> \<open>and_then\<close>: sequencing of fallible code, with the checked operations of Rust.
  \<^item> \<open>for_range\<close>: a Rust loop \<^verbatim>\<open>for i in a..b\<close> over a fallible body, with its invariant rule.
\<close>

unbundle bit_operations_syntax

named_theorems sum_simps \<open>rewrite rules for sequencing of fallible code\<close>
named_theorems word_nat \<open>rules that read word operations as operations on natural numbers\<close>

type_synonym u8 = "8 word"
type_synonym u16 = "16 word"
type_synonym u32 = "32 word"
type_synonym u64 = "64 word"

section \<open>Failure\<close>

datatype abort =
    Overflow            \<comment> \<open>arithmetic or shift overflow, panics in the debug profile\<close>
  | IndexOutOfBounds    \<comment> \<open>slice index outside the slice\<close>
  | Message string      \<comment> \<open>an explicit \<open>panic!\<close>, \<open>assert!\<close> or \<open>expect\<close> with its message\<close>
  | Hang                \<comment> \<open>the code spins for ever\<close>

type_synonym 'a res = "abort + 'a"

definition and_then :: "'e + 'a \<Rightarrow> ('a \<Rightarrow> 'e + 'b) \<Rightarrow> 'e + 'b" where
  "and_then m f = (case m of Inl e \<Rightarrow> Inl e | Inr x \<Rightarrow> f x)"

lemma and_then_Inl [simp, sum_simps]: "and_then (Inl e) f = Inl e"
  by (simp add: and_then_def)

lemma and_then_Inr [simp, sum_simps]: "and_then (Inr x) f = f x"
  by (simp add: and_then_def)

lemma and_then_eq_Inr [sum_simps]:
  "and_then m f = Inr y \<longleftrightarrow> (\<exists>x. m = Inr x \<and> f x = Inr y)"
  by (cases m) auto

lemma and_then_assoc: "and_then (and_then m f) g = and_then m (\<lambda>x. and_then (f x) g)"
  by (cases m) auto

lemma and_then_cong [fundef_cong]:
  "m = m' \<Longrightarrow> (\<And>x. m' = Inr x \<Longrightarrow> f x = f' x) \<Longrightarrow> and_then m f = and_then m' f'"
  by (cases m') auto

definition guard :: "bool \<Rightarrow> abort \<Rightarrow> unit res" where
  "guard b e = (if b then Inr () else Inl e)"

lemma guard_simps [simp, sum_simps]:
  "guard True e = Inr ()" "guard False e = Inl e"
  by (simp_all add: guard_def)

definition expect :: "string \<Rightarrow> 'a option \<Rightarrow> 'a res" where
  "expect msg x = (case x of None \<Rightarrow> Inl (Message msg) | Some v \<Rightarrow> Inr v)"

lemma expect_simps [simp, sum_simps]:
  "expect msg None = Inl (Message msg)" "expect msg (Some v) = Inr v"
  by (simp_all add: expect_def)

section \<open>Checked arithmetic\<close>

definition checked_add :: "'a::len word \<Rightarrow> 'a word \<Rightarrow> 'a word res" where
  "checked_add a b = (if unat a + unat b < 2 ^ LENGTH('a) then Inr (a + b) else Inl Overflow)"

definition checked_sub :: "'a::len word \<Rightarrow> 'a word \<Rightarrow> 'a word res" where
  "checked_sub a b = (if b \<le> a then Inr (a - b) else Inl Overflow)"

definition checked_mul :: "'a::len word \<Rightarrow> 'a word \<Rightarrow> 'a word res" where
  "checked_mul a b = (if unat a * unat b < 2 ^ LENGTH('a) then Inr (a * b) else Inl Overflow)"

definition checked_shl :: "'a::len word \<Rightarrow> nat \<Rightarrow> 'a word res" where
  "checked_shl a n = (if n < LENGTH('a) then Inr (push_bit n a) else Inl Overflow)"

text \<open>Code equations that compute on binary integers.\<close>

lemma checked_add_code [code]:
  "checked_add a b = (let c = a + b in if a \<le> c then Inr c else Inl Overflow)"
proof -
  have "unat a + unat b < 2 ^ LENGTH('a) \<longleftrightarrow> a \<le> a + b" for a b :: "'a word"
    by (simp add: no_olen_add_nat)
  then show ?thesis by (simp add: checked_add_def Let_def)
qed

lemma checked_mul_code [code]:
  "checked_mul a b = (let p = uint a * uint b; c = a * b in if uint c = p then Inr c else Inl Overflow)"
proof -
  have "unat a * unat b < 2 ^ LENGTH('a) \<longleftrightarrow> uint (a * b) = uint a * uint b" for a b :: "'a word"
  proof -
    have "uint x = int (unat x)" for x :: "'a word" by simp
    then show ?thesis unfolding unat_mult_lem by (simp only: of_nat_mult[symmetric] of_nat_eq_iff)
  qed
  then show ?thesis by (simp add: checked_mul_def Let_def)
qed

lemma checked_add_Inr:
  "checked_add a b = Inr c \<longleftrightarrow> unat a + unat b < 2 ^ LENGTH('a) \<and> c = a + b"
  for a b c :: "'a::len word"
  by (auto simp: checked_add_def)

lemma unat_eq_unat [simp]: "unat a = unat b \<longleftrightarrow> a = b"
  for a b :: "'a::len word"
  by (simp add: word_unat_eq_iff)

lemma unat_of_nat_small [word_nat]: "n < 2 ^ LENGTH('a) \<Longrightarrow> unat (of_nat n :: 'a::len word) = n"
  by (simp add: unat_of_nat)

lemma unat_add_checked [word_nat]:
  "unat a + unat b < 2 ^ LENGTH('a) \<Longrightarrow> unat (a + b) = unat a + unat b"
  for a b :: "'a::len word"
  by (simp add: unat_word_ariths)

lemma unat_mul_checked [word_nat]:
  "unat a * unat b < 2 ^ LENGTH('a) \<Longrightarrow> unat (a * b) = unat a * unat b"
  for a b :: "'a::len word"
  by (simp add: unat_word_ariths)

lemma unat_sub_checked [word_nat]:
  "b \<le> a \<Longrightarrow> unat (a - b) = unat a - unat b"
  for a b :: "'a::len word"
  by (simp add: unat_sub)

lemma unat_drop_bit [word_nat]: "unat (drop_bit n a) = unat a div 2 ^ n"
  for a :: "'a::len word"
  by (metis drop_bit_eq_div unat_drop_bit_eq)

lemma unat_push_bit [word_nat]:
  "unat a * 2 ^ n < 2 ^ LENGTH('a) \<Longrightarrow> unat (push_bit n a) = unat a * 2 ^ n"
  for a :: "'a::len word"
proof -
  assume "unat a * 2 ^ n < 2 ^ LENGTH('a)"
  moreover have "unat (push_bit n a) = take_bit LENGTH('a) (push_bit n (unat a))"
    by (rule unsigned_push_bit_eq)
  ultimately show ?thesis by (simp add: take_bit_eq_mod push_bit_eq_mult)
qed

lemma bit_less: "unat w < 2 ^ m \<Longrightarrow> bit w k \<Longrightarrow> k < m"
  for w :: "'a::len word"
proof -
  assume "unat w < 2 ^ m" and b: "bit w k"
  then have "take_bit m (unat w) = unat w" by (simp add: take_bit_nat_eq_self_iff)
  moreover have "bit (unat w) k" using b by (simp add: bit_unsigned_iff)
  ultimately show ?thesis by (metis bit_take_bit_iff)
qed

text \<open>\<open>trailing_zeros\<close> and \<open>leading_zeros\<close> of \<open>u64\<close>; both are 64 at 0.\<close>

definition trailing_zeros :: "u64 \<Rightarrow> nat" where
  "trailing_zeros w = length (takeWhile (\<lambda>n. \<not> bit w n) [0..<64])"

definition leading_zeros :: "u64 \<Rightarrow> nat" where
  "leading_zeros w = length (takeWhile (\<lambda>n. \<not> bit w (63 - n)) [0..<64])"

lemma length_takeWhile_upt:
  "length (takeWhile P [0..<n]) = m \<longleftrightarrow> m \<le> n \<and> (\<forall>k<m. P k) \<and> (m < n \<longrightarrow> \<not> P m)"
proof -
  let ?l = "length (takeWhile P [0..<n])"
  have le: "?l \<le> n" using length_takeWhile_le[of P "[0..<n]"] by simp
  have lt: "P k" if "k < ?l" for k
  proof -
    have "takeWhile P [0..<n] ! k = k" using that le takeWhile_nth[OF that] by simp
    then show ?thesis using nth_mem[OF that] set_takeWhileD[of k P "[0..<n]"] by simp
  qed
  have at: "\<not> P ?l" if "?l < n" using nth_length_takeWhile[of P "[0..<n]"] that by simp
  show ?thesis
  proof
    assume "?l = m"
    with le lt at show "m \<le> n \<and> (\<forall>k<m. P k) \<and> (m < n \<longrightarrow> \<not> P m)" by blast
  next
    assume m: "m \<le> n \<and> (\<forall>k<m. P k) \<and> (m < n \<longrightarrow> \<not> P m)"
    have "\<not> ?l < m" using at m by auto
    moreover have "\<not> m < ?l" using lt le m by auto
    ultimately show "?l = m" by simp
  qed
qed

lemma trailing_zeros_less: "k < trailing_zeros w \<Longrightarrow> \<not> bit w k"
  using length_takeWhile_upt[of "\<lambda>n. \<not> bit w n" 64] by (auto simp: trailing_zeros_def)

lemma trailing_zeros_dvd: "2 ^ trailing_zeros w dvd unat w" if "w \<noteq> 0"
proof -
  have "take_bit (trailing_zeros w) w = 0"
    by (rule bit_word_eqI) (auto simp: bit_take_bit_iff trailing_zeros_less)
  then have "take_bit (trailing_zeros w) (unat w) = 0"
    by (metis unsigned_0 unsigned_take_bit_eq)
  then show ?thesis by (simp add: take_bit_eq_0_iff)
qed

lemma trailing_zeros_0 [simp]: "trailing_zeros 0 = 64"
  by (simp add: trailing_zeros_def length_takeWhile_upt)

lemma trailing_zeros_aligned: "k \<le> trailing_zeros w \<Longrightarrow> 2 ^ k dvd unat w"
  using trailing_zeros_dvd[of w] le_imp_power_dvd[of k "trailing_zeros w" "2::nat"]
  by (cases "w = 0") (auto intro: dvd_trans)

lemma leading_zeros_0 [simp]: "leading_zeros 0 = 64"
  by (simp add: leading_zeros_def length_takeWhile_upt)

text \<open>For \<open>w \<noteq> 0\<close>, \<open>63 - leading_zeros w\<close> is the integer part of the binary logarithm.\<close>

lemma leading_zeros_log:
  assumes "w \<noteq> 0"
  shows "leading_zeros w \<le> 63" "2 ^ (63 - leading_zeros w) \<le> unat w"
    "unat w < 2 ^ Suc (63 - leading_zeros w)"
proof -
  let ?z = "leading_zeros w"
  have z: "?z \<le> 64" "\<forall>k<?z. \<not> bit w (63 - k)" "?z < 64 \<longrightarrow> bit w (63 - ?z)"
    using length_takeWhile_upt[of "\<lambda>n. \<not> bit w (63 - n)" 64 ?z] by (auto simp: leading_zeros_def)
  have hi: "\<not> bit w k" if "63 - ?z < k" for k
  proof (cases "k < 64")
    case True
    then have "63 - k < ?z" using that by linarith
    with z(2) have "\<not> bit w (63 - (63 - k))" by blast
    with True show ?thesis by simp
  next
    case False
    then show ?thesis by (auto dest: bit_imp_le_length)
  qed
  show le: "?z \<le> 63"
  proof (rule ccontr)
    assume "\<not> ?z \<le> 63"
    with z(1) have "?z = 64" by simp
    with z(2) have zero: "\<And>k. k < 64 \<Longrightarrow> \<not> bit w (63 - k)" by simp
    have "\<not> bit w k" for k
      using zero[of "63 - k"] by (cases "k < 64") (auto dest: bit_imp_le_length)
    then have "w = 0" by (simp add: bit_eq_iff)
    with assms show False ..
  qed
  have "take_bit (Suc (63 - ?z)) w = w"
    by (rule bit_word_eqI) (use hi in \<open>force simp: bit_take_bit_iff not_less_eq[symmetric]\<close>)
  then have "take_bit (Suc (63 - ?z)) (unat w) = unat w"
    by (metis unsigned_take_bit_eq)
  then show "unat w < 2 ^ Suc (63 - ?z)" by (metis take_bit_nat_less_exp)
  have "bit (unat w) (63 - ?z)" using z(3) le by (simp add: bit_unsigned_iff)
  then show "2 ^ (63 - ?z) \<le> unat w"
    by (metis bit_iff_odd div_less even_zero linorder_not_le)
qed

lemma unat_push_bit_1 [word_nat]: "k < LENGTH('a) \<Longrightarrow> unat (push_bit k (1 :: 'a::len word)) = 2 ^ k"
  using unat_push_bit[where a = "1 :: 'a word" and n = k] by (simp del: push_bit_of_1)

lemma unat_power2 [word_nat]: "k < LENGTH('a) \<Longrightarrow> unat ((2 :: 'a::len word) ^ k) = 2 ^ k"
  using unat_push_bit_1[where 'a = 'a] by simp

section \<open>Slices\<close>

definition slice_get :: "'a list \<Rightarrow> nat \<Rightarrow> 'a res" where
  "slice_get xs i = (if i < length xs then Inr (xs ! i) else Inl IndexOutOfBounds)"

definition slice_set :: "'a list \<Rightarrow> nat \<Rightarrow> 'a \<Rightarrow> 'a list res" where
  "slice_set xs i v = (if i < length xs then Inr (xs[i := v]) else Inl IndexOutOfBounds)"

text \<open>A compound assignment \<^verbatim>\<open>xs[i] op= v\<close>.\<close>

definition slice_modify :: "'a list \<Rightarrow> nat \<Rightarrow> ('a \<Rightarrow> 'a) \<Rightarrow> 'a list res" where
  "slice_modify xs i f = and_then (slice_get xs i) (\<lambda>v. slice_set xs i (f v))"

lemma slice_get_in [simp]: "i < length xs \<Longrightarrow> slice_get xs i = Inr (xs ! i)"
  by (simp add: slice_get_def)

lemma slice_set_in [simp]: "i < length xs \<Longrightarrow> slice_set xs i v = Inr (xs[i := v])"
  by (simp add: slice_set_def)

lemma slice_modify_in [simp]: "i < length xs \<Longrightarrow> slice_modify xs i f = Inr (xs[i := f (xs ! i)])"
  by (simp add: slice_modify_def)

lemma slice_out [simp]:
  "\<not> i < length xs \<Longrightarrow> slice_get xs i = Inl IndexOutOfBounds"
  "\<not> i < length xs \<Longrightarrow> slice_set xs i v = Inl IndexOutOfBounds"
  "\<not> i < length xs \<Longrightarrow> slice_modify xs i f = Inl IndexOutOfBounds"
  by (simp_all add: slice_get_def slice_set_def slice_modify_def)

lemma slice_get_Inr: "slice_get xs i = Inr v \<longleftrightarrow> i < length xs \<and> v = xs ! i"
  by (auto simp: slice_get_def)

lemma slice_set_Inr: "slice_set xs i v = Inr ys \<longleftrightarrow> i < length xs \<and> ys = xs[i := v]"
  by (auto simp: slice_set_def)

section \<open>Loops\<close>

fun for_each :: "'a list \<Rightarrow> ('a \<Rightarrow> 's \<Rightarrow> 's res) \<Rightarrow> 's \<Rightarrow> 's res" where
  "for_each [] f s = Inr s"
| "for_each (x # xs) f s = and_then (f x s) (for_each xs f)"

definition for_range :: "nat \<Rightarrow> nat \<Rightarrow> (nat \<Rightarrow> 's \<Rightarrow> 's res) \<Rightarrow> 's \<Rightarrow> 's res" where
  "for_range a b f s = for_each [a..<b] f s"

lemma for_each_append: "for_each (xs @ ys) f s = and_then (for_each xs f s) (for_each ys f)"
  by (induction xs arbitrary: s) (simp_all add: and_then_assoc cong: and_then_cong)

lemma for_range_empty [simp]: "b \<le> a \<Longrightarrow> for_range a b f s = Inr s"
  by (simp add: for_range_def)

lemma for_range_Suc:
  "a \<le> b \<Longrightarrow> for_range a (Suc b) f s = and_then (for_range a b f s) (f b)"
proof -
  assume "a \<le> b"
  moreover have "for_each [b] f = f b"
  proof
    fix t
    show "for_each [b] f t = f b t" by (cases "f b t") simp_all
  qed
  ultimately show ?thesis by (simp add: for_range_def for_each_append del: for_each.simps)
qed

text \<open>The invariant rule of a counted loop: total correctness, since the body is shown to return.\<close>

lemma for_range_invariant:
  assumes "a \<le> b" and "P a s"
    and "\<And>i t. a \<le> i \<Longrightarrow> i < b \<Longrightarrow> P i t \<Longrightarrow> \<exists>t'. f i t = Inr t' \<and> P (Suc i) t'"
  shows "\<exists>t. for_range a b f s = Inr t \<and> P b t"
  using assms
proof (induction b)
  case 0
  then show ?case by simp
next
  case (Suc b)
  show ?case
  proof (cases "a = Suc b")
    case True
    with Suc.prems show ?thesis by simp
  next
    case False
    with Suc.prems(1) have le: "a \<le> b" by simp
    with Suc obtain t where t: "for_range a b f s = Inr t" "P b t" by (metis less_SucI)
    with Suc.prems(3)[of b t] le obtain t' where "f b t = Inr t'" "P (Suc b) t'" by auto
    with t le show ?thesis by (simp add: for_range_Suc)
  qed
qed

text \<open>
  The rule for a loop whose body may fail with the error \<open>e\<close>, but only on elements for which \<open>bad\<close> holds.
\<close>

lemma for_each_outcome:
  assumes "P [] s"
    and "\<And>zs x ys t. xs = zs @ x # ys \<Longrightarrow> P zs t \<Longrightarrow> f x t = Inl e \<and> bad x \<or> (\<exists>t'. f x t = Inr t' \<and> P (zs @ [x]) t')"
  shows "for_each xs f s = Inl e \<and> (\<exists>x\<in>set xs. bad x) \<or> (\<exists>t. for_each xs f s = Inr t \<and> P xs t)"
proof -
  have "for_each ys f t = Inl e \<and> (\<exists>x\<in>set ys. bad x) \<or> (\<exists>t'. for_each ys f t = Inr t' \<and> P xs t')"
    if "xs = zs @ ys" "P zs t" for zs ys t
    using that
  proof (induction ys arbitrary: zs t)
    case (Cons x ys)
    from assms(2)[OF Cons.prems] show ?case
    proof
      assume "\<exists>t'. f x t = Inr t' \<and> P (zs @ [x]) t'"
      then obtain t' where t': "f x t = Inr t'" "P (zs @ [x]) t'" by blast
      from Cons.IH[OF _ t'(2)] Cons.prems(1) t'(1) show ?thesis by auto
    qed simp
  qed simp
  with assms(1) show ?thesis by blast
qed

lemma for_each_invariant:
  assumes "P [] s"
    and "\<And>zs x ys t. xs = zs @ x # ys \<Longrightarrow> P zs t \<Longrightarrow> \<exists>t'. f x t = Inr t' \<and> P (zs @ [x]) t'"
  shows "\<exists>t. for_each xs f s = Inr t \<and> P xs t"
  using for_each_outcome[of P s xs f undefined "\<lambda>_. False"] assms by simp

end
