(* ===== verification/Builder.thy ===== *)
theory Builder
  imports Prelude
begin

text \<open>
  \<^verbatim>\<open>builder/src/main.rs\<close>: the host tool behind \<^verbatim>\<open>cargo osbuild\<close>, which compiles the bootloader and the kernel
  and packs them into a bootable disk image.

  What the tool asks of the outside world (cargo, the file system, the crates \<open>fatfs\<close> and \<open>gpt\<close>) is a
  datatype of requests, and the outside world is a parameter: a record \<open>world\<close> that answers a request
  from everything asked before it, so that no behaviour of that code is assumed. A run yields its
  outcome and its history, the requests with their answers. Handles are named by the path of
  their file; closing them, which Rust does implicitly, is left out. The values of \<^verbatim>\<open>CARGO\<close> and
  \<^verbatim>\<open>CARGO_MANIFEST_DIR\<close> at compile time are the arguments \<open>cargo\<close> and \<open>manifest_dir\<close>.
\<close>

section \<open>The outside world\<close>

datatype request =
    Println string
  | CommandStatus string "string list"
  | CreateDirAll string
  | MetadataLen string
  | OpenTruncated string
  | SetLen string u64
  | SeekStart string u64
  | FormatVolume string string
  | FatFileSystem string
  | FatCreateDir string string
  | FatCreateFile string string
  | FileOpen string
  | CopyToFat string string string
  | CopyToFile string string
  | ProtectiveMbr string
  | GptCreate string
  | GptUpdatePartitions string
  | GptAddPartition string string u64
  | GptGetPartition string u64
  | GptBytesStart string u64
  | GptWrite string

datatype answer = Failed | Done | Status bool | Number u64

type_synonym history = "(request \<times> answer) list"

text \<open>Requests that return \<open>()\<close>, an exit status or a number; \<open>None\<close> and \<open>False\<close> are an \<open>Err\<close> or a \<open>None\<close>.\<close>

record world =
  w_unit :: "history \<Rightarrow> request \<Rightarrow> bool"
  w_status :: "history \<Rightarrow> request \<Rightarrow> bool option"
  w_number :: "history \<Rightarrow> request \<Rightarrow> u64 option"

datatype 'a outcome = Return 'a | Panic abort | Exit nat

type_synonym 'a script = "world \<Rightarrow> history \<Rightarrow> 'a outcome \<times> history"

definition yield :: "'a \<Rightarrow> 'a script" where
  "yield x w h = (Return x, h)"

definition seq :: "'a script \<Rightarrow> ('a \<Rightarrow> 'b script) \<Rightarrow> 'b script" where
  "seq s k w h =
     (case s w h of
        (Return x, h') \<Rightarrow> k x w h'
      | (Panic e, h') \<Rightarrow> (Panic e, h')
      | (Exit n, h') \<Rightarrow> (Exit n, h'))"

definition exit_with :: "nat \<Rightarrow> 'a script" where
  "exit_with n w h = (Exit n, h)"

definition computed :: "'a res \<Rightarrow> 'a script" where
  "computed r w h = (case r of Inl e \<Rightarrow> (Panic e, h) | Inr x \<Rightarrow> (Return x, h))"

definition unwrap_failed :: abort where
  "unwrap_failed = Message ''called unwrap on an error''"

definition ask :: "request \<Rightarrow> unit script" where
  "ask r w h = (if w_unit w h r then (Return (), h @ [(r, Done)]) else (Panic unwrap_failed, h @ [(r, Failed)]))"

definition ask_status :: "request \<Rightarrow> bool script" where
  "ask_status r w h =
     (case w_status w h r of
        None \<Rightarrow> (Panic unwrap_failed, h @ [(r, Failed)])
      | Some b \<Rightarrow> (Return b, h @ [(r, Status b)]))"

definition ask_number :: "request \<Rightarrow> u64 script" where
  "ask_number r w h =
     (case w_number w h r of
        None \<Rightarrow> (Panic unwrap_failed, h @ [(r, Failed)])
      | Some n \<Rightarrow> (Return n, h @ [(r, Number n)]))"

text \<open>A sequence of requests that return nothing.\<close>

fun ask_all :: "request list \<Rightarrow> unit script" where
  "ask_all [] = yield ()"
| "ask_all (r # rs) = seq (ask r) (\<lambda>_. ask_all rs)"

section \<open>Command line\<close>

record options =
  op_arch :: string
  op_release :: bool
  op_clippy :: bool

definition strip_prefix :: "string \<Rightarrow> string \<Rightarrow> string option" where
  "strip_prefix p s = (if take (length p) s = p then Some (drop (length p) s) else None)"

definition default_options :: options where
  "default_options = \<lparr>op_arch = ''x86_64'', op_release = False, op_clippy = False\<rparr>"

text \<open>The loop over the arguments; \<open>None\<close> when it meets a request for help.\<close>

fun parse_args :: "string list \<Rightarrow> options \<Rightarrow> options option" where
  "parse_args [] opts = Some opts"
| "parse_args (arg # args) opts =
     (case strip_prefix ''--target='' arg of
        Some a \<Rightarrow> parse_args args (opts\<lparr>op_arch := a\<rparr>)
      | None \<Rightarrow>
          if arg = ''--release'' then parse_args args (opts\<lparr>op_release := True\<rparr>)
          else if arg = ''--clippy'' then parse_args args (opts\<lparr>op_clippy := True\<rparr>)
          else if arg = ''--help'' \<or> arg = ''-h'' then None
          else parse_args args opts)"

definition print_usage :: "unit script" where
  "print_usage = ask (Println ''Usage: cargo osbuild [--target=TARGET] [--release]'')"

section \<open>Cargo\<close>

definition ROOT_DIR :: "string \<Rightarrow> string" where
  "ROOT_DIR manifest_dir = manifest_dir @ ''/..''"

definition bootloader_target :: "string \<Rightarrow> string" where
  "bootloader_target arch = arch @ ''-unknown-uefi''"

definition kernel_target :: "string \<Rightarrow> string" where
  "kernel_target arch = ''kernel-'' @ arch @ ''.json''"

definition std_args :: "string list" where
  "std_args = [''-Zbuild-std=core,compiler_builtins'', ''-Zbuild-std-features=compiler-builtins-mem'']"

definition run_clippy :: "string \<Rightarrow> string \<Rightarrow> string \<Rightarrow> unit script" where
  "run_clippy cargo manifest_dir arch =
     seq (ask (Println ''-- Clippy bootloader'')) (\<lambda>_.
     seq (ask_status (CommandStatus cargo
            ([''clippy'', ''-p'', ''bootloader''] @ std_args @ [''--target='' @ bootloader_target arch]))) (\<lambda>_.
     seq (ask (Println ''-- Clippy kernel'')) (\<lambda>_.
     seq (ask_status (CommandStatus cargo
            ([''clippy'', ''-p'', ''kernel''] @ std_args @
             [''--target='' @ ROOT_DIR manifest_dir @ ''/'' @ kernel_target arch]))) (\<lambda>_.
       yield ()))))"

definition profile_name :: "bool \<Rightarrow> string" where
  "profile_name release_mode = (if release_mode then ''release'' else ''debug'')"

definition release_args :: "bool \<Rightarrow> string list" where
  "release_args release_mode = (if release_mode then [''--release''] else [])"

definition bootloader_command :: "string \<Rightarrow> string \<Rightarrow> bool \<Rightarrow> request" where
  "bootloader_command cargo arch release_mode =
     CommandStatus cargo
       ([''build'', ''-p'', ''bootloader''] @ std_args @ [''--target='' @ bootloader_target arch] @ release_args release_mode)"

definition kernel_command :: "string \<Rightarrow> string \<Rightarrow> string \<Rightarrow> bool \<Rightarrow> request" where
  "kernel_command cargo manifest_dir arch release_mode =
     CommandStatus cargo
       ([''build'', ''-p'', ''kernel''] @ std_args @
        [''--target='' @ ROOT_DIR manifest_dir @ ''/'' @ kernel_target arch] @ release_args release_mode)"

definition compile :: "string \<Rightarrow> string \<Rightarrow> string \<Rightarrow> bool \<Rightarrow> unit script" where
  "compile cargo manifest_dir arch release_mode =
     seq (ask_all [Println (''-- Building for '' @ arch),
                   Println (''-- Building bootloader ('' @ profile_name release_mode @ '')'')]) (\<lambda>_.
     seq (ask_status (bootloader_command cargo arch release_mode)) (\<lambda>ok.
     seq (computed (guard ok (Message ''Failed to build bootloader''))) (\<lambda>_.
     seq (ask (Println (''-- Building kernel ('' @ profile_name release_mode @ '')''))) (\<lambda>_.
     seq (ask_status (kernel_command cargo manifest_dir arch release_mode)) (\<lambda>ok.
       computed (guard ok (Message ''Failed to build kernel'')))))))"

section \<open>The disk image\<close>

definition MB :: u64 where "MB = 1024 * 1024"

definition bootloader_path :: "string \<Rightarrow> string \<Rightarrow> bool \<Rightarrow> string" where
  "bootloader_path manifest_dir arch release_mode =
     ROOT_DIR manifest_dir @ ''/target/'' @ bootloader_target arch @ ''/'' @ profile_name release_mode @ ''/bootloader.efi''"

definition kernel_path :: "string \<Rightarrow> string \<Rightarrow> bool \<Rightarrow> string" where
  "kernel_path manifest_dir arch release_mode =
     ROOT_DIR manifest_dir @ ''/target/kernel-'' @ arch @ ''/'' @ profile_name release_mode @ ''/kernel''"

definition image_dir :: "string \<Rightarrow> string \<Rightarrow> bool \<Rightarrow> string" where
  "image_dir manifest_dir arch release_mode =
     ROOT_DIR manifest_dir @ ''/target/image/'' @ arch @ ''/'' @ profile_name release_mode"

definition partition_size_of :: "u64 \<Rightarrow> u64 \<Rightarrow> u64 res" where
  "partition_size_of bootloader_size kernel_size =
     and_then (checked_add bootloader_size kernel_size) (\<lambda>a.
     and_then (checked_add a MB) (\<lambda>b.
     and_then (checked_sub b 1) (\<lambda>c.
     and_then (checked_mul (c div MB) MB) (\<lambda>d.
       checked_add MB d))))"

definition write_partition :: "string \<Rightarrow> u64 \<Rightarrow> string \<Rightarrow> string \<Rightarrow> unit script" where
  "write_partition path partition_size bootloader_in kernel_in =
     ask_all
       [OpenTruncated path, SetLen path partition_size, FormatVolume path ''SimpleOS-rs'',
        SeekStart path 0, FatFileSystem path,
        FatCreateDir path ''EFI'', FatCreateDir path ''EFI/BOOT'',
        FatCreateFile path ''EFI/BOOT/BOOTX64.EFI'', FileOpen bootloader_in, CopyToFat bootloader_in path ''EFI/BOOT/BOOTX64.EFI'',
        FatCreateFile path ''EFI/BOOT/kernel.sys'', FileOpen kernel_in, CopyToFat kernel_in path ''EFI/BOOT/kernel.sys'']"

definition write_image :: "string \<Rightarrow> u64 \<Rightarrow> u64 \<Rightarrow> string \<Rightarrow> unit script" where
  "write_image path image_size partition_size partition_path =
     seq (ask_all [OpenTruncated path, SetLen path image_size, ProtectiveMbr path, GptCreate path, GptUpdatePartitions path]) (\<lambda>_.
     seq (ask_number (GptAddPartition path ''boot'' partition_size)) (\<lambda>part_id.
     seq (ask (GptGetPartition path part_id)) (\<lambda>_.
     seq (ask_number (GptBytesStart path part_id)) (\<lambda>part_offset.
       ask_all [GptWrite path, SeekStart path part_offset, FileOpen partition_path, CopyToFile partition_path path]))))"

definition package :: "string \<Rightarrow> string \<Rightarrow> bool \<Rightarrow> unit script" where
  "package manifest_dir arch release_mode =
     seq (ask (Println ''-- Building efi partition'')) (\<lambda>_.
     let bootloader_in = bootloader_path manifest_dir arch release_mode;
         kernel_in = kernel_path manifest_dir arch release_mode;
         dir = image_dir manifest_dir arch release_mode;
         partition_path = dir @ ''/partition.img'' in
     seq (ask (CreateDirAll dir)) (\<lambda>_.
     seq (ask_number (MetadataLen bootloader_in)) (\<lambda>bootloader_size.
     seq (ask_number (MetadataLen kernel_in)) (\<lambda>kernel_size.
     seq (computed (partition_size_of bootloader_size kernel_size)) (\<lambda>partition_size.
     seq (write_partition partition_path partition_size bootloader_in kernel_in) (\<lambda>_.
     seq (ask (Println ''-- Building system image'')) (\<lambda>_.
     seq (computed (checked_add MB partition_size)) (\<lambda>image_size.
     seq (write_image (dir @ ''/image.img'') image_size partition_size partition_path) (\<lambda>_.
       ask (Println ''-- Finished''))))))))))"

definition build :: "string \<Rightarrow> string \<Rightarrow> string \<Rightarrow> bool \<Rightarrow> unit script" where
  "build cargo manifest_dir arch release_mode =
     seq (compile cargo manifest_dir arch release_mode) (\<lambda>_. package manifest_dir arch release_mode)"

definition builder_main :: "string \<Rightarrow> string \<Rightarrow> string list \<Rightarrow> unit script" where
  "builder_main cargo manifest_dir args =
     (case parse_args args default_options of
        None \<Rightarrow> seq print_usage (\<lambda>_. exit_with 0)
      | Some opts \<Rightarrow>
          if op_clippy opts then run_clippy cargo manifest_dir (op_arch opts)
          else build cargo manifest_dir (op_arch opts) (op_release opts))"

end
