(* ===== verification/Mutex.thy ===== *)
theory Mutex
  imports Prelude
begin

text \<open>
  \<^verbatim>\<open>kernel/src/mutex.rs\<close>: the \<open>Lock\<close> trait, its default method \<open>lock\<close>, \<open>SpinLock\<close> and the release of
  a lock by \<open>LockGuard\<close>'s destructor.

  The trait is the locale \<open>lock_trait\<close>, interpreted by \<open>SpinLock\<close>. Two views of a lock are
  modelled. Sequentially, \<open>with_guard\<close> runs a function under a guard on one core; a lock that is
  already held is never released by anybody else, so \<open>lock\<close> then spins for ever. Concurrently,
  \<open>lock_step\<close> interleaves any number of cores that spin on one lock and change shared data in
  many small steps while they hold it; mutual exclusion and serialisation follow.
\<close>

section \<open>The trait and its default method\<close>

text \<open>
  \<open>try_lock\<close> returns whether it gave out a guard, and the new lock. \<open>lock\<close> is the loop of the
  trait's default method; \<open>None\<close> is a loop that never ends.
\<close>

partial_function (option) lock :: "('l \<Rightarrow> bool \<times> 'l) \<Rightarrow> 'l \<Rightarrow> 'l option" where
  "lock try l = (case try l of (got, l') \<Rightarrow> if got then Some l' else lock try l')"

locale lock_trait =
  fixes try_lock :: "'l \<Rightarrow> bool \<times> 'l"
    and unlock :: "'l \<Rightarrow> 'l"
    and held :: "'l \<Rightarrow> bool"
  assumes try_free: "\<not> held l \<Longrightarrow> \<exists>l'. try_lock l = (True, l') \<and> held l'"
    and try_held: "held l \<Longrightarrow> try_lock l = (False, l)"
    and unlock_free: "\<not> held (unlock l)"
begin

lemma lock_free: "\<not> held l \<Longrightarrow> \<exists>l'. lock try_lock l = Some l' \<and> held l'"
  using try_free[of l] by (subst lock.simps) auto

lemma lock_returns_imp_free:
  assumes "lock try_lock l = Some l'"
  shows "\<not> held l"
proof (rule lock.raw_induct[where P = "\<lambda>t l r. t = try_lock \<longrightarrow> \<not> held l", OF _ assms, simplified])
  fix lk :: "('l \<Rightarrow> bool \<times> 'l) \<Rightarrow> 'l \<Rightarrow> 'l option" and t l r
  assume IH: "\<And>t l r. lk t l = Some r \<Longrightarrow> t = try_lock \<longrightarrow> \<not> held l"
    and eq: "(case t l of (got, l') \<Rightarrow> if got then Some l' else lk t l') = Some r"
  show "t = try_lock \<longrightarrow> \<not> held l"
  proof
    assume t: "t = try_lock"
    show "\<not> held l"
    proof
      assume h: "held l"
      with eq t try_held have "lk t l = Some r" by simp
      with IH t h show False by blast
    qed
  qed
qed

lemma lock_held: "held l \<Longrightarrow> lock try_lock l = None"
  using lock_returns_imp_free by (cases "lock try_lock l") auto

end

section \<open>SpinLock\<close>

record spin_lock =
  locked :: bool

definition spin_new :: spin_lock where
  "spin_new = \<lparr>locked = False\<rparr>"

definition spin_try_lock :: "spin_lock \<Rightarrow> bool \<times> spin_lock" where
  "spin_try_lock l = (\<not> locked l, l\<lparr>locked := True\<rparr>)"

definition spin_unlock :: "spin_lock \<Rightarrow> spin_lock" where
  "spin_unlock l = l\<lparr>locked := False\<rparr>"

interpretation spin: lock_trait spin_try_lock spin_unlock locked
  by unfold_locales (simp_all add: spin_try_lock_def spin_unlock_def)

text \<open>
  A method body under a guard: \<open>lock\<close>, the body, and \<open>unlock\<close> when the guard is dropped at the end
  of the function. A panic inside the body aborts (\<open>panic-strategy\<close> is \<open>abort\<close>) with the lock held.
\<close>

definition with_guard :: "spin_lock \<Rightarrow> 'a res \<Rightarrow> (spin_lock \<times> 'a) res" where
  "with_guard l body =
     (case lock spin_try_lock l of
        None \<Rightarrow> Inl Hang
      | Some l' \<Rightarrow> and_then body (\<lambda>x. Inr (spin_unlock l', x)))"

lemma with_guard_free:
  "\<not> locked l \<Longrightarrow> with_guard l body = and_then body (\<lambda>x. Inr (l, x))"
proof -
  assume free: "\<not> locked l"
  then have "lock spin_try_lock l = Some (l\<lparr>locked := True\<rparr>)"
    by (subst lock.simps) (simp add: spin_try_lock_def)
  with free show ?thesis by (cases l) (simp add: with_guard_def spin_unlock_def)
qed

lemma with_guard_held: "locked l \<Longrightarrow> with_guard l body = Inl Hang"
  by (simp add: with_guard_def spin.lock_held)

lemma with_guard_code [code]:
  "with_guard l body = (if locked l then Inl Hang else and_then body (\<lambda>x. Inr (l, x)))"
  by (simp add: with_guard_free with_guard_held)

section \<open>Cores sharing a lock\<close>

text \<open>
  Each core is outside (\<open>Idle\<close>), in the loop of \<open>lock\<close> with an operation it wants to run
  (\<open>Spinning\<close>), or holds the guard (\<open>Critical\<close>) with the small steps done and still to do. An
  operation is the list of its small steps on the shared data. The log records the operations
  in the order in which they took the lock.
\<close>

datatype 'd core =
    Idle
  | Spinning "('d \<Rightarrow> 'd) list"
  | Critical "('d \<Rightarrow> 'd) list" "('d \<Rightarrow> 'd) list"

record 'd system =
  lk :: spin_lock
  cores :: "nat \<Rightarrow> 'd core"
  shared :: 'd
  log :: "('d \<Rightarrow> 'd) list list"

definition init_system :: "'d \<Rightarrow> 'd system" where
  "init_system d = \<lparr>lk = spin_new, cores = (\<lambda>_. Idle), shared = d, log = []\<rparr>"

inductive lock_step :: "'d system \<Rightarrow> 'd system \<Rightarrow> bool" where
  call: "cores s i = Idle \<Longrightarrow> lock_step s (s\<lparr>cores := (cores s)(i := Spinning ops)\<rparr>)"
| acquire: "cores s i = Spinning ops \<Longrightarrow> spin_try_lock (lk s) = (True, l) \<Longrightarrow>
     lock_step s (s\<lparr>lk := l, cores := (cores s)(i := Critical [] ops)\<rparr>)"
| spin: "cores s i = Spinning ops \<Longrightarrow> spin_try_lock (lk s) = (False, l) \<Longrightarrow>
     lock_step s (s\<lparr>lk := l\<rparr>)"
| work: "cores s i = Critical dn (f # todo) \<Longrightarrow>
     lock_step s (s\<lparr>cores := (cores s)(i := Critical (dn @ [f]) todo), shared := f (shared s)\<rparr>)"
| release: "cores s i = Critical dn [] \<Longrightarrow>
     lock_step s (s\<lparr>lk := spin_unlock (lk s), cores := (cores s)(i := Idle), log := log s @ [dn]\<rparr>)"

inductive_simps lock_step_iff: "lock_step s t"

inductive reachable :: "'d \<Rightarrow> 'd system \<Rightarrow> bool" for d where
  start: "reachable d (init_system d)"
| step: "reachable d s \<Longrightarrow> lock_step s t \<Longrightarrow> reachable d t"

definition run_ops :: "('d \<Rightarrow> 'd) list list \<Rightarrow> 'd \<Rightarrow> 'd" where
  "run_ops ops d = fold (\<lambda>f d. f d) (concat ops) d"

lemma run_ops_simps [simp]:
  "run_ops [] d = d" "run_ops (ops @ [fs]) d = fold (\<lambda>f d. f d) fs (run_ops ops d)"
  by (simp_all add: run_ops_def)

definition in_critical :: "'d system \<Rightarrow> nat \<Rightarrow> bool" where
  "in_critical s i \<longleftrightarrow> (\<exists>dn todo. cores s i = Critical dn todo)"

text \<open>
  The invariant ties the lock, the cores and the data together: a core in its critical section
  is the only one, the lock is then held, and the data are the logged operations followed by
  what that core has done so far.
\<close>

definition lock_inv :: "'d \<Rightarrow> 'd system \<Rightarrow> bool" where
  "lock_inv d s \<longleftrightarrow>
     (locked (lk s) \<longleftrightarrow> (\<exists>i. in_critical s i)) \<and>
     (\<forall>i j. in_critical s i \<and> in_critical s j \<longrightarrow> i = j) \<and>
     (\<not> locked (lk s) \<longrightarrow> shared s = run_ops (log s) d) \<and>
     (\<forall>i dn todo. cores s i = Critical dn todo \<longrightarrow> shared s = run_ops (log s @ [dn]) d)"

lemma lock_inv_init: "lock_inv d (init_system d)"
  by (simp add: lock_inv_def init_system_def in_critical_def spin_new_def)

lemma lock_inv_step: "lock_step s t \<Longrightarrow> lock_inv d s \<Longrightarrow> lock_inv d t"
proof (induction rule: lock_step.induct)
  case (call s i ops)
  let ?t = "s\<lparr>cores := (cores s)(i := Spinning ops)\<rparr>"
  have "in_critical ?t j = in_critical s j" for j using call.hyps by (simp add: in_critical_def)
  with call show ?case by (simp add: lock_inv_def)
next
  case (acquire s i ops l)
  then have "\<not> locked (lk s)" "locked l" by (auto simp: spin_try_lock_def)
  with acquire show ?case by (auto simp: lock_inv_def in_critical_def)
next
  case (spin s i ops l)
  then have "l = lk s" by (auto simp: spin_try_lock_def)
  with spin show ?case by (simp add: lock_inv_def in_critical_def)
next
  case (work s i dn f todo)
  then have "shared s = run_ops (log s @ [dn]) d" unfolding lock_inv_def by blast
  with work show ?case by (auto simp: lock_inv_def in_critical_def)
next
  case (release s i dn)
  then have "shared s = run_ops (log s @ [dn]) d" "\<And>j. in_critical s j \<Longrightarrow> j = i"
    unfolding lock_inv_def in_critical_def by blast+
  then show ?case by (auto simp: lock_inv_def in_critical_def spin_unlock_def)
qed

lemma reachable_lock_inv: "reachable d s \<Longrightarrow> lock_inv d s"
  by (induction rule: reachable.induct) (auto intro: lock_inv_init lock_inv_step)

section \<open>Progress\<close>

text \<open>The core in its critical section can finish; its work does not touch other cores.\<close>

lemma critical_finishes:
  assumes "cores s j = Critical dn todo"
  shows "\<exists>t. lock_step\<^sup>*\<^sup>* s t \<and> \<not> locked (lk t) \<and> (\<forall>i. i \<noteq> j \<longrightarrow> cores t i = cores s i)"
  using assms
proof (induction todo arbitrary: s dn)
  case Nil
  let ?t = "s\<lparr>lk := spin_unlock (lk s), cores := (cores s)(j := Idle), log := log s @ [dn]\<rparr>"
  have "lock_step s ?t" by (rule lock_step.release) (rule Nil)
  then have "lock_step\<^sup>*\<^sup>* s ?t \<and> \<not> locked (lk ?t) \<and> (\<forall>i. i \<noteq> j \<longrightarrow> cores ?t i = cores s i)"
    by (simp add: spin_unlock_def)
  then show ?case by blast
next
  case (Cons f todo)
  let ?u = "s\<lparr>cores := (cores s)(j := Critical (dn @ [f]) todo), shared := f (shared s)\<rparr>"
  have u: "lock_step s ?u" by (rule lock_step.work) (rule Cons.prems)
  have "cores ?u j = Critical (dn @ [f]) todo" by simp
  from Cons.IH[OF this] obtain t where t: "lock_step\<^sup>*\<^sup>* ?u t" "\<not> locked (lk t)" "\<forall>i. i \<noteq> j \<longrightarrow> cores t i = cores ?u i"
    by blast
  with u have "lock_step\<^sup>*\<^sup>* s t" by (metis converse_rtranclp_into_rtranclp)
  with t show ?case by auto
qed

lemma spinning_enters:
  assumes "reachable d s" "cores s i = Spinning ops"
  shows "\<exists>t. lock_step\<^sup>*\<^sup>* s t \<and> cores t i = Critical [] ops"
proof -
  have enter: "\<exists>t. lock_step s t \<and> cores t i = Critical [] ops"
    if "\<not> locked (lk s)" "cores s i = Spinning ops" for s :: "'a system"
  proof -
    have "spin_try_lock (lk s) = (True, (lk s)\<lparr>locked := True\<rparr>)" using that(1) by (simp add: spin_try_lock_def)
    from lock_step.acquire[OF that(2) this] show ?thesis by fastforce
  qed
  show ?thesis
  proof (cases "locked (lk s)")
    case False
    with enter assms(2) show ?thesis by blast
  next
    case True
    then obtain j where "in_critical s j" using reachable_lock_inv[OF assms(1)] by (auto simp: lock_inv_def)
    then obtain dn todo where j: "cores s j = Critical dn todo" by (auto simp: in_critical_def)
    with assms(2) have "i \<noteq> j" by auto
    with critical_finishes[OF j] assms(2) obtain t where t: "lock_step\<^sup>*\<^sup>* s t" "\<not> locked (lk t)" "cores t i = Spinning ops"
      by metis
    with enter[of t] show ?thesis by (meson rtranclp.rtrancl_into_rtrancl)
  qed
qed

section \<open>Properties\<close>

text \<open>
  C24: Mutual exclusion and serialisation. In every reachable state of any number of cores sharing a
  lock, at most one core is inside its critical section, the lock is held exactly then, and
  whenever it is free the shared data are the result of running the completed operations one after
  the other, each undivided, in the order in which they took the lock.
\<close>

theorem mutual_exclusion_and_serialisation:
  assumes "reachable d s"
  shows "(\<forall>i j. in_critical s i \<and> in_critical s j \<longrightarrow> i = j) \<and>
         (locked (lk s) \<longleftrightarrow> (\<exists>i. in_critical s i)) \<and>
         (\<not> locked (lk s) \<longrightarrow> shared s = run_ops (log s) d)"
  using reachable_lock_inv[OF assms] unfolding lock_inv_def by blast

definition demo_contended :: "nat system" where
  "demo_contended = \<lparr>lk = \<lparr>locked = True\<rparr>, cores = (\<lambda>_. Idle)(0 := Spinning [Suc], 1 := Critical [] [Suc, Suc]),
     shared = 5, log = []\<rparr>"

lemma demo_contended_reachable: "reachable 5 demo_contended"
proof -
  let ?s1 = "(init_system 5)\<lparr>cores := (\<lambda>_. Idle)(0 := Spinning [Suc])\<rparr>"
  let ?s2 = "(init_system 5)\<lparr>cores := (\<lambda>_. Idle)(0 := Spinning [Suc], 1 := Spinning [Suc, Suc])\<rparr>"
  have "lock_step (init_system 5) ?s1"
    using lock_step.call[of "init_system 5" 0 "[Suc]"] by (simp add: init_system_def)
  moreover have "lock_step ?s1 ?s2"
    using lock_step.call[of ?s1 1 "[Suc, Suc]"] by (simp add: init_system_def)
  moreover have "lock_step ?s2 demo_contended"
    using lock_step.acquire[of ?s2 1 "[Suc, Suc]" "\<lparr>locked = True\<rparr>"]
    by (simp add: init_system_def spin_new_def spin_try_lock_def demo_contended_def)
  ultimately show ?thesis by (meson reachable.intros)
qed

theorem mutual_exclusion_and_serialisation_witness:
  "reachable 5 demo_contended \<and> in_critical demo_contended 1 \<and> \<not> in_critical demo_contended 0"
proof -
  have "in_critical demo_contended 1" by (simp add: in_critical_def demo_contended_def)
  then show ?thesis
    using mutual_exclusion_and_serialisation[OF demo_contended_reachable] demo_contended_reachable
    by (metis zero_neq_one)
qed

text \<open>
  C25: No deadlock. From every reachable state in which a core spins on the lock, the system can
  run to a state in which that core is in its critical section with its whole operation to do.
\<close>

theorem spinning_core_can_enter:
  assumes "reachable d s" "cores s i = Spinning ops"
  shows "\<exists>t. lock_step\<^sup>*\<^sup>* s t \<and> cores t i = Critical [] ops"
  by (rule spinning_enters[OF assms])

theorem spinning_core_can_enter_witness:
  "\<exists>t. lock_step\<^sup>*\<^sup>* demo_contended t \<and> cores t 0 = Critical [] [Suc]"
  using spinning_core_can_enter[OF demo_contended_reachable, of 0 "[Suc]"] by (simp add: demo_contended_def)

text \<open>
  C26: The loop of \<open>lock\<close> on one core. It returns exactly when the lock is free, with the lock
  held; on a lock that is already held nobody else can release it, and the loop never ends. A
  body under a guard leaves the lock as it found it.
\<close>

theorem lock_returns_iff_free:
  "lock spin_try_lock l = (if locked l then None else Some (l\<lparr>locked := True\<rparr>)) \<and>
   with_guard l body = (if locked l then Inl Hang else and_then body (\<lambda>x. Inr (l, x)))"
proof (intro conjI)
  show "with_guard l body = (if locked l then Inl Hang else and_then body (\<lambda>x. Inr (l, x)))"
    by (rule with_guard_code)
  show "lock spin_try_lock l = (if locked l then None else Some (l\<lparr>locked := True\<rparr>))"
    using spin.lock_held[of l] by (cases "locked l") (simp, subst lock.simps, simp add: spin_try_lock_def)
qed

end
