(* ===== verification/Common_Structures.thy ===== *)
theory Common_Structures
  imports Prelude
begin

text \<open>
  \<^verbatim>\<open>common-structures/src\<close>: the data the bootloader hands to the kernel (\<open>KernelHeader\<close> and the
  structures inside it) and the configuration constant. Pointers are their 64-bit addresses.
\<close>

datatype format = RGB | BGR

datatype memory_segment_state = Free | Occupied

record memory_segment =
  seg_start :: u64
  seg_page_count :: u64
  seg_state :: memory_segment_state

record paging_info =
  page_buffer :: u64
  pdp_pages :: u64
  pd_pages :: u64
  pml4_entries :: u64

record kernel_header =
  screen_buffer :: u64
  screen_width :: u32
  screen_height :: u32
  screen_scanline_width :: u32
  screen_format :: format
  paging_info :: paging_info
  memory_map :: u64
  memory_map_entries :: u64
  high_memory_base :: u64

definition KERNEL_STACK_SIZE :: u64 where
  "KERNEL_STACK_SIZE = 1024 * 1024"

text \<open>The pages a segment covers, by page number.\<close>

definition segment_pages :: "memory_segment \<Rightarrow> nat set" where
  "segment_pages m = {unat (seg_start m) div 4096 ..< unat (seg_start m) div 4096 + unat (seg_page_count m)}"

end
