(* ===== verification/Terminal.thy ===== *)
theory Terminal
  imports Mutex Common_Structures
begin

text \<open>
  \<^verbatim>\<open>kernel/src/terminal.rs\<close>: the text terminal on the framebuffer, its escape sequences and the
  logging macros.

  The static \<open>INFO\<close> is the record \<open>terminal\<close>; the memory behind the framebuffer pointer is \<open>fb\<close>, by byte
  offset. A \<open>char\<close> is its code point and a \<open>&str\<close> the list of its characters. The crate \<open>font8x8\<close> is
  the argument \<open>font\<close>: \<open>BASIC_FONTS.get\<close>, an optional glyph of eight rows.
\<close>

section \<open>Model\<close>

definition MARGIN :: u32 where
  "MARGIN = 16"

datatype mode = Print | SetR | SetG | SetB

record terminal =
  t_lock :: spin_lock
  framebuffer :: u64
  fb :: "nat \<Rightarrow> u8"
  scan_width :: u32
  t_height :: u32
  t_format :: format
  rows :: u32
  columns :: u32
  cursor_x :: u32
  cursor_y :: u32
  color_r :: u8
  color_g :: u8
  color_b :: u8
  t_mode :: mode

type_synonym font = "u32 \<Rightarrow> u8 list option"

text \<open>The static before \<open>init\<close>; \<open>memory\<close> is what the null pointer would reach.\<close>

definition INFO :: "(nat \<Rightarrow> u8) \<Rightarrow> terminal" where
  "INFO memory = \<lparr>t_lock = spin_new, framebuffer = 0, fb = memory, scan_width = 0, t_height = 0, t_format = RGB,
     rows = 0, columns = 0, cursor_x = 0, cursor_y = 0, color_r = 255, color_g = 255, color_b = 255, t_mode = Print\<rparr>"

definition terminal_init :: "kernel_header \<Rightarrow> (nat \<Rightarrow> u8) \<Rightarrow> terminal res" where
  "terminal_init kh memory =
     and_then (checked_sub (screen_height kh) (MARGIN * 2)) (\<lambda>h.
     and_then (checked_sub (screen_width kh) (MARGIN * 2)) (\<lambda>w.
       Inr \<lparr>t_lock = spin_new, framebuffer = screen_buffer kh, fb = memory,
            scan_width = screen_scanline_width kh, t_height = screen_height kh,
            t_format = screen_format kh, rows = h div 8, columns = w div 8,
            cursor_x = 0, cursor_y = 0, color_r = 255, color_g = 255, color_b = 255, t_mode = Print\<rparr>))"

text \<open>The length in bytes of the framebuffer slice, computed in \<open>u32\<close>.\<close>

definition fb_len :: "terminal \<Rightarrow> nat res" where
  "fb_len t =
     and_then (checked_mul (scan_width t) (t_height t)) (\<lambda>a.
     and_then (checked_mul a 4) (\<lambda>b. Inr (unat b)))"

definition clear :: "terminal \<Rightarrow> terminal res" where
  "clear t =
     and_then (with_guard (t_lock t)
       (and_then (fb_len t) (\<lambda>len. Inr (\<lambda>i. if i < len then 0 else fb t i)))) (\<lambda>(l, m).
       Inr (t\<lparr>t_lock := l, fb := m\<rparr>))"

definition advance_cursor :: "terminal \<Rightarrow> terminal res" where
  "advance_cursor t =
     and_then (checked_add (cursor_x t) 1) (\<lambda>x.
     if columns t \<le> x then
       and_then (checked_add (cursor_y t) 1) (\<lambda>y.
         Inr (t\<lparr>cursor_x := 0, cursor_y := (if rows t \<le> y then 0 else y)\<rparr>))
     else Inr (t\<lparr>cursor_x := x\<rparr>))"

definition new_line :: "terminal \<Rightarrow> terminal res" where
  "new_line t =
     and_then (checked_add (cursor_y t) 1) (\<lambda>y.
       Inr (t\<lparr>cursor_x := 0, cursor_y := (if rows t \<le> y then 0 else y)\<rparr>))"

definition fb_store :: "nat \<Rightarrow> nat \<Rightarrow> u8 \<Rightarrow> (nat \<Rightarrow> u8) \<Rightarrow> (nat \<Rightarrow> u8) res" where
  "fb_store len i v m = (if i < len then Inr (m(i := v)) else Inl IndexOutOfBounds)"

text \<open>The index expression of the six assignments, in \<open>u32\<close>.\<close>

definition pixel_index :: "terminal \<Rightarrow> u32 \<Rightarrow> u32 \<Rightarrow> u32 \<Rightarrow> u32 \<Rightarrow> nat res" where
  "pixel_index t x_start y_start x y =
     and_then (checked_add x_start x) (\<lambda>a.
     and_then (checked_add y_start y) (\<lambda>b.
     and_then (checked_mul b (scan_width t)) (\<lambda>c.
     and_then (checked_add a c) (\<lambda>d.
     and_then (checked_mul d 4) (\<lambda>e. Inr (unat e))))))"

definition put_pixel ::
    "terminal \<Rightarrow> nat \<Rightarrow> u32 \<Rightarrow> u32 \<Rightarrow> u32 \<Rightarrow> u32 \<Rightarrow> u8 \<times> u8 \<times> u8 \<Rightarrow> (nat \<Rightarrow> u8) \<Rightarrow> (nat \<Rightarrow> u8) res" where
  "put_pixel t len x_start y_start x y c m =
     (let (c0, c1, c2) = c in
      and_then (pixel_index t x_start y_start x y) (\<lambda>i.
      and_then (fb_store len i c0 m) (\<lambda>m.
      and_then (fb_store len (i + 1) c1 m) (fb_store len (i + 2) c2))))"

definition pixel_color :: "terminal \<Rightarrow> u8 \<Rightarrow> nat \<Rightarrow> u8 \<times> u8 \<times> u8" where
  "pixel_color t row x =
     (if row AND push_bit x 1 \<noteq> 0
      then (if t_format t = BGR then color_b t else color_r t, color_g t,
            if t_format t = BGR then color_r t else color_b t)
      else (0, 0, 0))"

definition draw_glyph ::
    "terminal \<Rightarrow> nat \<Rightarrow> u32 \<Rightarrow> u32 \<Rightarrow> u8 list \<Rightarrow> (nat \<Rightarrow> u8) \<Rightarrow> (nat \<Rightarrow> u8) res" where
  "draw_glyph t len x_start y_start glyph =
     for_range 0 8 (\<lambda>y m.
       and_then (slice_get glyph y) (\<lambda>row.
         for_range 0 8 (\<lambda>x. put_pixel t len x_start y_start (of_nat x) (of_nat y) (pixel_color t row x)) m))"

definition get_glyph :: "font \<Rightarrow> u32 \<Rightarrow> u8 list res" where
  "get_glyph font c =
     (case font c of Some g \<Rightarrow> Inr g
      | None \<Rightarrow> expect ''called `Option::unwrap()` on a `None` value'' (font 32))"

definition print_glyph :: "font \<Rightarrow> u32 \<Rightarrow> terminal \<Rightarrow> terminal res" where
  "print_glyph font c t =
     and_then (get_glyph font c) (\<lambda>glyph.
     and_then (checked_mul (cursor_x t) 8) (\<lambda>a.
     and_then (checked_add MARGIN a) (\<lambda>x_start.
     and_then (checked_mul (cursor_y t) 8) (\<lambda>b.
     and_then (checked_add MARGIN b) (\<lambda>y_start.
     and_then (fb_len t) (\<lambda>len.
     and_then (draw_glyph t len x_start y_start glyph (fb t)) (\<lambda>m.
       advance_cursor (t\<lparr>fb := m\<rparr>))))))))"

definition print_char :: "font \<Rightarrow> u32 \<Rightarrow> terminal \<Rightarrow> terminal res" where
  "print_char font c t =
     (case t_mode t of
        SetR \<Rightarrow> Inr (t\<lparr>color_r := ucast c, t_mode := SetG\<rparr>)
      | SetG \<Rightarrow> Inr (t\<lparr>color_g := ucast c, t_mode := SetB\<rparr>)
      | SetB \<Rightarrow> Inr (t\<lparr>color_b := ucast c, t_mode := Print\<rparr>)
      | Print \<Rightarrow>
          if c = 0x1B then Inr (t\<lparr>t_mode := SetR\<rparr>)
          else if c = 0x0A then new_line t
          else print_glyph font c t)"

text \<open>\<open>print\<close> locks and prints each character; the guard is dropped at the end.\<close>

definition print :: "font \<Rightarrow> u32 list \<Rightarrow> terminal \<Rightarrow> terminal res" where
  "print font msg t =
     (case lock spin_try_lock (t_lock t) of
        None \<Rightarrow> Inl Hang
      | Some l \<Rightarrow> and_then (for_each msg (print_char font) (t\<lparr>t_lock := l\<rparr>)) (\<lambda>t'.
          Inr (t'\<lparr>t_lock := spin_unlock (t_lock t')\<rparr>)))"

text \<open>
  The logging macros. The formatter calls \<open>write_str\<close>, hence \<open>print\<close>, once for each piece of the line,
  given here as the list of pieces; \<open>center\<close> is the alignment \<^verbatim>\<open>{:^15}\<close>, whose padding is written
  character by character.
\<close>

definition write_pieces :: "font \<Rightarrow> u32 list list \<Rightarrow> terminal \<Rightarrow> terminal res" where
  "write_pieces font ps t = for_each ps (print font) t"

definition center :: "nat \<Rightarrow> u32 list \<Rightarrow> u32 list list" where
  "center width s =
     (let pad = width - length s
      in replicate (pad div 2) [32] @ [s] @ replicate (pad - pad div 2) [32])"

definition escape :: "u32 \<Rightarrow> u32 \<Rightarrow> u32 \<Rightarrow> u32 list" where
  "escape r g b = [0x1B, r, g, b]"

definition white :: "u32 list" where
  "white = escape 0xFF 0xFF 0xFF"

definition info_pieces :: "u32 list \<Rightarrow> u32 list list \<Rightarrow> u32 list list" where
  "info_pieces ctx body = [escape 0x00 0xFF 0x00 @ [0x5B]] @ center 15 ctx @ [[0x5D, 32] @ white] @ body @ [[0x0A]]"

definition trailing_pieces :: "u32 list \<Rightarrow> u32 list \<Rightarrow> u32 list list \<Rightarrow> u32 list list" where
  "trailing_pieces color ctx body = [color @ [0x5B]] @ center 15 ctx @ [[0x5D, 32]] @ body @ [white @ [0x0A]]"

definition info_macro :: "font \<Rightarrow> u32 list \<Rightarrow> u32 list list \<Rightarrow> terminal \<Rightarrow> terminal res" where
  "info_macro font ctx body = write_pieces font (info_pieces ctx body)"

definition verbose_macro :: "font \<Rightarrow> u32 list \<Rightarrow> u32 list list \<Rightarrow> terminal \<Rightarrow> terminal res" where
  "verbose_macro font ctx body = write_pieces font (trailing_pieces (escape 0x88 0x88 0x88) ctx body)"

definition warning_macro :: "font \<Rightarrow> u32 list \<Rightarrow> u32 list list \<Rightarrow> terminal \<Rightarrow> terminal res" where
  "warning_macro font ctx body = write_pieces font (trailing_pieces (escape 0xFF 0xFF 0x00) ctx body)"

definition error_macro :: "font \<Rightarrow> u32 list \<Rightarrow> u32 list list \<Rightarrow> terminal \<Rightarrow> terminal res" where
  "error_macro font ctx body = write_pieces font (trailing_pieces (escape 0xFF 0x00 0x00) ctx body)"

end
