(* ===== verification/Logging.thy ===== *)
theory Logging
  imports Terminal
begin

text \<open>
  Messages of the kernel. A call of one of the macros \<^verbatim>\<open>verbose!\<close>, \<^verbatim>\<open>info!\<close>, \<^verbatim>\<open>warning!\<close> and \<^verbatim>\<open>error!\<close> of
  \<^verbatim>\<open>kernel/src/terminal.rs\<close> is an application of a \<open>logger\<close> to the level, the context and the pieces that the formatter
  writes for the message. The kernel's logger is \<open>terminal_log\<close>; the components take it as an argument, with the
  state it works on, so that their dependence on the terminal is the locale \<open>log_sink\<close> of the theory that follows.
  The feature \<^verbatim>\<open>verbose-logging\<close> is on, as it is by default.
\<close>

datatype level = Verbose | Info | Warning | Error

type_synonym 't logger = "level \<Rightarrow> string \<Rightarrow> u32 list list \<Rightarrow> 't \<Rightarrow> 't res"

definition chars :: "string \<Rightarrow> u32 list" where
  "chars s = map of_char s"

definition terminal_log :: "font \<Rightarrow> terminal logger" where
  "terminal_log font lvl ctx body =
     (case lvl of
        Verbose \<Rightarrow> verbose_macro font (chars ctx) body
      | Info \<Rightarrow> info_macro font (chars ctx) body
      | Warning \<Rightarrow> warning_macro font (chars ctx) body
      | Error \<Rightarrow> error_macro font (chars ctx) body)"

section \<open>Numbers in messages\<close>

fun hex_digits :: "nat \<Rightarrow> u32 list" where
  "hex_digits n =
     (let d = n mod 16; c = of_nat (if d < 10 then 48 + d else 55 + d)
      in if n < 16 then [c] else hex_digits (n div 16) @ [c])"

declare hex_digits.simps [simp del]

fun dec_digits :: "nat \<Rightarrow> u32 list" where
  "dec_digits n = (let c = of_nat (48 + n mod 10) in if n < 10 then [c] else dec_digits (n div 10) @ [c])"

declare dec_digits.simps [simp del]

text \<open>
  The pieces of \<^verbatim>\<open>{:#016X}\<close>: the prefix, zeros up to width 16, the digits; and of \<^verbatim>\<open>{:#02X}\<close>, which with the
  prefix is never shorter than its width.
\<close>

definition hex016 :: "u64 \<Rightarrow> u32 list list" where
  "hex016 w =
     (let ds = hex_digits (unat w) in [chars ''0x''] @ replicate (14 - length ds) [48] @ [ds])"

definition hex02 :: "u64 \<Rightarrow> u32 list list" where
  "hex02 w = [chars ''0x'', hex_digits (unat w)]"

end
