(* ===== verification/Virt_Manager.thy ===== *)
theory Virt_Manager
  imports Prelude
begin

text \<open>
  \<^verbatim>\<open>kernel/src/memory/virt_manager.rs\<close>: the conversion between physical addresses and their
  mirror in the higher memory half. The static \<open>HIGH_MEM_BASE\<close> is an argument.

  The conversions are a bitwise \<open>or\<close> and a bitwise \<open>and not\<close>. They are inverse to each other, and
  the first is an addition, when the base is the complement of a mask (locale \<open>address_window\<close>).
\<close>

definition phys_to_virt :: "u64 \<Rightarrow> u64 \<Rightarrow> u64" where
  "phys_to_virt high_mem_base phys = phys OR high_mem_base"

definition virt_to_phys :: "u64 \<Rightarrow> u64 \<Rightarrow> u64" where
  "virt_to_phys high_mem_base virt = virt AND NOT high_mem_base"

locale address_window =
  fixes base :: u64 and m :: nat
  assumes base_mask: "base = NOT (mask m)" and m_less: "m < 64"
begin

lemma base_bit: "bit base k \<longleftrightarrow> m \<le> k \<and> k < 64"
  by (auto simp: base_mask bit_not_iff bit_mask_iff)

lemma virt_phys_virt: "unat p < 2 ^ m \<Longrightarrow> virt_to_phys base (phys_to_virt base p) = p"
  by (rule bit_word_eqI)
    (auto simp: virt_to_phys_def phys_to_virt_def bit_and_iff bit_or_iff bit_not_iff base_bit
      dest: bit_less)

lemma phys_to_virt_add: "unat p < 2 ^ m \<Longrightarrow> phys_to_virt base p = base + p"
proof -
  assume "unat p < 2 ^ m"
  then have "base AND p = 0"
    by (intro bit_word_eqI) (auto simp: bit_and_iff base_bit dest: bit_less)
  then have "base + p = base OR p" by (rule disjunctive_add_eq_or)
  then show ?thesis by (simp add: phys_to_virt_def or.commute)
qed

lemma phys_to_virt_nonzero: "phys_to_virt base p \<noteq> 0"
proof
  assume "phys_to_virt base p = 0"
  moreover have "bit (phys_to_virt base p) 63"
    using m_less by (simp add: phys_to_virt_def bit_or_iff base_bit)
  ultimately show False by simp
qed

lemma phys_to_virt_inj:
  "unat p < 2 ^ m \<Longrightarrow> unat q < 2 ^ m \<Longrightarrow> phys_to_virt base p = phys_to_virt base q \<Longrightarrow> p = q"
  using virt_phys_virt by metis

end

text \<open>The window of a machine with at most 512 GiB of physical memory (one PML4 entry).\<close>

interpretation win512: address_window "0xFFFFFF8000000000" 39
  by unfold_locales (simp_all add: mask_eq_exp_minus_1)

end
