(* ===== verification/Paging.thy ===== *)
theory Paging
  imports Logging Virt_Manager
begin

text \<open>
  \<^verbatim>\<open>bootloader/src/paging.rs\<close> and \<^verbatim>\<open>kernel/src/arch/x86_64/virt_manager.rs\<close>: the page table that the
  bootloader builds (identity mapping and mirror in the higher half, with 2 MB pages) and the
  removal of its lower half by the kernel.

  The page buffer is the 64-bit words behind \<open>page_buffer_ptr\<close>, by index; the slice over it is
  declared with \<open>alloc_pages * 4096\<close> elements, and indices are checked against that. What
  UEFI's boot services do is an argument: \<open>allocate_pages\<close> maps a page count and the firmware's state to an address and the
  next state, \<open>write\<close> puts a message on the console or fails, and the memory map is a list of start addresses and page
  counts. The wrapper \<open>paging::init\<close> is in the theory of the bootloader.
\<close>

section \<open>The bootloader's page table\<close>

definition PML_P :: u64 where "PML_P = 0x1"
definition PML_RW :: u64 where "PML_RW = 0x2"
definition PML4_ADDR_MASK :: u64 where "PML4_ADDR_MASK = 0x000FFFFFFFFFF000"
definition PML4_ENTRY_BASE :: u64 where "PML4_ENTRY_BASE = PML_P OR PML_RW"
definition PDPE_ADDR_MASK :: u64 where "PDPE_ADDR_MASK = 0x000FFFFFFFFFF000"
definition PDPE_ENTRY_BASE :: u64 where "PDPE_ENTRY_BASE = PML_P OR PML_RW"
definition PDE_ADDR_MASK :: u64 where "PDE_ADDR_MASK = 0x000FFFFFFFE00000"
definition PDE_ENTRY_BASE :: u64 where "PDE_ENTRY_BASE = PML_P OR PML_RW OR 0x80"

record page_tables =
  pt_buffer :: "nat \<Rightarrow> u64"
  pt_ptr :: u64
  pt_high_mem_base :: u64
  pt_cr3 :: u64
  pt_info :: paging_info

definition buf_set :: "nat \<Rightarrow> nat \<Rightarrow> u64 \<Rightarrow> (nat \<Rightarrow> u64) \<Rightarrow> (nat \<Rightarrow> u64) res" where
  "buf_set len i v b = (if i < len then Inr (b(i := v)) else Inl IndexOutOfBounds)"

definition entries_of :: "u64 \<Rightarrow> nat \<Rightarrow> u64 res" where
  "entries_of physical_size k = checked_add (drop_bit k physical_size) 1"

definition pages_for :: "u64 \<Rightarrow> u64 res" where
  "pages_for entries =
     and_then (checked_mul entries 8) (\<lambda>a. and_then (checked_add a 4095) (\<lambda>b. Inr (b div 4096)))"

text \<open>The address \<open>entry * 4096 + offset_pages * 4096 + \<dots> + page_buffer_ptr\<close> of a lower-level table.\<close>

definition table_addr :: "u64 \<Rightarrow> u64 list \<Rightarrow> u64 \<Rightarrow> u64 res" where
  "table_addr entry offsets ptr =
     and_then (checked_mul entry 4096) (\<lambda>a.
     and_then (fold (\<lambda>n acc. and_then acc (\<lambda>x. and_then (checked_mul n 4096) (checked_add x))) offsets (Inr a)) (\<lambda>b.
       checked_add b ptr))"

definition fill_pml4 :: "nat \<Rightarrow> u64 \<Rightarrow> u64 \<Rightarrow> u64 \<Rightarrow> (nat \<Rightarrow> u64) \<Rightarrow> (nat \<Rightarrow> u64) res" where
  "fill_pml4 len pages_pml4 num_pml4 ptr =
     for_range 0 (unat num_pml4) (\<lambda>i b.
       and_then (table_addr (of_nat i) [pages_pml4] ptr) (\<lambda>entry_addr.
       and_then (guard (entry_addr AND PML4_ADDR_MASK = entry_addr) (Message ''PML4 Address field misaligned'')) (\<lambda>_.
       let entry = entry_addr OR PML4_ENTRY_BASE in
       and_then (buf_set len i entry b) (\<lambda>b1.
       and_then (checked_sub 512 num_pml4) (\<lambda>k.
         buf_set len (unat k + i) entry b1)))))"

definition fill_pdp :: "nat \<Rightarrow> u64 \<Rightarrow> u64 \<Rightarrow> u64 \<Rightarrow> u64 \<Rightarrow> (nat \<Rightarrow> u64) \<Rightarrow> (nat \<Rightarrow> u64) res" where
  "fill_pdp len pages_pml4 pages_pdp num_pdp ptr =
     for_range 0 (unat num_pdp) (\<lambda>i b.
       and_then (table_addr (of_nat i) [pages_pml4, pages_pdp] ptr) (\<lambda>entry_addr.
       and_then (guard (entry_addr AND PDPE_ADDR_MASK = entry_addr) (Message ''PDP Address field misaligned'')) (\<lambda>_.
         buf_set len (unat pages_pml4 * 512 + i) (entry_addr OR PDPE_ENTRY_BASE) b)))"

definition fill_pd :: "nat \<Rightarrow> u64 \<Rightarrow> u64 \<Rightarrow> u64 \<Rightarrow> (nat \<Rightarrow> u64) \<Rightarrow> (nat \<Rightarrow> u64) res" where
  "fill_pd len pages_pml4 pages_pdp num_pd =
     for_range 0 (unat num_pd) (\<lambda>i b.
       let entry_addr = push_bit 21 (of_nat i) in
       and_then (guard (entry_addr AND PDE_ADDR_MASK = entry_addr) (Message ''PD Address field misaligned'')) (\<lambda>_.
         buf_set len (unat pages_pml4 * 512 + unat pages_pdp * 512 + i) (entry_addr OR PDE_ENTRY_BASE) b))"

definition ptr_to_kernelspace :: "u64 \<Rightarrow> u64 \<Rightarrow> u64" where
  "ptr_to_kernelspace high_mem_base ptr = ptr OR high_mem_base"

text \<open>The tables in the allocated buffer: the three loops, the base of the higher half and what describes them.\<close>

definition fill_tables :: "u64 \<Rightarrow> u64 \<Rightarrow> u64 \<Rightarrow> u64 \<Rightarrow> u64 \<Rightarrow> u64 \<Rightarrow> u64 \<Rightarrow> u64 \<Rightarrow> (nat \<Rightarrow> u64) \<Rightarrow> page_tables res" where
  "fill_tables alloc_pages pages_pml4 pages_pdp pages_pd num_pml4 num_pdp num_pd ptr mem =
     and_then (checked_mul alloc_pages 4096) (\<lambda>len.
     and_then (fill_pml4 (unat len) pages_pml4 num_pml4 ptr mem) (\<lambda>b1.
     and_then (fill_pdp (unat len) pages_pml4 pages_pdp num_pdp ptr b1) (\<lambda>b2.
     and_then (fill_pd (unat len) pages_pml4 pages_pdp num_pd b2) (\<lambda>b3.
     and_then (checked_sub 512 num_pml4) (\<lambda>k.
     let base = 0xFFFF000000000000 OR push_bit 39 k in
       Inr \<lparr>pt_buffer = b3, pt_ptr = ptr, pt_high_mem_base = base, pt_cr3 = ptr,
            pt_info = \<lparr>page_buffer = ptr_to_kernelspace base ptr, pdp_pages = pages_pdp,
                       pd_pages = pages_pd, pml4_entries = num_pml4\<rparr>\<rparr>)))))"

text \<open>The messages of \<open>init\<close>; \<^verbatim>\<open>{:016X}\<close> pads with zeros to width 16, without a prefix.\<close>

definition crlf :: "u32 list" where
  "crlf = [0x0D, 0x0A]"

definition size_message :: "u64 \<Rightarrow> u32 list list" where
  "size_message mem_size =
     (let ds = hex_digits (unat mem_size)
      in [chars ''Memory ranges from 0 to ''] @ replicate (16 - length ds) [48] @ [ds, crlf])"

definition entries_message :: "u64 \<Rightarrow> u64 \<Rightarrow> u64 \<Rightarrow> u32 list list" where
  "entries_message num_pml4 num_pdp num_pd =
     [chars ''pml4_entries='', dec_digits (unat num_pml4), chars '', pdp_entries='', dec_digits (unat num_pdp),
      chars '', pd_entries='', dec_digits (unat num_pd), crlf]"

definition pages_message :: "u64 \<Rightarrow> u64 \<Rightarrow> u64 \<Rightarrow> u64 \<Rightarrow> u32 list list" where
  "pages_message alloc_pages pages_pml4 pages_pdp pages_pd =
     [chars ''Using '', dec_digits (unat alloc_pages), chars '' physical pages for initial page table (pml4_pages='',
      dec_digits (unat pages_pml4), chars '', pdp_pages='', dec_digits (unat pages_pdp), chars '', pd_pages='',
      dec_digits (unat pages_pd), chars '')'' @ crlf]"

definition base_message :: "u64 \<Rightarrow> u32 list list" where
  "base_message base = [chars ''High memory start: ''] @ hex016 base @ [crlf]"

definition platform_init ::
  "(u32 list list \<Rightarrow> 'f \<Rightarrow> 'f res) \<Rightarrow> (u64 \<Rightarrow> 'f \<Rightarrow> (u64 \<times> 'f) option) \<Rightarrow> (nat \<Rightarrow> u64) \<Rightarrow> u64 \<Rightarrow> 'f \<Rightarrow> (page_tables \<times> 'f) res" where
  "platform_init write allocate_pages mem mem_size f =
     and_then (write (size_message mem_size) f) (\<lambda>f1.
     let physical_size = mem_size AND 0x00007FFFFFFFFFFF in
     and_then (entries_of physical_size 39) (\<lambda>num_pml4.
     and_then (entries_of physical_size 30) (\<lambda>num_pdp.
     and_then (entries_of physical_size 21) (\<lambda>num_pd.
     and_then (pages_for num_pml4) (\<lambda>pages_pml4.
     and_then (pages_for num_pdp) (\<lambda>pages_pdp.
     and_then (pages_for num_pd) (\<lambda>pages_pd.
     and_then (checked_add pages_pml4 pages_pdp) (\<lambda>n.
     and_then (checked_add n pages_pd) (\<lambda>alloc_pages.
     and_then (guard (pages_pml4 = 1) (Message ''PML4 larger than one page, should be impossible'')) (\<lambda>_.
     and_then (write (entries_message num_pml4 num_pdp num_pd) f1) (\<lambda>f2.
     and_then (write (pages_message alloc_pages pages_pml4 pages_pdp pages_pd) f2) (\<lambda>f3.
     and_then (expect ''Failed to allocate buffer for page table'' (allocate_pages alloc_pages f3)) (\<lambda>(ptr, f4).
     and_then (fill_tables alloc_pages pages_pml4 pages_pdp pages_pd num_pml4 num_pdp num_pd ptr mem) (\<lambda>pt.
     and_then (write (base_message (pt_high_mem_base pt)) f4) (\<lambda>f5.
       Inr (pt, f5))))))))))))))))"

text \<open>The highest end address of the memory map's entries.\<close>

fun highest_address :: "(u64 \<times> u64) list \<Rightarrow> u64 \<Rightarrow> u64 res" where
  "highest_address [] physical_size = Inr physical_size"
| "highest_address ((start, count) # mmap) physical_size =
     and_then (checked_mul count 4096) (\<lambda>a.
     and_then (checked_add start a) (\<lambda>seg_end.
       highest_address mmap (if physical_size < seg_end then seg_end else physical_size)))"

section \<open>The kernel's half\<close>

text \<open>
  The kernel zeroes the first entries of the PML4 through the pointer in \<open>paging_info\<close>, which is the
  mirror of the page buffer, and reloads CR3 with the physical address it computes from that pointer.
\<close>

definition virt_manager_init :: "'t logger \<Rightarrow> u64 \<Rightarrow> page_tables \<Rightarrow> 't \<Rightarrow> (page_tables \<times> 't) res" where
  "virt_manager_init emit high_mem_base pt t =
     (let pml4 = page_buffer (pt_info pt); n = unat (pml4_entries (pt_info pt));
          pt1 = pt\<lparr>pt_buffer := (\<lambda>i. if i < n then 0 else pt_buffer pt i)\<rparr> in
      and_then (emit Verbose ''VirtManager'' (chars ''PML4 at phys address '' # hex016 (virt_to_phys high_mem_base pml4)) t) (\<lambda>t1.
        Inr (pt1\<lparr>pt_cr3 := virt_to_phys high_mem_base (page_buffer (pt_info pt1))\<rparr>, t1)))"

text \<open>The same without the message, as the reference for the proofs about the tables.\<close>

definition switch_tables :: "u64 \<Rightarrow> page_tables \<Rightarrow> page_tables" where
  "switch_tables high_mem_base pt =
     (let n = unat (pml4_entries (pt_info pt)) in
      pt\<lparr>pt_buffer := (\<lambda>i. if i < n then 0 else pt_buffer pt i),
         pt_cr3 := virt_to_phys high_mem_base (page_buffer (pt_info pt))\<rparr>)"

section \<open>Address translation\<close>

text \<open>
  The walk of the processor through a four-level table, down to a 2 MB page: at each level the entry
  must be present; the tables are read from physical memory, of which the page buffer is the part at
  \<open>pt_ptr\<close>. \<open>None\<close> is a page fault or a walk that leaves the page buffer.
\<close>

definition read_entry :: "nat \<Rightarrow> page_tables \<Rightarrow> u64 \<Rightarrow> u64 \<Rightarrow> u64 option" where
  "read_entry n pt table index =
     (let d = unat (table + index * 8 - pt_ptr pt) in
      if d mod 8 = 0 \<and> d div 8 < n then Some (pt_buffer pt (d div 8)) else None)"

definition table_index :: "u64 \<Rightarrow> nat \<Rightarrow> u64" where
  "table_index v k = drop_bit k v AND 511"

definition walk :: "nat \<Rightarrow> page_tables \<Rightarrow> u64 \<Rightarrow> u64 option" where
  "walk n pt v =
     (case read_entry n pt (pt_cr3 pt) (table_index v 39) of
        None \<Rightarrow> None
      | Some e4 \<Rightarrow> if e4 AND PML_P = 0 then None else
          (case read_entry n pt (e4 AND PML4_ADDR_MASK) (table_index v 30) of
             None \<Rightarrow> None
           | Some e3 \<Rightarrow> if e3 AND PML_P = 0 then None else
               (case read_entry n pt (e3 AND PDPE_ADDR_MASK) (table_index v 21) of
                  None \<Rightarrow> None
                | Some e2 \<Rightarrow> if e2 AND PML_P = 0 then None
                    else Some ((e2 AND PDE_ADDR_MASK) OR (v AND 0x1FFFFF)))))"

end
