(* ===== verification/Byte_Memory.thy ===== *)
theory Byte_Memory
  imports Prelude
begin

text \<open>
  Byte-addressed memory for the code that writes through raw pointers: the packed structures of the
  descriptor tables, the page tables and the images the bootloader loads. Addresses are 64-bit
  words and address arithmetic wraps, as on the machine.
\<close>

type_synonym bytes = "u64 \<Rightarrow> u8"

fun store :: "bytes \<Rightarrow> u64 \<Rightarrow> u8 list \<Rightarrow> bytes" where
  "store m a [] = m"
| "store m a (b # bs) = store (m(a := b)) (a + 1) bs"

fun load :: "bytes \<Rightarrow> u64 \<Rightarrow> nat \<Rightarrow> u8 list" where
  "load m a 0 = []"
| "load m a (Suc n) = m a # load m (a + 1) n"

text \<open>\<^verbatim>\<open>ptr.write_bytes(v, n)\<close> with \<open>n\<close> in bytes.\<close>

definition fill_bytes :: "bytes \<Rightarrow> u64 \<Rightarrow> nat \<Rightarrow> u8 \<Rightarrow> bytes" where
  "fill_bytes m a n v = (\<lambda>x. if unat (x - a) < n then v else m x)"

text \<open>Little-endian encoding of an integer into \<open>n\<close> bytes, and back.\<close>

fun le_bytes :: "nat \<Rightarrow> 'a::len word \<Rightarrow> u8 list" where
  "le_bytes 0 w = []"
| "le_bytes (Suc n) w = ucast w # le_bytes n (drop_bit 8 w)"

fun le_word :: "u8 list \<Rightarrow> 'a::len word" where
  "le_word [] = 0"
| "le_word (b # bs) = ucast b OR push_bit 8 (le_word bs)"

lemma le_bytes_numeral [simp]:
  "le_bytes (numeral n) w = ucast w # le_bytes (pred_numeral n) (drop_bit 8 w)"
  by (simp add: numeral_eq_Suc)

lemma length_le_bytes [simp]: "length (le_bytes n w) = n"
  by (induction n arbitrary: w) simp_all

lemma length_load [simp]: "length (load m a n) = n"
  by (induction n arbitrary: a) simp_all

lemma le_word_le_bytes: "le_word (le_bytes n w) = (take_bit (8 * n) w :: 'a::len word)"
proof (induction n arbitrary: w)
  case 0
  then show ?case by simp
next
  case (Suc n)
  show ?case
    by (rule bit_word_eqI)
      (auto simp: Suc bit_or_iff bit_push_bit_iff bit_take_bit_iff bit_ucast_iff bit_drop_bit_eq)
qed

lemma le_word_le_bytes_full: "LENGTH('a) \<le> 8 * n \<Longrightarrow> le_word (le_bytes n w) = (w :: 'a::len word)"
  by (simp only: le_word_le_bytes take_bit_word_eq_self)

section \<open>Reading back what was written\<close>

lemma store_nth:
  assumes "length bs \<le> 2 ^ 64"
  shows "store m a bs x = (if unat (x - a) < length bs then bs ! unat (x - a) else m x)"
  using assms
proof (induction bs arbitrary: m a)
  case Nil
  then show ?case by simp
next
  case (Cons b bs)
  have IH: "store (m(a := b)) (a + 1) bs x =
      (if unat (x - (a + 1)) < length bs then bs ! unat (x - (a + 1)) else (m(a := b)) x)"
    using Cons by simp
  show ?case
  proof (cases "x = a")
    case True
    have "x - (a + 1) = - 1" using True by simp
    then have "unat (x - (a + 1)) = 2 ^ 64 - 1" by (simp add: unsigned_minus_1_eq_mask mask_eq_exp_minus_1)
    then have "\<not> unat (x - (a + 1)) < length bs" using Cons.prems by simp
    with IH True show ?thesis by simp
  next
    case False
    then have pos: "0 < unat (x - a)" by (simp add: unat_gt_0)
    then have "1 \<le> x - a" by (simp add: word_le_nat_alt)
    from unat_sub_checked[OF this] have "unat (x - a - 1) = unat (x - a) - 1" by simp
    moreover have "x - (a + 1) = x - a - 1" by simp
    ultimately have "unat (x - a) = Suc (unat (x - (a + 1)))" using pos by (simp only: Suc_pred One_nat_def)
    with IH False show ?thesis by simp
  qed
qed

lemma load_nth: "i < n \<Longrightarrow> load m a n ! i = m (a + of_nat i)"
proof (induction n arbitrary: a i)
  case (Suc n)
  then show ?case by (cases i) (simp_all add: add.assoc)
qed simp

lemma load_add: "load m a (n + k) = load m a n @ load m (a + of_nat n) k"
  by (induction n arbitrary: a) (simp_all add: add.assoc)

lemma load_eqI: "(\<And>i. i < n \<Longrightarrow> m (a + of_nat i) = m' (a' + of_nat i)) \<Longrightarrow> load m a n = load m' a' n"
  by (rule nth_equalityI) (simp_all add: load_nth)

lemma load_store_same:
  assumes "length bs \<le> 2 ^ 64" "i + n \<le> length bs"
  shows "load (store m a bs) (a + of_nat i) n = take n (drop i bs)"
proof (rule nth_equalityI)
  show "length (load (store m a bs) (a + of_nat i) n) = length (take n (drop i bs))" using assms by simp
  fix j assume "j < length (load (store m a bs) (a + of_nat i) n)"
  then have j: "j < n" by simp
  have "i + j < 2 ^ LENGTH(64)" using j assms by simp
  then have "unat (of_nat (i + j) :: u64) = i + j" by (rule unat_of_nat_small)
  moreover have "a + of_nat i + of_nat j - a = (of_nat (i + j) :: u64)" by simp
  ultimately have "store m a bs (a + of_nat i + of_nat j) = bs ! (i + j)"
    using store_nth[OF assms(1), of m a "a + of_nat i + of_nat j"] j assms(2) by simp
  then show "load (store m a bs) (a + of_nat i) n ! j = take n (drop i bs) ! j"
    using j assms(2) by (simp add: load_nth)
qed

lemma load_store [simp]: "n = length bs \<Longrightarrow> n \<le> 2 ^ 64 \<Longrightarrow> load (store m a bs) a n = bs"
  using load_store_same[of bs 0 n m a] by simp

text \<open>Two regions that do not meet, with wrap-around.\<close>

definition disjoint_regions :: "u64 \<Rightarrow> nat \<Rightarrow> u64 \<Rightarrow> nat \<Rightarrow> bool" where
  "disjoint_regions a n b k \<longleftrightarrow> (\<forall>i<n. k \<le> unat (a + of_nat i - b))"

lemma load_store_other:
  assumes "length bs \<le> 2 ^ 64" "disjoint_regions a n b (length bs)"
  shows "load (store m b bs) a n = load m a n"
  by (rule load_eqI) (use assms in \<open>auto simp: store_nth disjoint_regions_def leD\<close>)

lemma load_fill_other:
  assumes "disjoint_regions a n b k"
  shows "load (fill_bytes m b k v) a n = load m a n"
  by (rule load_eqI) (use assms in \<open>auto simp: fill_bytes_def disjoint_regions_def leD\<close>)

lemma store_other:
  "length bs \<le> 2 ^ 64 \<Longrightarrow> \<not> unat (x - a) < length bs \<Longrightarrow> store m a bs x = m x"
  by (simp add: store_nth)

text \<open>Regions at the same base, given by offsets.\<close>

lemma disjoint_offsets:
  assumes "i + n \<le> j \<or> j + k \<le> i" "i + n \<le> 2 ^ 63" "j + k \<le> 2 ^ 63"
  shows "disjoint_regions (a + of_nat i) n (a + of_nat j) k"
  unfolding disjoint_regions_def
proof (intro allI impI)
  fix l assume l: "l < n"
  have eq: "a + of_nat i + of_nat l - (a + of_nat j) = (of_nat (i + l) - of_nat j :: u64)" by simp
  have u: "unat (of_nat (i + l) :: u64) = i + l" "unat (of_nat j :: u64) = j"
    using assms(2,3) l by (intro unat_of_nat_small; simp)+
  show "k \<le> unat (a + of_nat i + of_nat l - (a + of_nat j))"
  proof (cases "j \<le> i + l")
    case True
    then have "unat (of_nat (i + l) - of_nat j :: u64) = i + l - j"
      using u by (simp only: unat_sub_checked word_le_nat_alt)
    with True l assms(1) show ?thesis unfolding eq by linarith
  next
    case False
    then have "unat (of_nat (i + l) - of_nat j :: u64) = 2 ^ 64 + (i + l) - j"
      using u unat_sub_if'[of "of_nat (i + l) :: u64" "of_nat j"] by (simp only: if_False) simp
    with False assms(2,3) show ?thesis unfolding eq by simp
  qed
qed

end
