(* ===== verification/Elf.thy ===== *)
theory Elf
  imports Byte_Memory
begin

text \<open>
  \<^verbatim>\<open>bootloader/src/elf.rs\<close>: the loader of the kernel image. The raw file and the destination buffer
  live in one byte memory, and every structure is read from it at the offsets that
  \<^verbatim>\<open>repr(C)\<close> gives its fields. Pointer offsets wrap; additions and subtractions of integers
  are checked. The two scans that end at a terminator in memory are partial: \<open>None\<close> when
  there is none.
\<close>

section \<open>Structures\<close>

definition rd16 :: "bytes \<Rightarrow> u64 \<Rightarrow> u16" where "rd16 m a = le_word (load m a 2)"
definition rd32 :: "bytes \<Rightarrow> u64 \<Rightarrow> u32" where "rd32 m a = le_word (load m a 4)"
definition rd64 :: "bytes \<Rightarrow> u64 \<Rightarrow> u64" where "rd64 m a = le_word (load m a 8)"

record elf_header =
  hdr_magic :: u32
  hdr_bits :: u8
  hdr_endian :: u8
  hdr_version :: u8
  hdr_abi :: u8
  hdr_padding :: "u8 list"
  hdr_object_type :: u16
  hdr_machine_type :: u16
  hdr_x_version :: u32
  hdr_entry_point :: u64
  hdr_ph_offset :: u64
  hdr_sh_offset :: u64
  hdr_flags :: u32
  hdr_header_size :: u16
  hdr_ph_entry_size :: u16
  hdr_ph_entry_count :: u16
  hdr_sh_entry_size :: u16
  hdr_sh_entry_count :: u16
  hdr_name_string_table_index :: u16

definition read_header :: "bytes \<Rightarrow> u64 \<Rightarrow> elf_header" where
  "read_header m a =
     \<lparr>hdr_magic = rd32 m a, hdr_bits = m (a + 4), hdr_endian = m (a + 5), hdr_version = m (a + 6),
      hdr_abi = m (a + 7), hdr_padding = load m (a + 8) 8, hdr_object_type = rd16 m (a + 16),
      hdr_machine_type = rd16 m (a + 18), hdr_x_version = rd32 m (a + 20), hdr_entry_point = rd64 m (a + 24),
      hdr_ph_offset = rd64 m (a + 32), hdr_sh_offset = rd64 m (a + 40), hdr_flags = rd32 m (a + 48),
      hdr_header_size = rd16 m (a + 52), hdr_ph_entry_size = rd16 m (a + 54), hdr_ph_entry_count = rd16 m (a + 56),
      hdr_sh_entry_size = rd16 m (a + 58), hdr_sh_entry_count = rd16 m (a + 60),
      hdr_name_string_table_index = rd16 m (a + 62)\<rparr>"

record segment_header =
  ph_seg_type :: u32
  ph_flags :: u32
  ph_data_offset :: u64
  ph_virt_addr :: u64
  ph_unused :: u64
  ph_data_size :: u64
  ph_virt_size :: u64
  ph_alignment :: u64

definition read_segment_header :: "bytes \<Rightarrow> u64 \<Rightarrow> segment_header" where
  "read_segment_header m a =
     \<lparr>ph_seg_type = rd32 m a, ph_flags = rd32 m (a + 4), ph_data_offset = rd64 m (a + 8),
      ph_virt_addr = rd64 m (a + 16), ph_unused = rd64 m (a + 24), ph_data_size = rd64 m (a + 32),
      ph_virt_size = rd64 m (a + 40), ph_alignment = rd64 m (a + 48)\<rparr>"

definition SIZE_SEGMENT_HEADER :: nat where "SIZE_SEGMENT_HEADER = 56"

definition SEGTYPE_LOAD :: u32 where "SEGTYPE_LOAD = 1"
definition SEGTYPE_DYNAMIC :: u32 where "SEGTYPE_DYNAMIC = 2"

text \<open>The tags are \<open>i64\<close>; they are only compared for equality.\<close>

record dynamic_entry =
  de_tag :: u64
  de_value :: u64

definition read_dynamic_entry :: "bytes \<Rightarrow> u64 \<Rightarrow> dynamic_entry" where
  "read_dynamic_entry m a = \<lparr>de_tag = rd64 m a, de_value = rd64 m (a + 8)\<rparr>"

definition DE_TAG_RELA :: u64 where "DE_TAG_RELA = 7"
definition DE_TAG_RELASZ :: u64 where "DE_TAG_RELASZ = 8"

record rel_a =
  ra_addr :: u64
  ra_info :: u64
  ra_addend :: u64

definition read_rel_a :: "bytes \<Rightarrow> u64 \<Rightarrow> rel_a" where
  "read_rel_a m a = \<lparr>ra_addr = rd64 m a, ra_info = rd64 m (a + 8), ra_addend = rd64 m (a + 16)\<rparr>"

definition SIZE_REL_A :: u64 where "SIZE_REL_A = 24"

definition R_RELATIVE :: u32 where "R_RELATIVE = 8"

record section_header =
  sh_name_offset :: u32
  sh_sec_type :: u32
  sh_flags :: u64
  sh_virt_addr :: u64
  sh_file_offset :: u64
  sh_size :: u64
  sh_link :: u32
  sh_info :: u32
  sh_alignment :: u64
  sh_entry_size :: u64

definition read_section_header :: "bytes \<Rightarrow> u64 \<Rightarrow> section_header" where
  "read_section_header m a =
     \<lparr>sh_name_offset = rd32 m a, sh_sec_type = rd32 m (a + 4), sh_flags = rd64 m (a + 8),
      sh_virt_addr = rd64 m (a + 16), sh_file_offset = rd64 m (a + 24), sh_size = rd64 m (a + 32),
      sh_link = rd32 m (a + 40), sh_info = rd32 m (a + 44), sh_alignment = rd64 m (a + 48),
      sh_entry_size = rd64 m (a + 56)\<rparr>"

definition SHT_PROGBITS :: u32 where "SHT_PROGBITS = 1"

text \<open>The slices over the two header tables.\<close>

definition ph_entry :: "bytes \<Rightarrow> u64 \<Rightarrow> nat \<Rightarrow> segment_header" where
  "ph_entry m img i =
     read_segment_header m (img + hdr_ph_offset (read_header m img) + of_nat (SIZE_SEGMENT_HEADER * i))"

definition ph_count :: "bytes \<Rightarrow> u64 \<Rightarrow> nat" where
  "ph_count m img = unat (hdr_ph_entry_count (read_header m img))"

definition ph_list :: "bytes \<Rightarrow> u64 \<Rightarrow> segment_header list" where
  "ph_list m img = map (ph_entry m img) [0..<ph_count m img]"

definition sh_list :: "bytes \<Rightarrow> u64 \<Rightarrow> section_header list" where
  "sh_list m img =
     map (\<lambda>i. read_section_header m (img + hdr_sh_offset (read_header m img) + of_nat (64 * i)))
       [0..<unat (hdr_sh_entry_count (read_header m img))]"

section \<open>Size of the prepared image\<close>

definition get_size :: "bytes \<Rightarrow> u64 \<Rightarrow> u64 res" where
  "get_size m img =
     for_each (ph_list m img) (\<lambda>s size.
       if ph_seg_type s = SEGTYPE_LOAD then
         and_then (checked_add (ph_virt_addr s) (ph_virt_size s)) (\<lambda>offs.
           Inr (if size < offs then offs else size))
       else Inr size) 0"

section \<open>The text section\<close>

partial_function (option) strcmp :: "bytes \<Rightarrow> u64 \<Rightarrow> u64 \<Rightarrow> bool option" where
  "strcmp m a b =
     (if m a = m b then if m a = 0 then Some True else strcmp m (a + 1) (b + 1) else Some False)"

text \<open>\<open>text_name\<close> is the address of the literal \<^verbatim>\<open>".text\0"\<close>.\<close>

fun find_text :: "bytes \<Rightarrow> u64 \<Rightarrow> u64 \<Rightarrow> u64 \<Rightarrow> section_header list \<Rightarrow> u64 res" where
  "find_text m text_name name_table process [] = Inr 0"
| "find_text m text_name name_table process (s # ss) =
     (if sh_sec_type s = SHT_PROGBITS then
        (case strcmp m (name_table + ucast (sh_name_offset s)) text_name of
           None \<Rightarrow> Inl Hang
         | Some True \<Rightarrow> checked_add process (sh_virt_addr s)
         | Some False \<Rightarrow> find_text m text_name name_table process ss)
      else find_text m text_name name_table process ss)"

definition get_text_addr :: "bytes \<Rightarrow> u64 \<Rightarrow> u64 \<Rightarrow> u64 \<Rightarrow> u64 res" where
  "get_text_addr m text_name img process =
     and_then (slice_get (sh_list m img) (unat (hdr_name_string_table_index (read_header m img)))) (\<lambda>strtab.
       find_text m text_name (img + sh_file_offset strtab) process (sh_list m img))"

section \<open>Preparing the image\<close>

definition load_segment :: "u64 \<Rightarrow> u64 \<Rightarrow> segment_header \<Rightarrow> bytes \<Rightarrow> bytes res" where
  "load_segment img dest s m =
     (let src = img + ph_data_offset s; dst = dest + ph_virt_addr s;
          m' = store m dst (load m src (unat (ph_data_size s))) in
      and_then (checked_sub (ph_virt_size s) (ph_data_size s)) (\<lambda>n.
        Inr (fill_bytes m' (dst + ph_data_size s) (unat n) 0)))"

definition scan_entry :: "dynamic_entry \<Rightarrow> u64 \<times> u64 \<Rightarrow> u64 \<times> u64" where
  "scan_entry de acc =
     (if de_tag de = DE_TAG_RELA then (de_value de, snd acc)
      else if de_tag de = DE_TAG_RELASZ then (fst acc, de_value de div SIZE_REL_A)
      else acc)"

partial_function (option) scan_dynamic :: "bytes \<Rightarrow> u64 \<Rightarrow> u64 \<times> u64 \<Rightarrow> (u64 \<times> u64) option" where
  "scan_dynamic m dyn_entry acc =
     (let de = read_dynamic_entry m dyn_entry in
      if de_tag de = 0 then Some acc else scan_dynamic m (dyn_entry + 16) (scan_entry de acc))"

fun decimal :: "nat \<Rightarrow> string" where
  "decimal n = (if n < 10 then [char_of (48 + n)] else decimal (n div 10) @ [char_of (48 + n mod 10)])"

declare decimal.simps [simp del]

definition relocate :: "u64 \<Rightarrow> u64 \<Rightarrow> bytes \<Rightarrow> bytes res" where
  "relocate dest rela_entry m =
     (let rela = read_rel_a m rela_entry; rel_type = ucast (ra_info rela) :: u32 in
      and_then (checked_add dest (ra_addr rela)) (\<lambda>target.
      let addend = ra_addend rela + dest in
      if rel_type = R_RELATIVE then Inr (store m target (le_bytes 8 addend))
      else Inl (Message (''Unsupported relocation ('' @ decimal (unat rel_type) @ '') while preparing kernel image''))))"

definition relocate_dynamic :: "u64 \<Rightarrow> segment_header \<Rightarrow> bytes \<Rightarrow> bytes res" where
  "relocate_dynamic dest s m =
     (case scan_dynamic m (dest + ph_virt_addr s) (0, 0) of
        None \<Rightarrow> Inl Hang
      | Some (rela_addr, rela_count) \<Rightarrow>
          for_range 0 (unat rela_count) (\<lambda>i. relocate dest (dest + rela_addr + of_nat (24 * i))) m)"

definition prepare_segment :: "u64 \<Rightarrow> u64 \<Rightarrow> segment_header \<Rightarrow> bytes \<Rightarrow> bytes res" where
  "prepare_segment img dest s m =
     (if ph_seg_type s = SEGTYPE_LOAD then load_segment img dest s m
      else if ph_seg_type s = SEGTYPE_DYNAMIC then relocate_dynamic dest s m
      else Inr m)"

definition prepare :: "u64 \<Rightarrow> u64 \<Rightarrow> bytes \<Rightarrow> (bytes \<times> u64) res" where
  "prepare img dest m =
     and_then (for_range 0 (ph_count m img) (\<lambda>i m. prepare_segment img dest (ph_entry m img i) m) m) (\<lambda>m'.
     and_then (checked_add dest (hdr_entry_point (read_header m' img))) (\<lambda>entry.
       Inr (m', entry)))"

end
