(* ===== verification/Boot.thy ===== *)
theory Boot
  imports Paging Elf
begin

text \<open>
  The bootloader: \<^verbatim>\<open>bootloader/src/main.rs\<close>, \<^verbatim>\<open>allocator.rs\<close>, \<^verbatim>\<open>io.rs\<close>, \<^verbatim>\<open>platform.rs\<close> and the wrapper \<open>init\<close> of
  \<^verbatim>\<open>paging.rs\<close>, from the firmware's call of \<open>efi_main\<close> to the jump into the kernel.

  The UEFI firmware (the \<open>uefi\<close> crate) is the record \<open>firmware\<close> of the services the code calls, over
  an abstract state of the firmware; \<open>None\<close> is an error status, on which \<open>expect\<close> panics. Virtual
  memory is a flat byte memory: the kernel image is written through its mirror address and
  nowhere accessed through its physical address. Page tables are the record of the paging theory;
  the kernel header and the converted memory map are values next to their addresses. Output on the UEFI console
  is a service like the others: it may fail, which panics, except in the panic handler. The model has the debug-only parts, as the debug profile has them.
\<close>

section \<open>The firmware\<close>

datatype memory_type =
  LOADER_CODE | LOADER_DATA | BOOT_SERVICES_CODE | BOOT_SERVICES_DATA | CONVENTIONAL | OtherMemory u32

datatype allocate_type = AnyPages | MaxAddress u64 | Address u64

datatype pixel_format = PixelRgb | PixelBgr | PixelBitmask | PixelBltOnly

record video_mode =
  vm_resolution :: "u64 \<times> u64"
  vm_stride :: u64
  vm_pixel_format :: pixel_format

record memory_descriptor =
  md_ty :: memory_type
  md_phys_start :: u64
  md_page_count :: u64

datatype file_type = Regular | Directory

record boot_file =
  file_size :: "u64 option"
  file_kind :: "file_type option"
  file_read :: "u8 list option"

record 'f firmware =
  fw_reset :: "bool \<Rightarrow> 'f \<Rightarrow> 'f"
  fw_output :: "u32 list \<Rightarrow> 'f \<Rightarrow> bool \<times> 'f"
  fw_loaded_image :: "'f \<Rightarrow> bool"
  fw_file_system :: "'f \<Rightarrow> bool"
  fw_graphics :: "'f \<Rightarrow> bool"
  fw_allocate_pages :: "allocate_type \<Rightarrow> memory_type \<Rightarrow> u64 \<Rightarrow> 'f \<Rightarrow> (u64 \<times> 'f) option"
  fw_free_pages :: "u64 \<Rightarrow> u64 \<Rightarrow> 'f \<Rightarrow> 'f option"
  fw_memory_map_size :: "'f \<Rightarrow> u64"
  fw_memory_map :: "u64 \<Rightarrow> u64 \<Rightarrow> 'f \<Rightarrow> memory_descriptor list option"
  fw_exit_boot_services :: "u64 \<Rightarrow> u64 \<Rightarrow> 'f \<Rightarrow> memory_descriptor list option"
  fw_modes :: "'f \<Rightarrow> video_mode list"
  fw_set_mode :: "video_mode \<Rightarrow> 'f \<Rightarrow> 'f option"
  fw_frame_buffer :: "'f \<Rightarrow> u64"
  fw_open_volume :: "'f \<Rightarrow> bool"
  fw_open :: "string \<Rightarrow> 'f \<Rightarrow> boot_file option"

record 'f boot =
  bt_fw :: 'f
  bt_mem :: bytes

section \<open>The console\<close>

text \<open>
  \<^verbatim>\<open>write!\<close> on the UEFI console: the formatter writes the pieces of a message one after the other and stops at the
  first that fails; \<^verbatim>\<open>unwrap\<close> turns the failure into a panic.
\<close>

fun write_console :: "'f firmware \<Rightarrow> u32 list list \<Rightarrow> 'f \<Rightarrow> bool \<times> 'f" where
  "write_console fw [] f = (True, f)"
| "write_console fw (p # ps) f = (case fw_output fw p f of (True, f') \<Rightarrow> write_console fw ps f' | (False, f') \<Rightarrow> (False, f'))"

definition write_unwrap :: "'f firmware \<Rightarrow> u32 list list \<Rightarrow> 'f \<Rightarrow> 'f res" where
  "write_unwrap fw ps f =
     (case write_console fw ps f of
        (True, f') \<Rightarrow> Inr f'
      | (False, f') \<Rightarrow> Inl (Message ''called `Result::unwrap()` on an `Err` value''))"

definition write_stdout :: "'f firmware \<Rightarrow> u32 list list \<Rightarrow> 'f boot \<Rightarrow> 'f boot res" where
  "write_stdout fw ps b = and_then (write_unwrap fw ps (bt_fw b)) (\<lambda>f. Inr (b\<lparr>bt_fw := f\<rparr>))"

section \<open>allocator.rs\<close>

definition pages_of_size :: "u64 \<Rightarrow> u64 res" where
  "pages_of_size n = and_then (checked_add n 4095) (\<lambda>a. Inr (a div 4096))"

definition allocate :: "'f firmware \<Rightarrow> u64 \<Rightarrow> memory_type \<Rightarrow> 'f boot \<Rightarrow> (u64 \<times> 'f boot) res" where
  "allocate fw size_bytes memory_type b =
     and_then (pages_of_size size_bytes) (\<lambda>n.
     and_then (expect ''Failed to allocate pages'' (fw_allocate_pages fw AnyPages memory_type n (bt_fw b))) (\<lambda>(a, f).
       Inr (a, b\<lparr>bt_fw := f\<rparr>)))"

definition SIZE_KERNEL_HEADER :: u64 where "SIZE_KERNEL_HEADER = 80"

definition allocate_object :: "'f firmware \<Rightarrow> u64 \<Rightarrow> memory_type \<Rightarrow> 'f boot \<Rightarrow> (u64 \<times> 'f boot) res" where
  "allocate_object fw size_of memory_type b = allocate fw size_of memory_type b"

definition free :: "'f firmware \<Rightarrow> u64 \<Rightarrow> u64 \<Rightarrow> 'f boot \<Rightarrow> 'f boot res" where
  "free fw block size_bytes b =
     and_then (pages_of_size size_bytes) (\<lambda>n.
     and_then (expect ''Failed to free pages'' (fw_free_pages fw block n (bt_fw b))) (\<lambda>f.
       Inr (b\<lparr>bt_fw := f\<rparr>)))"

definition allocate_below :: "'f firmware \<Rightarrow> u64 \<Rightarrow> u64 \<Rightarrow> memory_type \<Rightarrow> 'f boot \<Rightarrow> (u64 \<times> 'f boot) option" where
  "allocate_below fw max_address num_pages memory_type b =
     map_option (\<lambda>(a, f). (a, b\<lparr>bt_fw := f\<rparr>)) (fw_allocate_pages fw (MaxAddress max_address) memory_type num_pages (bt_fw b))"

section \<open>io.rs\<close>

record file_data =
  fd_size :: u64
  fd_data :: u64

definition read_file :: "'f firmware \<Rightarrow> string \<Rightarrow> 'f boot \<Rightarrow> (file_data \<times> 'f boot) res" where
  "read_file fw path b =
     and_then (guard (fw_open_volume fw (bt_fw b)) (Message ''Failed to open FileSystem root'')) (\<lambda>_.
     and_then (expect ''Failed to open file'' (fw_open fw path (bt_fw b))) (\<lambda>file'.
     and_then (expect ''Failed to get file info'' (file_size file')) (\<lambda>n.
     and_then (allocate fw n LOADER_DATA b) (\<lambda>(buffer, b1).
     and_then (expect ''Not a file'' (file_kind file')) (\<lambda>kind.
     case kind of
       Regular \<Rightarrow> and_then (expect ''Failed to read file'' (file_read file')) (\<lambda>bs.
         Inr (\<lparr>fd_size = n, fd_data = buffer\<rparr>, b1\<lparr>bt_mem := store (bt_mem b1) buffer (take (unat n) bs)\<rparr>))
     | Directory \<Rightarrow> Inl (Message ''Not a file''))))))"

section \<open>paging.rs\<close>

definition paging_init :: "'f firmware \<Rightarrow> (nat \<Rightarrow> u64) \<Rightarrow> 'f boot \<Rightarrow> (page_tables \<times> 'f boot) res" where
  "paging_init fw words_at b =
     and_then (pages_of_size (fw_memory_map_size fw (bt_fw b))) (\<lambda>n.
     and_then (checked_add n 1) (\<lambda>mmap_pages.
     and_then (expect ''Failed to allocate space for memory map'' (fw_allocate_pages fw AnyPages LOADER_DATA mmap_pages (bt_fw b))) (\<lambda>(mmap_buffer, f1).
     and_then (pages_of_size (fw_memory_map_size fw f1)) (\<lambda>mmap_pages_2.
     and_then (guard (mmap_pages_2 \<le> mmap_pages) (Message ''MemoryMap unexpectedly expanded too much'')) (\<lambda>_.
     and_then (checked_mul mmap_pages 4096) (\<lambda>len.
     and_then (expect ''Failed to retrieve memory map'' (fw_memory_map fw mmap_buffer len f1)) (\<lambda>mmap.
     and_then (highest_address (map (\<lambda>e. (md_phys_start e, md_page_count e)) mmap) 0) (\<lambda>physical_size.
     and_then (platform_init (write_unwrap fw) (fw_allocate_pages fw AnyPages LOADER_DATA) words_at physical_size f1) (\<lambda>(pt, f2).
     and_then (expect ''Failed to free memory map buffer'' (fw_free_pages fw mmap_buffer mmap_pages f2)) (\<lambda>f3.
       Inr (pt, b\<lparr>bt_fw := f3\<rparr>)))))))))))"

section \<open>platform.rs\<close>

record jump =
  jmp_rbp :: u64
  jmp_rsp :: u64
  jmp_rdi :: u64
  jmp_rip :: u64

definition goto_entrypoint :: "u64 \<Rightarrow> u64 \<Rightarrow> u64 \<Rightarrow> jump" where
  "goto_entrypoint header entry_point kernel_stack =
     (let stack = kernel_stack + KERNEL_STACK_SIZE
      in \<lparr>jmp_rbp = stack, jmp_rsp = stack, jmp_rdi = header, jmp_rip = entry_point\<rparr>)"

section \<open>main.rs\<close>

definition suitable :: "video_mode \<Rightarrow> bool" where
  "suitable m \<longleftrightarrow> fst (vm_resolution m) \<le> 1920 \<and> (vm_pixel_format m = PixelBgr \<or> vm_pixel_format m = PixelRgb)"

fun select_mode :: "video_mode list \<Rightarrow> u64 \<Rightarrow> video_mode option \<Rightarrow> video_mode option" where
  "select_mode [] res_best_x res_best_mode = res_best_mode"
| "select_mode (m # ms) res_best_x res_best_mode =
     (if suitable m \<and> res_best_x < fst (vm_resolution m) then select_mode ms (fst (vm_resolution m)) (Some m)
      else select_mode ms res_best_x res_best_mode)"

definition format_of :: "pixel_format \<Rightarrow> format" where
  "format_of f = (case f of PixelRgb \<Rightarrow> RGB | PixelBgr \<Rightarrow> BGR | _ \<Rightarrow> RGB)"

definition set_video_mode :: "'f firmware \<Rightarrow> kernel_header \<Rightarrow> 'f boot \<Rightarrow> (kernel_header \<times> 'f boot) res" where
  "set_video_mode fw kh b =
     and_then (expect ''No suitable video mode found'' (select_mode (fw_modes fw (bt_fw b)) 0 None)) (\<lambda>m.
     and_then (expect ''Failed to set video mode'' (fw_set_mode fw m (bt_fw b))) (\<lambda>f.
       Inr (kh\<lparr>screen_width := ucast (fst (vm_resolution m)), screen_height := ucast (snd (vm_resolution m)),
               screen_scanline_width := ucast (vm_stride m), screen_buffer := fw_frame_buffer fw f,
               screen_format := format_of (vm_pixel_format m)\<rparr>, b\<lparr>bt_fw := f\<rparr>)))"

definition segment_of :: "memory_descriptor \<Rightarrow> memory_segment" where
  "segment_of d =
     \<lparr>seg_start = md_phys_start d, seg_page_count = md_page_count d,
      seg_state = (case md_ty d of
          BOOT_SERVICES_CODE \<Rightarrow> Free | BOOT_SERVICES_DATA \<Rightarrow> Free | CONVENTIONAL \<Rightarrow> Free | LOADER_CODE \<Rightarrow> Free
        | _ \<Rightarrow> Occupied)\<rparr>"

text \<open>The path of the kernel, with backslashes as separators.\<close>

definition KERNEL_PATH :: string where
  "KERNEL_PATH = ''EFI'' @ [CHR 0x5C] @ ''BOOT'' @ [CHR 0x5C] @ ''kernel.sys''"

text \<open>Reading the kernel, preparing it, and the debugger's page; \<open>text_name\<close> is the literal \<^verbatim>\<open>".text\0"\<close>.\<close>

definition load_kernel :: "'f firmware \<Rightarrow> u64 \<Rightarrow> u64 \<Rightarrow> 'f boot \<Rightarrow> (u64 \<times> 'f boot) res" where
  "load_kernel fw text_name base b =
     and_then (read_file fw KERNEL_PATH b) (\<lambda>(kernel_image, b1).
     and_then (get_size (bt_mem b1) (fd_data kernel_image)) (\<lambda>kernel_elf_size.
     and_then (write_stdout fw [chars ''Kernel size: '', dec_digits (unat kernel_elf_size), crlf] b1) (\<lambda>b2.
     and_then (write_stdout fw [chars ''Preparing kernel...'' @ crlf] b2) (\<lambda>b3.
     and_then (allocate fw kernel_elf_size LOADER_DATA b3) (\<lambda>(a, b4).
     let process_buffer = ptr_to_kernelspace base a in
     and_then (prepare (fd_data kernel_image) process_buffer (bt_mem b4)) (\<lambda>(m, entry_point).
     and_then (write_stdout fw ([chars ''Kernel at ''] @ hex016 process_buffer @ [chars '' (entry point ''] @ hex016 entry_point @
        [chars '')'' @ crlf]) (b4\<lparr>bt_mem := m\<rparr>)) (\<lambda>b5.
     and_then (expect ''Failed to allocate debug buffer'' (fw_allocate_pages fw (Address 0x1000) LOADER_DATA 1 (bt_fw b5))) (\<lambda>(debug_data, f6).
     and_then (get_text_addr m text_name (fd_data kernel_image) process_buffer) (\<lambda>text_addr.
     and_then (free fw (fd_data kernel_image) (fd_size kernel_image)
                 \<lparr>bt_fw = f6, bt_mem = store m debug_data (le_bytes 8 text_addr)\<rparr>) (\<lambda>b7.
       Inr (entry_point, b7)))))))))))"

definition exit_firmware :: "'f firmware \<Rightarrow> 'f boot \<Rightarrow> (u64 \<times> memory_segment list) res" where
  "exit_firmware fw b =
     and_then (pages_of_size (fw_memory_map_size fw (bt_fw b))) (\<lambda>n.
     and_then (checked_add n 1) (\<lambda>mmap_pages.
     and_then (checked_mul mmap_pages 2) (\<lambda>twice.
     and_then (expect ''Failed to allocate mmap buffer'' (fw_allocate_pages fw AnyPages LOADER_DATA twice (bt_fw b))) (\<lambda>(mmap_buffer, f1).
     and_then (pages_of_size (fw_memory_map_size fw f1)) (\<lambda>mmap_pages_2.
     and_then (guard (\<not> mmap_pages < mmap_pages_2) (Message ''Memory Map unexpectedly grew too much'')) (\<lambda>_.
     and_then (checked_mul mmap_pages 4096) (\<lambda>len.
     and_then (expect ''Failed to exit boot services'' (fw_exit_boot_services fw mmap_buffer len f1)) (\<lambda>uefi_memory_map.
       Inr (mmap_buffer + mmap_pages * 4096, map segment_of uefi_memory_map)))))))))"

record handover =
  ho_header :: kernel_header
  ho_memory_map :: "memory_segment list"
  ho_tables :: page_tables
  ho_mem :: bytes
  ho_jump :: jump

definition efi_main :: "'f firmware \<Rightarrow> kernel_header \<Rightarrow> (nat \<Rightarrow> u64) \<Rightarrow> u64 \<Rightarrow> 'f boot \<Rightarrow> handover res" where
  "efi_main fw kh0 words_at text_name start =
     (let b = start\<lparr>bt_fw := fw_reset fw True (bt_fw start)\<rparr> in
     and_then (write_stdout fw [chars ''Initializing bootloader...'' @ crlf] b) (\<lambda>b0.
     and_then (guard (fw_loaded_image fw (bt_fw b0)) (Message ''LoadedImageProtocol not found'')) (\<lambda>_.
     and_then (guard (fw_file_system fw (bt_fw b0)) (Message ''SimpleFileSystemProtocol not found'')) (\<lambda>_.
     and_then (guard (fw_graphics fw (bt_fw b0)) (Message ''GraphicsOutputProtocol not found'')) (\<lambda>_.
     and_then (allocate_object fw SIZE_KERNEL_HEADER LOADER_DATA b0) (\<lambda>(header_ptr, b1).
     and_then (write_stdout fw [chars ''Switching video mode...'' @ crlf] b1) (\<lambda>b1.
     and_then (set_video_mode fw kh0 b1) (\<lambda>(kh1, b2).
     and_then (write_stdout fw [chars ''Initializing Paging...'' @ crlf] b2) (\<lambda>b2.
     and_then (paging_init fw words_at b2) (\<lambda>(pt, b3).
     let base = pt_high_mem_base pt;
         kh2 = kh1\<lparr>paging_info := pt_info pt, screen_buffer := ptr_to_kernelspace base (screen_buffer kh1)\<rparr>;
         header = ptr_to_kernelspace base header_ptr in
     and_then (write_stdout fw ([chars ''High memory starting at ''] @ hex016 (ptr_to_kernelspace base 0) @ [crlf]) b3) (\<lambda>b3.
     and_then (write_stdout fw [chars ''Loading modules...'' @ crlf] b3) (\<lambda>b3.
     and_then (load_kernel fw text_name base b3) (\<lambda>(entry_point, b4).
     and_then (allocate fw KERNEL_STACK_SIZE LOADER_DATA b4) (\<lambda>(kernel_stack, b5).
     and_then (write_stdout fw [chars ''Starting kernel...'' @ crlf] b5) (\<lambda>b5.
     and_then (exit_firmware fw b5) (\<lambda>(map_ptr, segments).
     let kh3 = kh2\<lparr>memory_map := ptr_to_kernelspace base map_ptr, memory_map_entries := of_nat (length segments),
                    high_memory_base := ptr_to_kernelspace base 0\<rparr> in
       Inr \<lparr>ho_header = kh3, ho_memory_map = segments, ho_tables = pt, ho_mem = bt_mem b5,
            ho_jump = goto_entrypoint header entry_point (ptr_to_kernelspace base kernel_stack)\<rparr>))))))))))))))))"

text \<open>The panic handler of the bootloader prints and then loops; a failure to print is ignored.\<close>

definition boot_panic_handler :: "'f firmware \<Rightarrow> u32 list list \<Rightarrow> 'f boot \<Rightarrow> 'f boot" where
  "boot_panic_handler fw info b = b\<lparr>bt_fw := snd (write_console fw ([chars ''PANIC: ''] @ info) (bt_fw b))\<rparr>"

end
