(* ===== verification/Builder_Properties.thy ===== *)
theory Builder_Properties
  imports Builder Boot "HOL-Library.Sublist"
begin

text \<open>
  The properties of the build tool: what a run of it may touch and when, the meaning of its command
  line, and the layout of the image it writes, which the bootloader relies on.
\<close>

section \<open>Runs of scripts\<close>

lemma seq_Return: "s w h = (Return x, h') \<Longrightarrow> seq s k w h = k x w h'"
  by (simp add: seq_def)

lemma yield_run [simp]: "yield x w h = (Return x, h)"
  by (simp add: yield_def)

lemma computed_Inr [simp]: "computed (Inr x) w h = (Return x, h)"
  by (simp add: computed_def)

lemma computed_Inl [simp]: "computed (Inl e) w h = (Panic e, h)"
  by (simp add: computed_def)

text \<open>\<open>only A s\<close>: whatever the world answers, \<open>s\<close> only adds to the history, and only requests of \<open>A\<close>.\<close>

definition only :: "request set \<Rightarrow> 'a script \<Rightarrow> bool" where
  "only A s \<longleftrightarrow> (\<forall>w h. \<exists>t. snd (s w h) = h @ t \<and> fst ` set t \<subseteq> A)"

lemma onlyD: "only A s \<Longrightarrow> s w h = (out, h') \<Longrightarrow> \<exists>t. h' = h @ t \<and> fst ` set t \<subseteq> A"
  unfolding only_def by (metis snd_conv)

lemma only_step [intro, simp]:
  "only A (yield x)" "only A (computed c)" "only A (exit_with n)"
  "r \<in> A \<Longrightarrow> only A (ask r)" "r \<in> A \<Longrightarrow> only A (ask_status r)" "r \<in> A \<Longrightarrow> only A (ask_number r)"
  for r :: request and A :: "request set"
  by (auto simp: only_def computed_def exit_with_def ask_def ask_status_def ask_number_def split: sum.splits option.splits)

lemma only_seq [intro]:
  assumes "only A s" "\<And>x. only A (k x)"
  shows "only A (seq s k)"
  unfolding only_def
proof (intro allI)
  fix w h
  obtain out h' where s: "s w h = (out, h')" by fastforce
  from onlyD[OF assms(1) s] obtain t where t: "h' = h @ t" "fst ` set t \<subseteq> A" by blast
  show "\<exists>t. snd (seq s k w h) = h @ t \<and> fst ` set t \<subseteq> A"
  proof (cases out)
    case (Return x)
    obtain out2 h2 where k: "k x w h' = (out2, h2)" by fastforce
    from onlyD[OF assms(2) k] obtain u where u: "h2 = h' @ u" "fst ` set u \<subseteq> A" by blast
    then show ?thesis using s k t Return by (intro exI[of _ "t @ u"]) (simp add: seq_def image_Un)
  qed (use s t in \<open>auto simp: seq_def\<close>)
qed

lemma only_ask_all [intro]: "set rs \<subseteq> A \<Longrightarrow> only A (ask_all rs)"
  by (induction rs) auto

lemma only_UNIV_eq: "only UNIV s \<Longrightarrow> s w h = (out, h') \<Longrightarrow> \<exists>t. h' = h @ t"
  by (blast dest: onlyD)

text \<open>A script that returned has passed through all of its steps.\<close>

lemma seq_Return_D:
  "seq s k w h = (Return y, h') \<Longrightarrow> \<exists>x h1. s w h = (Return x, h1) \<and> k x w h1 = (Return y, h')"
  by (auto simp: seq_def split: prod.splits outcome.splits)

lemma ask_Return_D: "ask r w h = (Return x, h') \<Longrightarrow> h' = h @ [(r, Done)]"
  by (auto simp: ask_def split: if_splits)

lemma ask_status_Return_D: "ask_status r w h = (Return b, h') \<Longrightarrow> h' = h @ [(r, Status b)]"
  by (auto simp: ask_status_def split: option.splits)

lemma ask_number_Return_D: "ask_number r w h = (Return n, h') \<Longrightarrow> h' = h @ [(r, Number n)]"
  by (auto simp: ask_number_def split: option.splits)

lemma guard_Return_D: "computed (guard b e) w h = (Return x, h') \<Longrightarrow> b \<and> h' = h"
  by (cases b) (auto simp: computed_def)

lemma ask_all_Return_D: "ask_all rs w h = (Return x, h') \<Longrightarrow> h' = h @ map (\<lambda>r. (r, Done)) rs"
proof (induction rs arbitrary: h)
  case (Cons r rs)
  then obtain h1 where "ask r w h = (Return (), h1)" "ask_all rs w h1 = (Return x, h')" by (auto dest: seq_Return_D)
  with Cons.IH[of h1] ask_Return_D show ?case by fastforce
qed simp

section \<open>Command line\<close>

lemma target_not_flag: "strip_prefix ''--target='' a = Some b \<Longrightarrow> a \<notin> {''--release'', ''--clippy'', ''--help'', ''-h''}"
  by (auto simp: strip_prefix_def)

definition targets :: "string list \<Rightarrow> string list" where
  "targets args = List.map_filter (strip_prefix ''--target='') args"

definition requested_arch :: "string list \<Rightarrow> string" where
  "requested_arch args = last (''x86_64'' # targets args)"

text \<open>Flags may come in any order and any number of times, and the last target wins.\<close>

lemma parse_args_meaning:
  "parse_args args opts =
     (if ''--help'' \<in> set args \<or> ''-h'' \<in> set args then None
      else Some \<lparr>op_arch = last (op_arch opts # targets args),
                 op_release = (op_release opts \<or> ''--release'' \<in> set args),
                 op_clippy = (op_clippy opts \<or> ''--clippy'' \<in> set args)\<rparr>)"
proof (induction args arbitrary: opts)
  case Nil
  then show ?case by (simp add: targets_def List.map_filter_def)
next
  case (Cons a args)
  show ?case
  proof (cases "strip_prefix ''--target='' a")
    case None
    then show ?thesis using Cons by (auto simp: targets_def map_filter_simps)
  next
    case (Some b)
    with target_not_flag[OF Some] show ?thesis using Cons by (auto simp: targets_def map_filter_simps)
  qed
qed

section \<open>What the tool touches\<close>

definition writes :: "request \<Rightarrow> bool" where
  "writes r = (case r of Println s \<Rightarrow> False | CommandStatus p as \<Rightarrow> False | _ \<Rightarrow> True)"

lemma writes_simps [simp]:
  "\<not> writes (Println s)" "\<not> writes (CommandStatus p as)"
  "\<not> writes (bootloader_command cargo arch rel)" "\<not> writes (kernel_command cargo dir arch rel)"
  by (simp_all add: writes_def bootloader_command_def kernel_command_def)

lemma quiet_scripts:
  "only {r. \<not> writes r} (compile cargo dir arch rel)"
  "only {r. \<not> writes r} (run_clippy cargo dir arch)"
  "only {r. \<not> writes r} (seq print_usage (\<lambda>_. exit_with 0))"
  unfolding compile_def run_clippy_def print_usage_def by (intro only_seq; force)+

lemma compile_Return_D:
  assumes "compile cargo dir arch rel w h = (Return x, h')"
  shows "(bootloader_command cargo arch rel, Status True) \<in> set h'" "(kernel_command cargo dir arch rel, Status True) \<in> set h'"
  using assms unfolding compile_def
  by (auto dest!: seq_Return_D ask_all_Return_D ask_Return_D ask_status_Return_D guard_Return_D)

lemma package_extends: "only UNIV (package dir arch rel)"
  unfolding package_def write_partition_def write_image_def Let_def
  by (intro only_seq only_step only_ask_all subset_UNIV UNIV_I)

lemma quiet_no_write:
  "only {r. \<not> writes r} s \<Longrightarrow> s w [] = (out, pre @ (r, ans) # post) \<Longrightarrow> \<not> writes r"
  by (drule (1) onlyD) auto

lemma append_split_outside:
  assumes "pre @ x # post = xs @ ys" "x \<notin> set xs"
  shows "set xs \<subseteq> set pre"
  using assms by (auto simp: append_eq_append_conv2 append_eq_Cons_conv Cons_eq_append_conv)

lemma build_writes_after_compile:
  assumes "build cargo dir arch rel w [] = (out, pre @ (r, ans) # post)" "writes r"
  shows "(bootloader_command cargo arch rel, Status True) \<in> set pre \<and> (kernel_command cargo dir arch rel, Status True) \<in> set pre"
proof -
  obtain o1 h1 where c: "compile cargo dir arch rel w [] = (o1, h1)" by fastforce
  have q: "fst ` set h1 \<subseteq> {r. \<not> writes r}" using onlyD[OF quiet_scripts(1) c] by simp
  show ?thesis
  proof (cases o1)
    case (Return x)
    then have "package dir arch rel w h1 = (out, pre @ (r, ans) # post)"
      using assms(1) c by (simp add: build_def seq_Return)
    then obtain t where "pre @ (r, ans) # post = h1 @ t" using only_UNIV_eq[OF package_extends] by blast
    moreover have "(r, ans) \<notin> set h1" using q assms(2) by force
    ultimately have "set h1 \<subseteq> set pre" by (rule append_split_outside)
    with compile_Return_D c Return show ?thesis by blast
  qed (use assms c q in \<open>auto simp: build_def seq_def\<close>)
qed

text \<open>
  C31: The image is only written after successful builds. Whatever cargo, the file system and the
  crates answer, and however the run ends: before the first request that touches a file, both
  the bootloader and the kernel have been compiled successfully, for the architecture of the last
  \<^verbatim>\<open>--target\<close> argument (\<^verbatim>\<open>x86_64\<close> if there is none) and in the profile asked for, and neither help
  nor a clippy run was asked for.
\<close>

theorem image_needs_successful_builds:
  assumes "builder_main cargo dir args w [] = (out, pre @ (r, ans) # post)" "writes r"
  shows "(bootloader_command cargo (requested_arch args) (''--release'' \<in> set args), Status True) \<in> set pre \<and>
    (kernel_command cargo dir (requested_arch args) (''--release'' \<in> set args), Status True) \<in> set pre \<and>
    set args \<inter> {''--help'', ''-h'', ''--clippy''} = {}"
proof -
  have h: "\<not> (''--help'' \<in> set args \<or> ''-h'' \<in> set args)"
    using assms by (auto simp: builder_main_def parse_args_meaning dest: quiet_no_write[OF quiet_scripts(3)])
  then have c: "''--clippy'' \<notin> set args"
    using assms by (auto simp: builder_main_def parse_args_meaning default_options_def dest: quiet_no_write[OF quiet_scripts(2)])
  from h c have "build cargo dir (requested_arch args) (''--release'' \<in> set args) w [] = (out, pre @ (r, ans) # post)"
    using assms(1) by (simp add: builder_main_def parse_args_meaning default_options_def requested_arch_def)
  from build_writes_after_compile[OF this assms(2)] h c show ?thesis by simp
qed

section \<open>The layout of the image\<close>

text \<open>The size of the partition for \<open>n\<close> bytes of files: whole mebibytes, and one more.\<close>

definition partition_bytes :: "nat \<Rightarrow> nat" where
  "partition_bytes n = 2 ^ 20 + (n + 2 ^ 20 - 1) div 2 ^ 20 * 2 ^ 20"

lemma partition_bytes_bounds:
  "2 ^ 20 dvd partition_bytes n" "n + 2 ^ 20 \<le> partition_bytes n" "partition_bytes n < n + 2 * 2 ^ 20"
proof -
  let ?d = "(n + 2 ^ 20 - 1) div 2 ^ 20 * 2 ^ 20"
  have "n + 2 ^ 20 - 1 = ?d + (n + 2 ^ 20 - 1) mod 2 ^ 20" by (simp only: div_mult_mod_eq)
  moreover have "(n + 2 ^ 20 - 1) mod 2 ^ 20 < (2 ^ 20 :: nat)" by (rule mod_less_divisor) simp
  ultimately have "n \<le> ?d" "?d \<le> n + 2 ^ 20 - 1" by linarith+
  then show "n + 2 ^ 20 \<le> partition_bytes n" "partition_bytes n < n + 2 * 2 ^ 20"
    using zero_less_power[of "2::nat" 20] unfolding partition_bytes_def by linarith+
  show "2 ^ 20 dvd partition_bytes n" unfolding partition_bytes_def by (intro dvd_add dvd_refl dvd_triv_right)
qed

lemma unat_MB: "unat MB = 2 ^ 20"
  by (simp add: MB_def)

lemma partition_size_of_eq:
  "partition_size_of a b =
     (if partition_bytes (unat a + unat b) < 2 ^ 64 then Inr (of_nat (partition_bytes (unat a + unat b))) else Inl Overflow)"
proof (cases "unat a + unat b + 2 ^ 20 < 2 ^ 64")
  case True
  let ?n = "unat a + unat b"
  have ab: "unat (a + b) = ?n" using True by (intro unat_add_checked) simp
  then have c: "unat (a + b + MB) = ?n + 2 ^ 20" using True by (subst unat_add_checked) (simp_all add: unat_MB)
  have le: "1 \<le> a + b + MB" unfolding word_le_nat_alt c by simp
  then have s: "unat (a + b + MB - 1) = ?n + 2 ^ 20 - 1" by (simp add: unat_sub_checked c)
  let ?q = "(a + b + MB - 1) div MB"
  have q: "unat ?q = (?n + 2 ^ 20 - 1) div 2 ^ 20" by (simp add: unat_div_distrib s unat_MB)
  have "(?n + 2 ^ 20 - 1) div 2 ^ 20 * 2 ^ 20 \<le> ?n + 2 ^ 20 - 1" by (rule div_times_less_eq_dividend)
  then have m: "unat ?q * unat MB < 2 ^ 64" unfolding q unat_MB using True by linarith
  then have d: "unat (?q * MB) = (?n + 2 ^ 20 - 1) div 2 ^ 20 * 2 ^ 20" by (simp add: unat_mul_checked q unat_MB)
  have f: "unat MB + unat (?q * MB) = partition_bytes ?n" unfolding d unat_MB partition_bytes_def ..
  have "partition_size_of a b = checked_add MB (?q * MB)"
    using True m le by (simp add: partition_size_of_def checked_add_def checked_sub_def checked_mul_def ab unat_MB)
  also have "\<dots> = (if partition_bytes ?n < 2 ^ 64 then Inr (MB + ?q * MB) else Inl Overflow)"
    unfolding checked_add_def f by simp
  finally show ?thesis unfolding f[symmetric] by simp
next
  case False
  with partition_bytes_bounds(2)[of "unat a + unat b"] have "\<not> partition_bytes (unat a + unat b) < 2 ^ 64" by linarith
  moreover have "partition_size_of a b = Inl Overflow"
    using False by (cases "unat a + unat b < 2 ^ 64") (simp_all add: partition_size_of_def checked_add_def unat_MB unat_add_checked)
  ultimately show ?thesis by simp
qed

text \<open>A world in which nothing fails.\<close>

definition cooperative :: "world \<Rightarrow> bool" where
  "cooperative w \<longleftrightarrow> (\<forall>h r. w_unit w h r \<and> w_status w h r = Some True \<and> w_number w h r \<noteq> None)"

lemma cooperative_runs:
  assumes "cooperative w"
  shows "ask r w h = (Return (), h @ [(r, Done)])" "ask_status r w h = (Return True, h @ [(r, Status True)])"
    "ask_number r w h = (Return (the (w_number w h r)), h @ [(r, Number (the (w_number w h r)))])"
    "ask_all rs w h = (Return (), h @ map (\<lambda>r. (r, Done)) rs)"
proof -
  show a: "ask r w h = (Return (), h @ [(r, Done)])" for r h using assms by (simp add: cooperative_def ask_def)
  show "ask_status r w h = (Return True, h @ [(r, Status True)])" using assms by (simp add: cooperative_def ask_status_def)
  show "ask_number r w h = (Return (the (w_number w h r)), h @ [(r, Number (the (w_number w h r)))])"
    using assms by (auto simp: cooperative_def ask_number_def split: option.split)
  show "ask_all rs w h = (Return (), h @ map (\<lambda>r. (r, Done)) rs)"
    by (induction rs arbitrary: h) (simp_all add: seq_def a)
qed

lemma compile_cooperative:
  assumes "cooperative w"
  shows "\<exists>t. compile cargo dir arch rel w h = (Return (), h @ t)"
  using cooperative_runs[OF assms] by (simp add: compile_def seq_def)

lemma package_returns:
  assumes "cooperative w"
    and "\<And>h. w_number w h (MetadataLen (bootloader_path dir arch rel)) = Some bs"
    and "\<And>h. w_number w h (MetadataLen (kernel_path dir arch rel)) = Some ks"
    and "partition_size_of bs ks = Inr sz" "checked_add MB sz = Inr isz"
  defines "part \<equiv> image_dir dir arch rel @ ''/partition.img''" and "img \<equiv> image_dir dir arch rel @ ''/image.img''"
  shows "\<exists>part_id offset t. package dir arch rel w h = (Return (), h @ t) \<and>
    subseq [(SetLen part sz, Done),
      (CopyToFat (bootloader_path dir arch rel) part ''EFI/BOOT/BOOTX64.EFI'', Done),
      (CopyToFat (kernel_path dir arch rel) part ''EFI/BOOT/kernel.sys'', Done),
      (SetLen img isz, Done), (GptAddPartition img ''boot'' sz, Number part_id), (GptBytesStart img part_id, Number offset),
      (GptWrite img, Done), (SeekStart img offset, Done), (CopyToFile part img, Done)] t"
proof -
  note run = cooperative_runs[OF assms(1)]
  show ?thesis
    unfolding package_def Let_def write_partition_def write_image_def part_def[symmetric] img_def[symmetric]
    by (simp add: seq_def run assms(2-5))
qed

lemma package_overflows:
  assumes "cooperative w"
    and "\<And>h. w_number w h (MetadataLen (bootloader_path dir arch rel)) = Some bs"
    and "\<And>h. w_number w h (MetadataLen (kernel_path dir arch rel)) = Some ks"
    and "and_then (partition_size_of bs ks) (checked_add MB) = Inl e"
  shows "fst (package dir arch rel w h) = Panic e"
  using assms(4) unfolding package_def Let_def write_partition_def
  by (cases "partition_size_of bs ks") (simp_all add: seq_def cooperative_runs[OF assms(1)] assms(2,3))

lemma image_size_eq:
  "and_then (partition_size_of bs ks) (checked_add MB) =
     (if unat bs + unat ks + 3 * 2 ^ 20 \<le> 2 ^ 64 then Inr (of_nat (partition_bytes (unat bs + unat ks)) + 2 ^ 20) else Inl Overflow)"
proof -
  let ?n = "unat bs + unat ks"
  obtain k where k: "partition_bytes ?n = 2 ^ 20 * k" using partition_bytes_bounds(1)[of ?n] by (rule dvdE)
  have iff: "?n + 3 * 2 ^ 20 \<le> 2 ^ 64 \<longleftrightarrow> partition_bytes ?n + 2 ^ 20 < 2 ^ 64"
  proof -
    have "(2::nat) ^ 64 = 2 ^ 20 * 2 ^ 44" by simp
    then have "2 ^ 20 * k + 2 ^ 20 < 2 ^ 64 \<longleftrightarrow> k + 1 < 2 ^ 44" "2 ^ 20 * k + 2 * 2 ^ 20 \<le> 2 ^ 64 \<longleftrightarrow> k + 2 \<le> 2 ^ 44" by simp_all
    then show ?thesis using partition_bytes_bounds(2,3)[of ?n] unfolding k by linarith
  qed
  show ?thesis
  proof (cases "partition_bytes ?n < 2 ^ 64")
    case True
    then have u: "unat (of_nat (partition_bytes ?n) :: u64) = partition_bytes ?n" by (intro unat_of_nat_small) simp
    have "checked_add MB (of_nat (partition_bytes ?n)) =
        (if partition_bytes ?n + 2 ^ 20 < 2 ^ 64 then Inr (of_nat (partition_bytes ?n) + MB) else Inl Overflow)"
      unfolding checked_add_def u unat_MB add.commute[of "2 ^ 20"] add.commute[of MB] by simp
    moreover have "MB = 2 ^ 20" by (simp add: MB_def)
    ultimately show ?thesis unfolding iff partition_size_of_eq if_P[OF True] by simp
  next
    case False
    then have "\<not> partition_bytes ?n + 2 ^ 20 < 2 ^ 64" by linarith
    with False show ?thesis unfolding iff partition_size_of_eq by simp
  qed
qed

text \<open>
  C32: The layout of the image. In a world where nothing fails, with files of \<open>bs\<close> and \<open>ks\<close> bytes, the
  build returns exactly when image and sizes fit into 64 bits, and panics on the overflow otherwise. The
  partition has a size of whole mebibytes with at least one mebibyte besides the files, and less
  than two; the bootloader is copied to the path where the firmware looks for it, the kernel to the
  path from which the bootloader reads it; the image is one mebibyte larger than the partition, which is
  copied to the offset that the partition table gives it, in this order.
\<close>

theorem build_layout:
  assumes "cooperative w"
    and "\<And>h. w_number w h (MetadataLen (bootloader_path dir arch rel)) = Some bs"
    and "\<And>h. w_number w h (MetadataLen (kernel_path dir arch rel)) = Some ks"
  defines "part \<equiv> image_dir dir arch rel @ ''/partition.img''" and "img \<equiv> image_dir dir arch rel @ ''/image.img''"
  shows "(if unat bs + unat ks + 3 * 2 ^ 20 \<le> 2 ^ 64 then
      \<exists>size part_id offset h. build cargo dir arch rel w [] = (Return (), h) \<and>
        2 ^ 20 dvd unat size \<and> unat bs + unat ks + 2 ^ 20 \<le> unat size \<and> unat size < unat bs + unat ks + 2 * 2 ^ 20 \<and>
        subseq [(SetLen part size, Done),
                (CopyToFat (bootloader_path dir arch rel) part ''EFI/BOOT/BOOTX64.EFI'', Done),
                (CopyToFat (kernel_path dir arch rel) part (map (\<lambda>c. if c = CHR 0x5C then CHR ''/'' else c) KERNEL_PATH), Done),
                (SetLen img (size + 2 ^ 20), Done),
                (GptAddPartition img ''boot'' size, Number part_id),
                (GptBytesStart img part_id, Number offset),
                (GptWrite img, Done), (SeekStart img offset, Done), (CopyToFile part img, Done)] h
    else fst (build cargo dir arch rel w []) = Panic Overflow)"
proof -
  let ?n = "unat bs + unat ks"
  let ?size = "of_nat (partition_bytes ?n) :: u64"
  obtain t where t: "compile cargo dir arch rel w [] = (Return (), t)"
    using compile_cooperative[OF assms(1), of cargo dir arch rel "[]"] by auto
  have path: "map (\<lambda>c. if c = CHR 0x5C then CHR ''/'' else c) KERNEL_PATH = ''EFI/BOOT/kernel.sys''" by (simp add: KERNEL_PATH_def)
  show ?thesis
  proof (cases "?n + 3 * 2 ^ 20 \<le> 2 ^ 64")
    case True
    then have lt: "partition_bytes ?n < 2 ^ 64" using partition_bytes_bounds(3)[of ?n] by linarith
    then have sz: "unat ?size = partition_bytes ?n" by (intro unat_of_nat_small) simp
    have s: "partition_size_of bs ks = Inr ?size" using lt by (simp add: partition_size_of_eq)
    then have "checked_add MB ?size = Inr (?size + 2 ^ 20)" using image_size_eq[of bs ks] True by simp
    from package_returns[OF assms(1-3) s this, of t] obtain part_id offset u where
      u: "package dir arch rel w t = (Return (), t @ u)"
        "subseq [(SetLen part ?size, Done), (CopyToFat (bootloader_path dir arch rel) part ''EFI/BOOT/BOOTX64.EFI'', Done),
          (CopyToFat (kernel_path dir arch rel) part ''EFI/BOOT/kernel.sys'', Done), (SetLen img (?size + 2 ^ 20), Done),
          (GptAddPartition img ''boot'' ?size, Number part_id), (GptBytesStart img part_id, Number offset),
          (GptWrite img, Done), (SeekStart img offset, Done), (CopyToFile part img, Done)] u"
      unfolding part_def img_def by blast
    have "build cargo dir arch rel w [] = (Return (), t @ u)" using u(1) by (simp add: build_def seq_Return[where x = "()" and s = "compile cargo dir arch rel", OF t])
    moreover have "2 ^ 20 dvd unat ?size" "?n + 2 ^ 20 \<le> unat ?size" "unat ?size < ?n + 2 * 2 ^ 20"
      unfolding sz by (rule partition_bytes_bounds)+
    moreover note list_emb_append2[OF u(2), of t]
    ultimately show ?thesis unfolding if_P[OF True] path by (intro exI[of _ ?size] exI[of _ part_id] exI[of _ offset] exI[of _ "t @ u"] conjI)
  next
    case False
    then have "and_then (partition_size_of bs ks) (checked_add MB) = Inl Overflow" by (simp add: image_size_eq)
    from package_overflows[OF assms(1-3) this, of t] False show ?thesis
      by (simp add: build_def seq_Return[where x = "()" and s = "compile cargo dir arch rel", OF t])
  qed
qed

definition demo_world :: world where
  "demo_world = \<lparr>w_unit = (\<lambda>h r. True), w_status = (\<lambda>h r. Some True), w_number = (\<lambda>h r. Some 5)\<rparr>"

theorem image_needs_successful_builds_witness:
  "(kernel_command ''cargo'' ''builder'' ''riscv'' True, Status True) \<in>
     set (take 6 (snd (builder_main ''cargo'' ''builder'' [''osbuild'', ''--release'', ''--target=riscv''] demo_world [])))"
proof -
  let ?run = "builder_main ''cargo'' ''builder'' [''osbuild'', ''--release'', ''--target=riscv''] demo_world []"
  have len: "6 < length (snd ?run)" and wr: "writes (fst (snd ?run ! 6))" by code_simp+
  have "?run = (fst ?run, take 6 (snd ?run) @ (fst (snd ?run ! 6), snd (snd ?run ! 6)) # drop (Suc 6) (snd ?run))"
    using id_take_nth_drop[OF len] by (metis prod.collapse)
  from image_needs_successful_builds[OF this wr] show ?thesis
    by (simp add: requested_arch_def targets_def map_filter_simps strip_prefix_def)
qed

theorem build_layout_witness:
  "\<exists>sz h. build ''cargo'' ''builder'' ''x86_64'' False demo_world [] = (Return (), h) \<and>
     unat (5 :: u64) + unat (5 :: u64) + 2 ^ 20 \<le> unat sz \<and>
     (SetLen (image_dir ''builder'' ''x86_64'' False @ ''/partition.img'') sz, Done) \<in> set h"
proof -
  have coop: "cooperative demo_world" and n: "\<And>h r. w_number demo_world h r = Some 5"
    by (simp_all add: cooperative_def demo_world_def)
  have fit: "unat (5 :: u64) + unat (5 :: u64) + 3 * 2 ^ 20 \<le> 2 ^ 64" by simp
  have in_set: "subseq (x # xs) ys \<Longrightarrow> x \<in> set ys" for x :: "request \<times> answer" and xs ys
    using list_emb_set by fastforce
  show ?thesis
    using build_layout[OF coop n n, where dir = "''builder''" and arch = "''x86_64''" and rel = False and cargo = "''cargo''", unfolded if_P[OF fit]]
    by - (elim exE conjE, drule in_set, intro exI conjI, (assumption)+)
qed

end
