(* ===== verification/Free_List.thy ===== *)
theory Free_List
  imports Prelude
begin

text \<open>
  The intrusive doubly linked lists of \<^verbatim>\<open>kernel/src/memory/phys_manager.rs\<close>: \<open>FreeEntry\<close> and the three
  list functions \<open>remove_buddy_list_entry\<close>, \<open>push_buddy_list_entry\<close>, \<open>pop_buddy_list_entry\<close>.

  The heap gives the \<open>FreeEntry\<close> stored at an address; 0 is the null pointer. The functions take
  the heap and the head pointer they modify and return both. \<open>dll\<close> relates a heap and a head
  to the sequence of addresses in the list. The locale \<open>intrusive_list\<close> is the contract that
  the buddy allocator uses: on that sequence, \<open>push\<close> conses, \<open>pop\<close> takes the head off and \<open>remove\<close>
  removes an element, and nothing outside the list changes but the links.
\<close>

record free_entry =
  fe_order :: u64
  fe_next :: u64
  fe_prev :: u64

type_synonym heap = "u64 \<Rightarrow> free_entry"

definition remove_buddy_list_entry :: "heap \<Rightarrow> u64 \<Rightarrow> u64 \<Rightarrow> heap \<times> u64" where
  "remove_buddy_list_entry h head entry =
     (let (h1, head1) =
            (if fe_prev (h entry) = 0 then (h, fe_next (h entry))
             else (let p = fe_prev (h entry) in (h(p := (h p)\<lparr>fe_next := fe_next (h entry)\<rparr>), head)))
      in if fe_next (h1 entry) \<noteq> 0
         then (let n = fe_next (h1 entry) in (h1(n := (h1 n)\<lparr>fe_prev := fe_prev (h1 entry)\<rparr>), head1))
         else (h1, head1))"

definition push_buddy_list_entry :: "heap \<Rightarrow> u64 \<Rightarrow> u64 \<Rightarrow> heap \<times> u64" where
  "push_buddy_list_entry h head entry =
     (if head \<noteq> 0
      then (let h1 = h(entry := (h entry)\<lparr>fe_next := head\<rparr>)
            in (h1(head := (h1 head)\<lparr>fe_prev := entry\<rparr>), entry))
      else (h, entry))"

definition pop_buddy_list_entry :: "heap \<Rightarrow> u64 \<Rightarrow> heap \<times> u64 \<times> u64" where
  "pop_buddy_list_entry h head =
     (if head = 0 then (h, head, 0)
      else (let head1 = fe_next (h head)
            in (if head1 \<noteq> 0 then (h(head1 := (h head1)\<lparr>fe_prev := 0\<rparr>), head1, head)
                else (h, head1, head))))"

section \<open>Lists in the heap\<close>

text \<open>
  \<open>dseg h p a xs b\<close>: from pointer \<open>a\<close>, whose predecessor is \<open>p\<close>, the nodes are exactly \<open>xs\<close> and the
  last link goes to \<open>b\<close>.
\<close>

fun dseg :: "heap \<Rightarrow> u64 \<Rightarrow> u64 \<Rightarrow> u64 list \<Rightarrow> u64 \<Rightarrow> bool" where
  "dseg h p a [] b \<longleftrightarrow> a = b"
| "dseg h p a (x # xs) b \<longleftrightarrow> a = x \<and> x \<noteq> 0 \<and> fe_prev (h x) = p \<and> dseg h x (fe_next (h x)) xs b"

definition free_list :: "heap \<Rightarrow> u64 \<Rightarrow> u64 list \<Rightarrow> bool" where
  "free_list h a xs \<longleftrightarrow> dseg h 0 a xs 0 \<and> distinct xs"

lemma dseg_cong:
  assumes "\<And>x. x \<in> set xs \<Longrightarrow> fe_next (h' x) = fe_next (h x) \<and> fe_prev (h' x) = fe_prev (h x)"
  shows "dseg h' p a xs b = dseg h p a xs b"
  using assms by (induction xs arbitrary: p a) auto

lemma dseg_upd [simp]: "y \<notin> set xs \<Longrightarrow> dseg (h(y := e)) p a xs b = dseg h p a xs b"
  by (rule dseg_cong) auto

lemma dseg_append:
  "dseg h p a (xs @ ys) b \<longleftrightarrow>
     (\<exists>c. dseg h p a xs c \<and> dseg h (if xs = [] then p else last xs) c ys b)"
  by (induction xs arbitrary: p a) auto

lemma dseg_nonnull: "dseg h p a xs b \<Longrightarrow> x \<in> set xs \<Longrightarrow> x \<noteq> 0"
  by (induction xs arbitrary: p a) auto

lemma dseg_head: "dseg h p a (x # xs) b \<Longrightarrow> a = x"
  by simp

lemma dseg_null [simp]: "dseg h p 0 xs 0 \<longleftrightarrow> xs = []"
  by (cases xs) auto

text \<open>Redirecting the last link and the first back link of a segment.\<close>

lemma dseg_set_last:
  "dseg h p a (xs @ [l]) b \<Longrightarrow> l \<notin> set xs \<Longrightarrow> dseg (h(l := (h l)\<lparr>fe_next := c\<rparr>)) p a (xs @ [l]) c"
  by (auto simp: dseg_append)

lemma dseg_set_first:
  "dseg h p a (x # xs) b \<Longrightarrow> x \<notin> set xs \<Longrightarrow> dseg (h(x := (h x)\<lparr>fe_prev := q\<rparr>)) q a (x # xs) b"
  by auto

text \<open>What the list functions leave alone: the orders, and every entry that is not in the list.\<close>

definition links_only :: "u64 set \<Rightarrow> heap \<Rightarrow> heap \<Rightarrow> bool" where
  "links_only S h h' \<longleftrightarrow> (\<forall>x. fe_order (h' x) = fe_order (h x)) \<and> (\<forall>x. x \<notin> S \<longrightarrow> h' x = h x)"

lemma links_only_refl [simp]: "links_only S h h"
  by (simp add: links_only_def)

section \<open>The contract of the list functions\<close>

locale intrusive_list =
  fixes rel :: "heap \<Rightarrow> u64 \<Rightarrow> u64 list \<Rightarrow> bool"
    and remove :: "heap \<Rightarrow> u64 \<Rightarrow> u64 \<Rightarrow> heap \<times> u64"
    and push :: "heap \<Rightarrow> u64 \<Rightarrow> u64 \<Rightarrow> heap \<times> u64"
    and pop :: "heap \<Rightarrow> u64 \<Rightarrow> heap \<times> u64 \<times> u64"
  assumes rel_empty: "rel h 0 []"
    and rel_distinct: "rel h a xs \<Longrightarrow> distinct xs"
    and rel_null: "rel h a xs \<Longrightarrow> a = 0 \<longleftrightarrow> xs = []"
    and rel_frame: "rel h a xs \<Longrightarrow> (\<And>x. x \<in> set xs \<Longrightarrow> h' x = h x) \<Longrightarrow> rel h' a xs"
    and push_rel: "rel h a xs \<Longrightarrow> e \<notin> set xs \<Longrightarrow> e \<noteq> 0 \<Longrightarrow> fe_next (h e) = 0 \<Longrightarrow> fe_prev (h e) = 0
      \<Longrightarrow> \<exists>h' a'. push h a e = (h', a') \<and> rel h' a' (e # xs) \<and> links_only (set (e # xs)) h h'"
    and pop_empty: "rel h a [] \<Longrightarrow> pop h a = (h, a, 0)"
    and pop_rel: "rel h a (x # xs)
      \<Longrightarrow> \<exists>h' a'. pop h a = (h', a', x) \<and> x \<noteq> 0 \<and> rel h' a' xs \<and> links_only (set (x # xs)) h h'"
    and remove_rel: "rel h a xs \<Longrightarrow> e \<in> set xs
      \<Longrightarrow> \<exists>h' a'. remove h a e = (h', a') \<and> rel h' a' (remove1 e xs) \<and> links_only (set xs) h h'"
begin

text \<open>A list stays as it is while another list, disjoint from it, is changed.\<close>

lemma rel_other: "rel h a xs \<Longrightarrow> links_only S h h' \<Longrightarrow> set xs \<inter> S = {} \<Longrightarrow> rel h' a xs"
  by (erule rel_frame) (auto simp: links_only_def)

text \<open>Removing what was pushed restores the sequence, as does popping it.\<close>

lemma push_pop:
  assumes "rel h a xs" "e \<notin> set xs" "e \<noteq> 0" "fe_next (h e) = 0" "fe_prev (h e) = 0"
  shows "\<exists>h' a' h'' a''. push h a e = (h', a') \<and> pop h' a' = (h'', a'', e) \<and> rel h'' a'' xs"
  using push_rel[OF assms] pop_rel by metis

end

lemma push_free_list:
  assumes "free_list h a xs" "e \<notin> set xs" "e \<noteq> 0" "fe_next (h e) = 0" "fe_prev (h e) = 0"
  shows "\<exists>h' a'. push_buddy_list_entry h a e = (h', a') \<and> free_list h' a' (e # xs) \<and>
           links_only (set (e # xs)) h h'"
proof (cases xs)
  case Nil
  with assms show ?thesis by (simp add: push_buddy_list_entry_def free_list_def)
next
  case (Cons x ys)
  with assms have ax: "a = x" "x \<noteq> 0" "x \<noteq> e" by (auto simp: free_list_def)
  let ?h = "h(e := (h e)\<lparr>fe_next := x\<rparr>)"
  have "dseg ?h 0 x xs 0" using assms(1,2) ax by (simp add: free_list_def)
  then have "dseg (?h(x := (?h x)\<lparr>fe_prev := e\<rparr>)) e x (x # ys) 0"
    using assms(1) Cons by (intro dseg_set_first) (auto simp: free_list_def)
  then show ?thesis
    using assms ax Cons by (auto simp: push_buddy_list_entry_def free_list_def links_only_def)
qed

lemma pop_free_list:
  assumes "free_list h a (x # xs)"
  shows "\<exists>h' a'. pop_buddy_list_entry h a = (h', a', x) \<and> x \<noteq> 0 \<and> free_list h' a' xs \<and>
           links_only (set (x # xs)) h h'"
proof (cases xs)
  case Nil
  with assms show ?thesis by (auto simp: pop_buddy_list_entry_def free_list_def)
next
  case (Cons y ys)
  with assms have ax: "a = x" "x \<noteq> 0" "fe_next (h x) = y" "y \<noteq> 0" "x \<noteq> y" "dseg h x y (y # ys) 0"
    by (auto simp: free_list_def)
  then have "dseg (h(y := (h y)\<lparr>fe_prev := 0\<rparr>)) 0 y (y # ys) 0"
    using assms Cons by (intro dseg_set_first) (auto simp: free_list_def)
  then show ?thesis
    using assms ax Cons by (auto simp: pop_buddy_list_entry_def free_list_def links_only_def)
qed

lemma remove_free_list_mid:
  assumes "dseg h 0 a (us @ e # vs) 0" "distinct (us @ e # vs)"
  shows "\<exists>h' a'. remove_buddy_list_entry h a e = (h', a') \<and> dseg h' 0 a' (us @ vs) 0 \<and>
           links_only (set (us @ e # vs)) h h'"
proof -
  from assms(1) have pre: "dseg h 0 a us e" and e0: "e \<noteq> 0"
    and prev: "fe_prev (h e) = (if us = [] then 0 else last us)" and post: "dseg h e (fe_next (h e)) vs 0"
    by (auto simp: dseg_append)
  let ?n = "fe_next (h e)"
  define h1 where "h1 = (if us = [] then h else h(last us := (h (last us))\<lparr>fe_next := ?n\<rparr>))"
  define a1 where "a1 = (if us = [] then ?n else a)"
  define h2 where "h2 = (if vs = [] then h1 else h1(hd vs := (h1 (hd vs))\<lparr>fe_prev := fe_prev (h e)\<rparr>))"
  have lu: "us \<noteq> [] \<Longrightarrow> last us \<noteq> 0 \<and> last us \<noteq> e \<and> last us \<notin> set vs"
  proof -
    assume "us \<noteq> []"
    then have l: "last us \<in> set us" by simp
    with assms(2) have "last us \<noteq> e" "last us \<notin> set vs" by auto
    with l dseg_nonnull[OF pre] show ?thesis by blast
  qed
  have h1e: "h1 e = h e" using lu by (auto simp: h1_def)
  have n: "?n = (if vs = [] then 0 else hd vs)" "vs \<noteq> [] \<Longrightarrow> hd vs \<noteq> 0 \<and> hd vs \<notin> set us"
    using post assms(2) by (cases vs; auto)+
  have "remove_buddy_list_entry h a e = (h2, a1)"
    using lu prev n h1e by (auto simp: remove_buddy_list_entry_def h1_def h2_def a1_def Let_def)
  moreover have seg1: "dseg h1 0 a1 us ?n"
  proof (cases us rule: rev_cases)
    case (snoc ws l)
    then show ?thesis using pre assms(2) dseg_set_last[of h 0 a ws l e ?n] by (simp add: h1_def a1_def)
  qed (simp add: h1_def a1_def)
  moreover have "dseg h2 0 a1 us ?n" using seg1 n by (auto simp: h2_def)
  moreover have "dseg h2 (if us = [] then 0 else last us) ?n vs 0"
  proof (cases vs)
    case (Cons v ws)
    have "dseg h1 e ?n vs 0" using post lu by (auto simp: h1_def)
    with Cons prev assms(2) show ?thesis
      using dseg_set_first[of h1 e ?n v ws 0 "fe_prev (h e)"] by (simp add: h2_def)
  qed (use n in simp)
  moreover have "links_only (set (us @ e # vs)) h h2"
    by (auto simp: links_only_def h2_def h1_def)
  ultimately show ?thesis by (auto simp: dseg_append)
qed

lemma remove_free_list:
  assumes "free_list h a xs" "e \<in> set xs"
  shows "\<exists>h' a'. remove_buddy_list_entry h a e = (h', a') \<and> free_list h' a' (remove1 e xs) \<and>
           links_only (set xs) h h'"
proof -
  from assms(2) obtain us vs where xs: "xs = us @ e # vs" "e \<notin> set us"
    by (metis split_list_first)
  with assms(1) have "remove1 e xs = us @ vs" "dseg h 0 a (us @ e # vs) 0" "distinct (us @ e # vs)"
    by (simp_all add: free_list_def remove1_append)
  with remove_free_list_mid[of h a us e vs] xs(1) show ?thesis by (auto simp: free_list_def)
qed

interpretation fl: intrusive_list free_list remove_buddy_list_entry push_buddy_list_entry pop_buddy_list_entry
proof unfold_locales
  fix h h' :: heap and a :: u64 and xs
  show "free_list h 0 []" by (simp add: free_list_def)
  show "free_list h a xs \<Longrightarrow> distinct xs" by (simp add: free_list_def)
  show "free_list h a xs \<Longrightarrow> a = 0 \<longleftrightarrow> xs = []" by (cases xs) (auto simp: free_list_def)
  show "free_list h a xs \<Longrightarrow> (\<And>x. x \<in> set xs \<Longrightarrow> h' x = h x) \<Longrightarrow> free_list h' a xs"
    using dseg_cong[of xs h' h 0 a 0] by (simp add: free_list_def)
  show "free_list h a [] \<Longrightarrow> pop_buddy_list_entry h a = (h, a, 0)"
    by (simp add: free_list_def pop_buddy_list_entry_def)
qed (fact push_free_list pop_free_list remove_free_list)+

end
