(* ===== verification/Buddy_Spec.thy ===== *)
theory Buddy_Spec
  imports Main
begin

text \<open>
  Abstract specification of the buddy system behind \<^verbatim>\<open>kernel/src/memory/phys_manager.rs\<close>.

  A free block is a pair \<open>(i, o)\<close>: the pages \<open>i, \<dots>, i + 2^o - 1\<close>. The state is the set of the
  free blocks. \<open>spec_free\<close> and \<open>spec_alloc\<close> say what freeing and allocating mean for such a set;
  \<open>blocks_wf\<close> (aligned, in range, disjoint) and \<open>merged\<close> (no two free buddies side by side) are
  its invariants. The pointer-level code is shown to refine this in \<^verbatim>\<open>Phys_Refinement\<close>.

  The two facts that make the representation good are proved here once: every aligned run of
  free pages lies inside one free block (\<open>merged_complete\<close>), so an allocation fails only when
  there is no such run; and the set of free pages determines the set of blocks
  (\<open>merged_canonical\<close>), so freeing what was allocated restores the same blocks.
\<close>

definition MAX_ORDER :: nat where
  "MAX_ORDER = 8"

type_synonym block = "nat \<times> nat"

section \<open>Geometry of blocks\<close>

definition block_pages :: "nat \<Rightarrow> nat \<Rightarrow> nat set" where
  "block_pages i k = {i..<i + 2 ^ k}"

definition buddy_of :: "nat \<Rightarrow> nat \<Rightarrow> nat" where
  "buddy_of i k = (if odd (i div 2 ^ k) then i - 2 ^ k else i + 2 ^ k)"

definition parent_of :: "nat \<Rightarrow> nat \<Rightarrow> nat" where
  "parent_of i k = (if odd (i div 2 ^ k) then i - 2 ^ k else i)"

definition free_pages_of :: "block set \<Rightarrow> nat set" where
  "free_pages_of B = (\<Union>(i, k)\<in>B. block_pages i k)"

lemma free_pages_of_simps [simp]:
  "free_pages_of {} = {}"
  "free_pages_of (insert (i, k) B) = block_pages i k \<union> free_pages_of B"
  "free_pages_of (A \<union> B) = free_pages_of A \<union> free_pages_of B"
  by (auto simp: free_pages_of_def)

lemma mem_free_pages_of: "x \<in> free_pages_of B \<longleftrightarrow> (\<exists>i k. (i, k) \<in> B \<and> x \<in> block_pages i k)"
  by (auto simp: free_pages_of_def)

lemma block_pages_nonempty [simp]: "i \<in> block_pages i k"
  by (simp add: block_pages_def)

lemma dvd_step: "(a::nat) dvd x \<Longrightarrow> a dvd y \<Longrightarrow> x < y \<Longrightarrow> x + a \<le> y"
  by (metis add.commute add_le_cancel_right dvd_diff_nat dvd_imp_le le_add_diff_inverse2
      less_imp_le_nat zero_less_diff)

text \<open>Two aligned blocks that meet are nested, the smaller inside the larger.\<close>

lemma aligned_nested:
  assumes "2 ^ k dvd i" and "2 ^ l dvd j" and "k \<le> l"
    and meet: "block_pages i k \<inter> block_pages j l \<noteq> {}"
  shows "block_pages i k \<subseteq> block_pages j l"
proof -
  have kl: "(2::nat) ^ k dvd 2 ^ l" using assms(3) by (rule le_imp_power_dvd)
  then have dj: "2 ^ k dvd j" using assms(2) dvd_trans by blast
  with kl have djl: "2 ^ k dvd j + 2 ^ l" by simp
  obtain x where "x \<in> block_pages i k" "x \<in> block_pages j l" using meet by blast
  then have x: "i \<le> x" "x < i + 2 ^ k" "j \<le> x" "x < j + 2 ^ l" by (simp_all add: block_pages_def)
  have "\<not> i < j" using dvd_step[OF assms(1) dj] x by linarith
  moreover have "i + 2 ^ k \<le> j + 2 ^ l" using dvd_step[OF assms(1) djl] x by linarith
  ultimately show ?thesis by (auto simp: block_pages_def)
qed

lemma aligned_nested_eq:
  assumes "2 ^ k dvd i" and "2 ^ k dvd j" and "block_pages i k \<inter> block_pages j k \<noteq> {}"
  shows "i = j"
proof -
  have "block_pages i k \<subseteq> block_pages j k" "block_pages j k \<subseteq> block_pages i k"
    using assms aligned_nested[of k i k j] aligned_nested[of k j k i] by (auto simp: Int_commute)
  then show ?thesis using block_pages_nonempty by (fastforce simp: block_pages_def)
qed

lemma odd_div_ge: "odd (i div 2 ^ k) \<Longrightarrow> 2 ^ k \<le> (i::nat)"
  by (metis div_less even_zero linorder_not_le)

lemma aligned_split:
  fixes i :: nat
  assumes "2 ^ k dvd i"
  obtains q where "i = 2 ^ k * (2 * q)" "\<not> odd (i div 2 ^ k)"
    | q where "i = 2 ^ k * (2 * q + 1)" "odd (i div 2 ^ k)"
proof -
  from assms obtain m where m: "i = 2 ^ k * m" by (auto simp: dvd_def)
  then have d: "i div 2 ^ k = m" by simp
  show ?thesis
  proof (cases "odd m")
    case True
    then obtain q where "m = 2 * q + 1" by (rule oddE)
    with True m d that(2) show ?thesis by simp
  next
    case False
    then obtain q where "m = 2 * q" by (auto elim: evenE)
    with False m d that(1) show ?thesis by simp
  qed
qed

lemma buddy_aligned: "2 ^ k dvd i \<Longrightarrow> 2 ^ k dvd buddy_of i k"
  by (simp add: buddy_of_def)

lemma parent_aligned: "2 ^ k dvd i \<Longrightarrow> 2 ^ Suc k dvd parent_of i k"
  by (erule aligned_split) (auto simp: parent_of_def algebra_simps)

lemma buddy_ne [simp]: "buddy_of i k \<noteq> i"
proof -
  have "i - 2 ^ k \<noteq> i" if "2 ^ k \<le> i"
    using that zero_less_power[of "2::nat" k] by linarith
  with odd_div_ge[of i k] show ?thesis by (simp add: buddy_of_def)
qed

lemma buddy_buddy: "2 ^ k dvd i \<Longrightarrow> buddy_of (buddy_of i k) k = i"
proof (erule aligned_split)
  fix q assume i: "i = 2 ^ k * (2 * q)" and e: "\<not> odd (i div 2 ^ k)"
  have "(i + 2 ^ k) div 2 ^ k = 2 * q + 1" using i by (simp add: div_add1_eq)
  with e show ?thesis by (simp add: buddy_of_def)
next
  fix q assume i: "i = 2 ^ k * (2 * q + 1)" and e: "odd (i div 2 ^ k)"
  have "i - 2 ^ k = 2 ^ k * (2 * q)" using i by (simp add: algebra_simps)
  then have "(i - 2 ^ k) div 2 ^ k = 2 * q" by simp
  with e i show ?thesis by (simp add: buddy_of_def)
qed

text \<open>A block and its buddy are the two halves of the parent block.\<close>

lemma parent_halves:
  assumes "2 ^ k dvd i"
  shows "block_pages (parent_of i k) (Suc k) = block_pages i k \<union> block_pages (buddy_of i k) k"
    and "block_pages i k \<inter> block_pages (buddy_of i k) k = {}"
  using assms odd_div_ge[of i k]
  by (auto simp: parent_of_def buddy_of_def block_pages_def)

lemma buddy_of_parent:
  assumes "2 ^ Suc k dvd i"
  shows "buddy_of i k = i + 2 ^ k" and "parent_of i k = i" and "parent_of (i + 2 ^ k) k = i"
proof -
  have d: "2 ^ k dvd i" using assms by (metis dvd_trans le_imp_power_dvd lessI less_imp_le_nat)
  from assms obtain q where "i = 2 ^ k * (2 * q)" by (auto simp: dvd_def)
  then have ev: "\<not> odd (i div 2 ^ k)" by simp
  then show b: "buddy_of i k = i + 2 ^ k" and "parent_of i k = i"
    by (simp_all add: buddy_of_def parent_of_def)
  from buddy_buddy[OF d] ev b show "parent_of (i + 2 ^ k) k = i"
    by (auto simp: buddy_of_def parent_of_def split: if_splits)
qed

section \<open>Invariants of the set of free blocks\<close>

definition blocks_wf :: "nat \<Rightarrow> block set \<Rightarrow> bool" where
  "blocks_wf n B \<longleftrightarrow>
     (\<forall>(i, k)\<in>B. k \<le> MAX_ORDER \<and> 2 ^ k dvd i \<and> i + 2 ^ k \<le> n) \<and>
     (\<forall>(i, k)\<in>B. \<forall>(j, l)\<in>B. (i, k) \<noteq> (j, l) \<longrightarrow> block_pages i k \<inter> block_pages j l = {})"

definition merged :: "block set \<Rightarrow> bool" where
  "merged B \<longleftrightarrow> (\<forall>(i, k)\<in>B. k < MAX_ORDER \<longrightarrow> (buddy_of i k, k) \<notin> B)"

lemma blocks_wf_empty [simp]: "blocks_wf n {}" "merged {}"
  by (simp_all add: blocks_wf_def merged_def)

lemma blocks_wfD:
  assumes "blocks_wf n B" "(i, k) \<in> B"
  shows "k \<le> MAX_ORDER" "2 ^ k dvd i" "i + 2 ^ k \<le> n"
  using assms by (auto simp: blocks_wf_def)

lemma blocks_wf_disjoint:
  "blocks_wf n B \<Longrightarrow> (i, k) \<in> B \<Longrightarrow> (j, l) \<in> B \<Longrightarrow> x \<in> block_pages i k \<Longrightarrow> x \<in> block_pages j l
     \<Longrightarrow> (i, k) = (j, l)"
  unfolding blocks_wf_def by blast

lemma blocks_wf_same_index: "blocks_wf n B \<Longrightarrow> (i, k) \<in> B \<Longrightarrow> (i, l) \<in> B \<Longrightarrow> k = l"
  using blocks_wf_disjoint[of n B i k i l i] by simp

lemma blocks_wf_subset: "blocks_wf n B \<Longrightarrow> A \<subseteq> B \<Longrightarrow> blocks_wf n A"
  unfolding blocks_wf_def by blast

lemma merged_subset: "merged B \<Longrightarrow> A \<subseteq> B \<Longrightarrow> merged A"
  unfolding merged_def by blast

lemma blocks_wf_insert:
  assumes "blocks_wf n B" and "k \<le> MAX_ORDER" "2 ^ k dvd i" "i + 2 ^ k \<le> n"
    and "block_pages i k \<inter> free_pages_of B = {}"
  shows "blocks_wf n (insert (i, k) B)"
proof -
  have new: "block_pages i k \<inter> block_pages j l = {}" if "(j, l) \<in> B" for j l
    using assms(5) that by (auto simp: free_pages_of_def)
  then have sym: "block_pages j l \<inter> block_pages i k = {}" if "(j, l) \<in> B" for j l
    using that by blast
  from assms(1-4) new sym show ?thesis by (simp add: blocks_wf_def split_beta)
qed

lemma free_pages_of_remove:
  assumes "blocks_wf n B" "(i, k) \<in> B"
  shows "free_pages_of (B - {(i, k)}) = free_pages_of B - block_pages i k"
proof
  show "free_pages_of (B - {(i, k)}) \<subseteq> free_pages_of B - block_pages i k"
    using blocks_wf_disjoint[OF assms] by (fastforce simp: mem_free_pages_of)
  show "free_pages_of B - block_pages i k \<subseteq> free_pages_of (B - {(i, k)})"
    by (fastforce simp: mem_free_pages_of)
qed

lemma block_in_free_pages: "(i, k) \<in> B \<Longrightarrow> block_pages i k \<subseteq> free_pages_of B"
  by (auto simp: free_pages_of_def)

lemma free_pages_of_bound: "blocks_wf n B \<Longrightarrow> free_pages_of B \<subseteq> {..<n}"
  by (fastforce simp: mem_free_pages_of block_pages_def dest: blocks_wfD(3))

text \<open>Every aligned run of free pages lies inside one free block.\<close>

lemma merged_complete:
  assumes "blocks_wf n B" "merged B"
    and "k \<le> MAX_ORDER" "2 ^ k dvd i" "block_pages i k \<subseteq> free_pages_of B"
  shows "\<exists>j l. (j, l) \<in> B \<and> k \<le> l \<and> block_pages i k \<subseteq> block_pages j l"
  using assms(3-5)
proof (induction k arbitrary: i)
  case 0
  then have "i \<in> free_pages_of B" using block_pages_nonempty by blast
  then show ?case by (auto simp: mem_free_pages_of block_pages_def)
next
  case (Suc k)
  have d: "2 ^ k dvd i" using Suc.prems(2) by (metis dvd_trans le_imp_power_dvd lessI less_imp_le_nat)
  note b = buddy_of_parent[OF Suc.prems(2)]
  note halves = parent_halves[OF d, unfolded b(1,2)]
  obtain j l where jl: "(j, l) \<in> B" "k \<le> l" "block_pages i k \<subseteq> block_pages j l"
    using Suc.IH[of i] Suc.prems d halves(1) by auto
  obtain j' l' where jl': "(j', l') \<in> B" "k \<le> l'" "block_pages (i + 2 ^ k) k \<subseteq> block_pages j' l'"
    using Suc.IH[of "i + 2 ^ k"] Suc.prems d halves(1) by auto
  have big: ?case if "(m, q) \<in> B" "Suc k \<le> q" "block_pages i (Suc k) \<inter> block_pages m q \<noteq> {}" for m q
    using that aligned_nested[OF Suc.prems(2) blocks_wfD(2)[OF assms(1) that(1)]] by blast
  consider "Suc k \<le> l" | "Suc k \<le> l'" | "l = k" "l' = k" using jl(2) jl'(2) by linarith
  then show ?case
  proof cases
    case 1
    then show ?thesis using big[OF jl(1)] jl(3) halves(1) block_pages_nonempty by blast
  next
    case 2
    then show ?thesis using big[OF jl'(1)] jl'(3) halves(1) block_pages_nonempty by blast
  next
    case 3
    have aligned: "2 ^ k dvd j" "2 ^ k dvd j'" "2 ^ k dvd i + 2 ^ k"
      using 3 d blocks_wfD(2)[OF assms(1) jl(1)] blocks_wfD(2)[OF assms(1) jl'(1)] by simp_all
    have "block_pages i k \<inter> block_pages j k \<noteq> {}" "block_pages (i + 2 ^ k) k \<inter> block_pages j' k \<noteq> {}"
      using 3 jl(3) jl'(3) block_pages_nonempty by blast+
    then have "j = i" "j' = i + 2 ^ k"
      using aligned_nested_eq d aligned by blast+
    with 3 jl jl' b(1) assms(2) Suc.prems(1) have False by (fastforce simp: merged_def)
    then show ?thesis ..
  qed
qed

text \<open>The set of free pages determines the set of free blocks.\<close>

lemma merged_canonical_subset:
  assumes "blocks_wf n B" "merged B" "blocks_wf n' B'" "merged B'"
    and "free_pages_of B = free_pages_of B'"
  shows "B \<subseteq> B'"
proof
  fix b assume "b \<in> B"
  then obtain i k where b: "b = (i, k)" "(i, k) \<in> B" by (cases b) auto
  note ik = blocks_wfD[OF assms(1) b(2)]
  obtain j l where jl: "(j, l) \<in> B'" "k \<le> l" "block_pages i k \<subseteq> block_pages j l"
    using merged_complete[OF assms(3,4) ik(1,2)] block_in_free_pages[OF b(2)] assms(5) by auto
  obtain m q where mq: "(m, q) \<in> B" "l \<le> q" "block_pages j l \<subseteq> block_pages m q"
    using merged_complete[OF assms(1,2) blocks_wfD(1,2)[OF assms(3) jl(1)]]
      block_in_free_pages[OF jl(1)] assms(5) by auto
  have "(i, k) = (m, q)"
    using blocks_wf_disjoint[OF assms(1) b(2) mq(1), of i] jl(3) mq(3) block_pages_nonempty by blast
  with jl mq have "l = k" by auto
  moreover have "j = i"
    using aligned_nested_eq[of k j i] jl ik(2) blocks_wfD(2)[OF assms(3) jl(1)] \<open>l = k\<close>
      block_pages_nonempty by blast
  ultimately show "b \<in> B'" using b jl by simp
qed

lemma merged_canonical:
  assumes "blocks_wf n B" "merged B" "blocks_wf n' B'" "merged B'"
    and "free_pages_of B = free_pages_of B'"
  shows "B = B'"
  using merged_canonical_subset[OF assms] merged_canonical_subset[OF assms(3,4,1,2)] assms(5) by auto

section \<open>Freeing a block\<close>

function spec_free :: "block set \<Rightarrow> nat \<Rightarrow> nat \<Rightarrow> block set" where
  "spec_free B i k =
     (if k < MAX_ORDER \<and> (buddy_of i k, k) \<in> B
      then spec_free (B - {(buddy_of i k, k)}) (parent_of i k) (Suc k)
      else insert (i, k) B)"
  by pat_completeness auto
termination by (relation "measure (\<lambda>(B, i, k). MAX_ORDER - k)") auto

declare spec_free.simps [simp del]

text \<open>When the buddy is free, the parent block is the one to free next.\<close>

lemma parent_fits:
  assumes "blocks_wf n B" "(buddy_of i k, k) \<in> B" "k < MAX_ORDER" "2 ^ k dvd i" "i + 2 ^ k \<le> n"
    and "block_pages i k \<inter> free_pages_of B = {}"
  shows "Suc k \<le> MAX_ORDER" "2 ^ Suc k dvd parent_of i k" "parent_of i k + 2 ^ Suc k \<le> n"
    "block_pages (parent_of i k) (Suc k) \<inter> free_pages_of (B - {(buddy_of i k, k)}) = {}"
proof -
  show "Suc k \<le> MAX_ORDER" using assms(3) by simp
  show "2 ^ Suc k dvd parent_of i k" by (rule parent_aligned[OF assms(4)])
  have "buddy_of i k + 2 ^ k \<le> n" by (rule blocks_wfD(3)[OF assms(1,2)])
  then show "parent_of i k + 2 ^ Suc k \<le> n"
    using assms(5) odd_div_ge[of i k] by (auto simp: parent_of_def buddy_of_def split: if_splits)
  show "block_pages (parent_of i k) (Suc k) \<inter> free_pages_of (B - {(buddy_of i k, k)}) = {}"
    using parent_halves[OF assms(4)] free_pages_of_remove[OF assms(1,2)] assms(6) by auto
qed

lemma spec_free_correct:
  assumes "blocks_wf n B" "merged B" "k \<le> MAX_ORDER" "2 ^ k dvd i" "i + 2 ^ k \<le> n"
    and "block_pages i k \<inter> free_pages_of B = {}"
  shows "blocks_wf n (spec_free B i k) \<and> merged (spec_free B i k) \<and>
         free_pages_of (spec_free B i k) = free_pages_of B \<union> block_pages i k"
  using assms
proof (induction B i k rule: spec_free.induct)
  case (1 B i k)
  let ?b = "(buddy_of i k, k)"
  show ?case
  proof (cases "k < MAX_ORDER \<and> ?b \<in> B")
    case True
    let ?C = "B - {?b}"
    note halves = parent_halves[OF "1.prems"(4)]
    note rm = free_pages_of_remove[OF "1.prems"(1), of "buddy_of i k" k]
    have sub: "block_pages (buddy_of i k) k \<subseteq> free_pages_of B"
      using True by (blast dest: block_in_free_pages)
    note fits = parent_fits[OF "1.prems"(1) conjunct2[OF True] conjunct1[OF True] "1.prems"(4-6)]
    have "blocks_wf n ?C" "merged ?C"
      using blocks_wf_subset[OF "1.prems"(1)] merged_subset[OF "1.prems"(2)] by auto
    then have IH: "blocks_wf n (spec_free ?C (parent_of i k) (Suc k)) \<and>
        merged (spec_free ?C (parent_of i k) (Suc k)) \<and>
        free_pages_of (spec_free ?C (parent_of i k) (Suc k)) =
          free_pages_of ?C \<union> block_pages (parent_of i k) (Suc k)"
      using "1.IH"[OF True] fits by simp
    have "free_pages_of ?C \<union> block_pages (parent_of i k) (Suc k) = free_pages_of B \<union> block_pages i k"
      using halves(1) rm True sub by auto
    with IH True show ?thesis by (simp add: spec_free.simps[of B i k])
  next
    case False
    then have eq: "spec_free B i k = insert (i, k) B" by (auto simp: spec_free.simps[of B i k])
    have "merged (insert (i, k) B)"
      using "1.prems"(2) False buddy_buddy[OF "1.prems"(4)] blocks_wfD(2)[OF "1.prems"(1)]
      by (auto simp: merged_def buddy_buddy)
    then show ?thesis using "1.prems" blocks_wf_insert eq by auto
  qed
qed

text \<open>
  Where freeing looks: the first page of the buddy at every level it reaches. \<open>merge_in_map w\<close> says
  that all of these have a bit in a bitmap of \<open>w\<close> words of 64 bits.
\<close>

function merge_in_map :: "nat \<Rightarrow> block set \<Rightarrow> nat \<Rightarrow> nat \<Rightarrow> bool" where
  "merge_in_map w B i k \<longleftrightarrow>
     (k < MAX_ORDER \<longrightarrow>
        buddy_of i k div 64 < w \<and>
        ((buddy_of i k, k) \<in> B \<longrightarrow> merge_in_map w (B - {(buddy_of i k, k)}) (parent_of i k) (Suc k)))"
  by pat_completeness auto
termination by (relation "measure (\<lambda>(w, B, i, k). MAX_ORDER - k)") auto

declare merge_in_map.simps [simp del]

definition buddies_in_map :: "nat \<Rightarrow> block set \<Rightarrow> bool" where
  "buddies_in_map w B \<longleftrightarrow> (\<forall>(i, k)\<in>B. k < MAX_ORDER \<longrightarrow> buddy_of i k div 64 < w)"

text \<open>Small blocks next to an allocated buddy, and blocks whose whole 256-page superblock has bits.\<close>

lemma merge_in_map_stop:
  "buddy_of i k div 64 < w \<Longrightarrow> (buddy_of i k, k) \<notin> B \<Longrightarrow> merge_in_map w B i k"
  by (subst merge_in_map.simps) simp

lemma same_superblock:
  assumes "k < MAX_ORDER" "2 ^ k dvd i"
  shows "buddy_of i k div 256 = i div 256" "parent_of i k div 256 = i div 256"
proof -
  define c where "c = parent_of i k"
  have sub: "block_pages c (Suc k) \<subseteq> block_pages (256 * (c div 256)) 8"
  proof (rule aligned_nested)
    show "2 ^ Suc k dvd c" unfolding c_def by (rule parent_aligned[OF assms(2)])
    show "2 ^ 8 dvd 256 * (c div 256)" by simp
    show "Suc k \<le> 8" using assms(1) by (simp add: MAX_ORDER_def)
    have "c \<in> block_pages (256 * (c div 256)) 8"
      using dividend_less_div_times[of 256 c] by (simp add: block_pages_def algebra_simps)
    then show "block_pages c (Suc k) \<inter> block_pages (256 * (c div 256)) 8 \<noteq> {}"
      using block_pages_nonempty by blast
  qed
  have same: "x div 256 = c div 256" if "x \<in> block_pages c (Suc k)" for x
  proof -
    have "256 * (c div 256) \<le> x" "x < 256 * (c div 256) + 256"
      using that sub by (auto simp: block_pages_def)
    then show ?thesis by (intro div_nat_eqI) simp_all
  qed
  have ib: "i \<in> block_pages c (Suc k)" "buddy_of i k \<in> block_pages c (Suc k)"
    unfolding c_def parent_halves(1)[OF assms(2)] by simp_all
  from same[OF ib(1)] same[OF ib(2)]
  show "buddy_of i k div 256 = i div 256" "parent_of i k div 256 = i div 256"
    by (simp_all add: c_def)
qed

lemma merge_in_map_superblock:
  assumes "2 ^ k dvd i" "256 * (i div 256 + 1) \<le> 64 * w"
  shows "merge_in_map w B i k"
  using assms
proof (induction w B i k rule: merge_in_map.induct)
  case (1 w B i k)
  show ?case
  proof (cases "k < MAX_ORDER")
    case False
    then show ?thesis by (subst merge_in_map.simps) simp
  next
    case True
    note same = same_superblock[OF True "1.prems"(1)]
    have "b < 256 * (b div 256 + 1)" for b :: nat
      using dividend_less_div_times[of 256 b] by (simp add: algebra_simps)
    from this[of "buddy_of i k"] have "buddy_of i k < w * 64" using "1.prems"(2) same(1) by simp
    then have "buddy_of i k div 64 < w" by (rule less_mult_imp_div_less)
    moreover have "merge_in_map w (B - {(buddy_of i k, k)}) (parent_of i k) (Suc k)"
      if "(buddy_of i k, k) \<in> B"
      using "1.IH"[OF True that parent_aligned[OF "1.prems"(1)]] "1.prems"(2) same(2) by simp
    ultimately show ?thesis by (subst merge_in_map.simps) simp
  qed
qed

section \<open>Allocating a block\<close>

text \<open>
  Which block of the requested order is taken is left open; a larger block is split only when
  there is none, and the lower half is handed out.
\<close>

inductive spec_alloc :: "nat \<Rightarrow> block set \<Rightarrow> nat \<Rightarrow> block set \<Rightarrow> bool" where
  take: "(i, k) \<in> B \<Longrightarrow> spec_alloc k B i (B - {(i, k)})"
| split: "(\<forall>j. (j, k) \<notin> B) \<Longrightarrow> k < MAX_ORDER \<Longrightarrow> spec_alloc (Suc k) B i B'
     \<Longrightarrow> spec_alloc k B i (insert (buddy_of i k, k) B')"

lemma spec_alloc_larger: "spec_alloc k B i B' \<Longrightarrow> \<exists>j l. (j, l) \<in> B \<and> k \<le> l"
  by (induction rule: spec_alloc.induct) (auto intro: Suc_leD)

text \<open>An allocation creates blocks of its own order and above only, below the block it split.\<close>

lemma spec_alloc_small: "spec_alloc k B i B' \<Longrightarrow> l < k \<Longrightarrow> (j, l) \<in> B' \<longleftrightarrow> (j, l) \<in> B"
  by (induction rule: spec_alloc.induct) auto

lemma spec_alloc_correct:
  assumes "spec_alloc k B i B'" "blocks_wf n B" "merged B"
  shows "blocks_wf n B' \<and> merged B' \<and> 2 ^ k dvd i \<and> i + 2 ^ k \<le> n \<and>
         block_pages i k \<subseteq> free_pages_of B \<and> free_pages_of B' = free_pages_of B - block_pages i k"
  using assms
proof (induction rule: spec_alloc.induct)
  case (take i k B)
  then show ?case
    using blocks_wfD[OF take.prems(1) take.hyps] block_in_free_pages[OF take.hyps]
      free_pages_of_remove[OF take.prems(1) take.hyps] blocks_wf_subset[OF take.prems(1)]
      merged_subset[OF take.prems(2)] by auto
next
  case (split k B i B')
  note IH = split.IH[OF split.prems]
  have dS: "2 ^ Suc k dvd i" and iS: "i + 2 ^ Suc k \<le> n" using IH by auto
  then have d: "2 ^ k dvd i" by (metis dvd_trans le_imp_power_dvd lessI less_imp_le_nat)
  note b = buddy_of_parent[OF dS]
  note halves = parent_halves[OF d, unfolded b(1,2)]
  let ?j = "i + 2 ^ k"
  have disj: "block_pages ?j k \<inter> free_pages_of B' = {}" using IH halves(1) by auto
  have "2 ^ k dvd ?j" using d by simp
  then have wf: "blocks_wf n (insert (?j, k) B')"
    using blocks_wf_insert[of n B' k ?j] IH iS split.hyps(2) disj by (simp add: algebra_simps)
  have none: "(m, k) \<notin> B'" for m
    using spec_alloc_small[OF split.hyps(3), of k m] split.hyps(1) by simp
  then have "merged (insert (?j, k) B')" using IH by (auto simp: merged_def)
  moreover have "block_pages ?j k \<subseteq> free_pages_of B" using IH halves(1) by auto
  ultimately show ?case using wf IH halves d iS b(1) by auto
qed

text \<open>An allocation is possible exactly when an aligned run of free pages of that size exists.\<close>

lemma spec_alloc_possible:
  assumes "(j, l) \<in> B" "k \<le> l" "l \<le> MAX_ORDER"
  shows "\<exists>i B'. spec_alloc k B i B'"
  using assms(2)
proof (induction rule: inc_induct)
  case base
  show ?case using spec_alloc.take[OF assms(1)] by (intro exI)
next
  case (step k)
  then obtain i B' where "spec_alloc (Suc k) B i B'" by blast
  moreover have "k < MAX_ORDER" using step.hyps assms(3) by simp
  ultimately have "spec_alloc k B i (insert (buddy_of i k, k) B')" if "\<forall>j. (j, k) \<notin> B"
    using that by (intro spec_alloc.split)
  moreover have "spec_alloc k B j (B - {(j, k)})" if "(j, k) \<in> B" for j
    using that by (rule spec_alloc.take)
  ultimately show ?case by (cases "\<forall>j. (j, k) \<notin> B") (blast intro: exI)+
qed

lemma spec_alloc_iff_run:
  assumes "blocks_wf n B" "merged B" "k \<le> MAX_ORDER"
  shows "(\<exists>i B'. spec_alloc k B i B') \<longleftrightarrow> (\<exists>i. 2 ^ k dvd i \<and> block_pages i k \<subseteq> free_pages_of B)"
proof
  assume "\<exists>i B'. spec_alloc k B i B'"
  then obtain i B' where "spec_alloc k B i B'" by blast
  from spec_alloc_correct[OF this assms(1,2)]
  show "\<exists>i. 2 ^ k dvd i \<and> block_pages i k \<subseteq> free_pages_of B" by auto
next
  assume "\<exists>i. 2 ^ k dvd i \<and> block_pages i k \<subseteq> free_pages_of B"
  then obtain j l where "(j, l) \<in> B" "k \<le> l" using merged_complete[OF assms] by blast
  then show "\<exists>i B'. spec_alloc k B i B'"
    using spec_alloc_possible blocks_wfD(1)[OF assms(1)] by blast
qed

text \<open>Freeing an allocated block gives back the very same set of free blocks.\<close>

lemma spec_free_alloc:
  assumes "spec_alloc k B i B'" "blocks_wf n B" "merged B" "k \<le> MAX_ORDER"
  shows "spec_free B' i k = B"
proof -
  note a = spec_alloc_correct[OF assms(1-3)]
  then have "block_pages i k \<inter> free_pages_of B' = {}" by auto
  then have f: "blocks_wf n (spec_free B' i k) \<and> merged (spec_free B' i k) \<and>
      free_pages_of (spec_free B' i k) = free_pages_of B' \<union> block_pages i k"
    using spec_free_correct[of n B' k i] a assms(4) by auto
  with a have "free_pages_of (spec_free B' i k) = free_pages_of B" by auto
  with f assms(2,3) show ?thesis using merged_canonical by blast
qed

text \<open>Freeing an allocated block only looks at buddies that have a bit, if this held before.\<close>

lemma spec_alloc_buddies:
  assumes "spec_alloc k B i B'" "blocks_wf n B" "merged B" "n \<le> 64 * w" "buddies_in_map w B"
  shows "buddies_in_map w B' \<and> merge_in_map w B' i k"
  using assms
proof (induction rule: spec_alloc.induct)
  case (take i k B)
  have "merge_in_map w (B - {(i, k)}) i k"
  proof (cases "k < MAX_ORDER")
    case True
    then have "buddy_of i k div 64 < w" "(buddy_of i k, k) \<notin> B"
      using take by (auto simp: buddies_in_map_def merged_def)
    then show ?thesis by (intro merge_in_map_stop) simp_all
  qed (subst merge_in_map.simps, simp)
  with take show ?case by (auto simp: buddies_in_map_def)
next
  case (split k B i B')
  note c = spec_alloc_correct[OF split.hyps(3) split.prems(1,2)]
  note IH = split.IH[OF split.prems]
  have dS: "2 ^ Suc k dvd i" using c by simp
  note b = buddy_of_parent[OF dS]
  have "i + 2 ^ k < w * 64"
  proof -
    have "i + 2 * 2 ^ k \<le> w * 64" using c split.prems(3) by simp
    then show ?thesis using zero_less_power[of "2::nat" k] by linarith
  qed
  then have im: "i div 64 < w" "buddy_of i k div 64 < w" using b(1) by (auto intro: less_mult_imp_div_less)
  have d: "2 ^ k dvd i" using dS by (metis dvd_trans le_imp_power_dvd lessI less_imp_le_nat)
  have bb: "buddy_of (buddy_of i k) k = i" by (rule buddy_buddy[OF d])
  have notin: "(buddy_of i k, k) \<notin> B'"
    using spec_alloc_small[OF split.hyps(3), of k] split.hyps(1) by simp
  have "merge_in_map w (insert (buddy_of i k, k) B') i k"
    using IH im(2) b(2) notin by (subst merge_in_map.simps) simp
  moreover have "buddies_in_map w (insert (buddy_of i k, k) B')"
    using IH im(1) bb by (auto simp: buddies_in_map_def)
  ultimately show ?case by simp
qed

end
