(* ===== verification/Phys_Manager.thy ===== *)
theory Phys_Manager
  imports Logging Virt_Manager Free_List Buddy_Spec
begin

text \<open>
  The model of \<^verbatim>\<open>kernel/src/memory/phys_manager.rs\<close>: storage backends, the buddy operations on bitmap
  and free lists, and the public methods under the lock.

  A storage backend (trait \<open>PhysManagerStorage\<close>) is a record of its three functions; the bitmap that
  \<open>get_buddy_map\<close> returns is part of the state. The state of a manager is the array of list heads,
  the bitmap and the memory in which the \<open>FreeEntry\<close> structures live, each read at the address
  \<open>get_entry\<close> gives. \<open>u32\<close> orders are natural numbers: every order that occurs is at most 64, and the
  shifts by an order are checked. The messages of the initialization go to a logger; \<open>manager_new\<close> is the
  reference definition of the initialization without them.
\<close>

section \<open>State\<close>

record phys_state =
  free_lists :: "u64 list"
  buddy_map :: "u64 list"
  heap :: heap

record phys_manager =
  pm_lock :: spin_lock
  pm_state :: phys_state

record storage =
  storage_new :: "u64 \<Rightarrow> memory_segment list \<Rightarrow> (u64 list \<times> memory_segment list) res"
  get_entry :: "u64 \<Rightarrow> u64"
  get_index :: "u64 \<Rightarrow> u64"

section \<open>Storage backends\<close>

text \<open>
  \<open>InlineStorage::new\<close> takes the bitmap from the front of the first free segment that is large
  enough, zeroes it, and shrinks that segment. It returns the bitmap and the new memory map.
\<close>

fun take_storage :: "u64 \<Rightarrow> memory_segment list \<Rightarrow> memory_segment list res" where
  "take_storage n [] = Inl (Message ''No suitable memory location found for buddy map'')"
| "take_storage n (e # es) =
     (if seg_state e = Free \<and> n \<le> seg_page_count e then
        and_then (checked_mul n 4096) (\<lambda>bytes.
        and_then (checked_add (seg_start e) bytes) (\<lambda>start'.
        and_then (checked_sub (seg_page_count e) n) (\<lambda>count'.
          Inr (e\<lparr>seg_start := start', seg_page_count := count'\<rparr> # es))))
      else and_then (take_storage n es) (\<lambda>es'. Inr (e # es')))"

definition inline_new :: "u64 \<Rightarrow> memory_segment list \<Rightarrow> (u64 list \<times> memory_segment list) res" where
  "inline_new num_pages mmap =
     and_then (checked_add num_pages 63) (\<lambda>a.
     let num_entries = a div 64 in
     and_then (checked_mul num_entries 8) (\<lambda>b.
     and_then (checked_add b 4095) (\<lambda>c.
     let num_storage_pages = c div 4096 in
     and_then (take_storage num_storage_pages mmap) (\<lambda>mmap'.
       Inr (replicate (unat num_entries) 0, mmap')))))"

definition inline_storage :: "u64 \<Rightarrow> storage" where
  "inline_storage high_mem_base =
     \<lparr>storage_new = inline_new,
      get_entry = (\<lambda>index. phys_to_virt high_mem_base (push_bit 12 index)),
      get_index = (\<lambda>entry. drop_bit 12 (virt_to_phys high_mem_base entry))\<rparr>"

text \<open>The backend of the unit tests: the entries live in a buffer at address \<open>mem\<close>.\<close>

definition test_new :: "u64 \<Rightarrow> memory_segment list \<Rightarrow> (u64 list \<times> memory_segment list) res" where
  "test_new num_pages mmap =
     and_then (checked_add num_pages 63) (\<lambda>a.
     and_then (checked_mul num_pages 4096) (\<lambda>_.
       Inr (replicate (unat (a div 64)) 0, mmap)))"

definition test_storage :: "u64 \<Rightarrow> storage" where
  "test_storage mem =
     \<lparr>storage_new = test_new,
      get_entry = (\<lambda>index. mem + push_bit 12 index),
      get_index = (\<lambda>entry. drop_bit 12 (entry - mem))\<rparr>"

section \<open>Index arithmetic\<close>

definition get_buddy_index :: "u64 \<Rightarrow> nat \<Rightarrow> u64 res" where
  "get_buddy_index index order = and_then (checked_shl 1 order) (\<lambda>m. Inr (index XOR m))"

definition get_combined_index :: "u64 \<Rightarrow> nat \<Rightarrow> u64 res" where
  "get_combined_index index order = and_then (checked_shl 1 order) (\<lambda>m. Inr (index AND NOT m))"

definition get_size_order :: "u64 \<Rightarrow> nat res" where
  "get_size_order count =
     (if 63 < leading_zeros count then Inl Overflow
      else let order = 63 - leading_zeros count in
        and_then (checked_shl 1 order) (\<lambda>m.
          if count AND m \<noteq> count then Inr (order + 1) else Inr order))"

section \<open>Blocks\<close>

function free_block :: "storage \<Rightarrow> phys_state \<Rightarrow> u64 \<Rightarrow> nat \<Rightarrow> phys_state res" where
  "free_block st s index order =
     (let entry = unat (index div 64); bit = unat (index mod 64); entry_ptr = get_entry st index in
      and_then (get_buddy_index index order) (\<lambda>buddy_index.
      let buddy_entry = unat (buddy_index div 64); buddy_bit = unat (buddy_index mod 64);
          buddy_ptr = get_entry st buddy_index in
      and_then
        (if order < MAX_ORDER
         then and_then (slice_get (buddy_map s) buddy_entry) (\<lambda>w.
                Inr (w AND push_bit buddy_bit 1 \<noteq> 0 \<and> fe_order (heap s buddy_ptr) = of_nat order))
         else Inr False) (\<lambda>merge.
      if merge then
        and_then (slice_modify (buddy_map s) buddy_entry (\<lambda>w. w AND NOT (push_bit buddy_bit 1))) (\<lambda>bm.
        and_then (slice_get (free_lists s) order) (\<lambda>head.
        let (h, head') = remove_buddy_list_entry (heap s) head buddy_ptr in
        and_then (slice_set (free_lists s) order head') (\<lambda>fl.
        and_then (get_combined_index index order) (\<lambda>combined.
          free_block st (s\<lparr>buddy_map := bm, free_lists := fl, heap := h\<rparr>) combined (order + 1)))))
      else
        and_then (slice_modify (buddy_map s) entry (\<lambda>w. w OR push_bit bit 1)) (\<lambda>bm.
        let h = (heap s)(entry_ptr := \<lparr>fe_order = of_nat order, fe_next = 0, fe_prev = 0\<rparr>) in
        and_then (slice_get (free_lists s) order) (\<lambda>head.
        let (h', head') = push_buddy_list_entry h head entry_ptr in
        and_then (slice_set (free_lists s) order head') (\<lambda>fl.
          Inr (s\<lparr>buddy_map := bm, free_lists := fl, heap := h'\<rparr>)))))))"
  by pat_completeness auto
termination
  by (relation "measure (\<lambda>(st, s, index, order). MAX_ORDER - order)")
    (auto split: if_splits simp: sum_simps)

declare free_block.simps [simp del]

function alloc_block :: "storage \<Rightarrow> phys_state \<Rightarrow> nat \<Rightarrow> (u64 \<times> phys_state) res" where
  "alloc_block st s order =
     and_then (slice_get (free_lists s) order) (\<lambda>head.
     let (h, head', entry) = pop_buddy_list_entry (heap s) head in
     and_then (slice_set (free_lists s) order head') (\<lambda>fl.
     let s1 = s\<lparr>free_lists := fl, heap := h\<rparr> in
     if entry = 0 then
       if order = MAX_ORDER then Inl (Message ''Out of physical memory'')
       else
         and_then (alloc_block st s1 (order + 1)) (\<lambda>(higher_block, s2).
         and_then (get_buddy_index higher_block order) (\<lambda>buddy_index.
         let buddy_entry = unat (buddy_index div 64); buddy_bit = unat (buddy_index mod 64);
             buddy_ptr = get_entry st buddy_index in
         and_then (slice_modify (buddy_map s2) buddy_entry (\<lambda>w. w OR push_bit buddy_bit 1)) (\<lambda>bm.
         let h2 = (heap s2)(buddy_ptr := \<lparr>fe_order = of_nat order, fe_next = 0, fe_prev = 0\<rparr>) in
         and_then (slice_get (free_lists s2) order) (\<lambda>head2.
         let (h3, head3) = push_buddy_list_entry h2 head2 buddy_ptr in
         and_then (slice_set (free_lists s2) order head3) (\<lambda>fl3.
           Inr (higher_block, s2\<lparr>buddy_map := bm, free_lists := fl3, heap := h3\<rparr>))))))
     else
       let index = get_index st entry; entry' = unat (index div 64); bit = unat (index mod 64) in
       and_then (slice_modify (buddy_map s1) entry' (\<lambda>w. w AND NOT (push_bit bit 1))) (\<lambda>bm.
         Inr (index, s1\<lparr>buddy_map := bm\<rparr>))))"
  by pat_completeness auto
termination
  by (relation "measure (\<lambda>(st, s, order). length (free_lists s) - order)")
    (auto simp: slice_get_Inr slice_set_Inr)

declare alloc_block.simps [simp del]

text \<open>The loop of \<open>add_region\<close>; each round frees at least one page, so it ends.\<close>

function add_region_loop :: "storage \<Rightarrow> phys_state \<Rightarrow> u64 \<Rightarrow> u64 \<Rightarrow> phys_state res" where
  "add_region_loop st s index page_count =
     (if page_count = 0 then Inr s
      else
        let index_order = trailing_zeros index;
            count_order = 63 - leading_zeros page_count;
            order = min (min index_order count_order) MAX_ORDER in
        and_then (free_block st s index order) (\<lambda>s'.
        and_then (checked_add index (push_bit order 1)) (\<lambda>index'.
        and_then (checked_sub page_count (push_bit order 1)) (\<lambda>page_count'.
          add_region_loop st s' index' page_count'))))"
  by pat_completeness auto

lemma push_bit_1_nonzero: "k < 64 \<Longrightarrow> push_bit k (1::u64) \<noteq> 0"
  using unat_push_bit_1[where 'a = 64, of k] by (auto simp del: push_bit_of_1)

lemma checked_sub_decreases:
  assumes "checked_sub a b = Inr c" "b \<noteq> 0"
  shows "unat c < unat a"
proof -
  from assms(1) have "b \<le> a" "c = a - b" by (auto simp: checked_sub_def split: if_splits)
  moreover have "0 < unat b" using assms(2) by (simp add: unat_gt_0)
  ultimately show ?thesis by (simp add: word_nat word_le_nat_alt)
qed

termination add_region_loop
proof (relation "measure (\<lambda>(st, s, index, page_count). unat page_count)", goal_cases)
  case (2 st s index page_count)
  let ?k = "min (min (trailing_zeros index) (63 - leading_zeros page_count)) MAX_ORDER"
  have "push_bit ?k (1::u64) \<noteq> 0" by (rule push_bit_1_nonzero) (simp add: MAX_ORDER_def)
  with 2 show ?case by (simp add: checked_sub_decreases del: push_bit_of_1)
qed simp

declare add_region_loop.simps [simp del]

section \<open>The public methods\<close>

text \<open>Every method locks, works on storage and free lists, and unlocks when its guard is dropped.\<close>

definition guarded :: "(phys_state \<Rightarrow> ('a \<times> phys_state) res) \<Rightarrow> phys_manager \<Rightarrow> ('a \<times> phys_manager) res" where
  "guarded f m =
     and_then (with_guard (pm_lock m) (f (pm_state m))) (\<lambda>(l, x, s).
       Inr (x, \<lparr>pm_lock = l, pm_state = s\<rparr>))"

definition ret_unit :: "phys_state res \<Rightarrow> (unit \<times> phys_state) res" where
  "ret_unit r = and_then r (\<lambda>s. Inr ((), s))"

definition add_region :: "storage \<Rightarrow> u64 \<Rightarrow> u64 \<Rightarrow> phys_manager \<Rightarrow> (unit \<times> phys_manager) res" where
  "add_region st index page_count =
     guarded (\<lambda>s. ret_unit (add_region_loop st s index page_count))"

definition free_page :: "storage \<Rightarrow> u64 \<Rightarrow> phys_manager \<Rightarrow> (unit \<times> phys_manager) res" where
  "free_page st addr = guarded (\<lambda>s. ret_unit (free_block st s (drop_bit 12 addr) 0))"

definition free_linear_pages :: "storage \<Rightarrow> u64 \<Rightarrow> u64 \<Rightarrow> phys_manager \<Rightarrow> (unit \<times> phys_manager) res" where
  "free_linear_pages st addr count =
     guarded (\<lambda>s. and_then (get_size_order count) (\<lambda>order.
       ret_unit (free_block st s (drop_bit 12 addr) order)))"

definition free_pages :: "storage \<Rightarrow> u64 list \<Rightarrow> phys_manager \<Rightarrow> (unit \<times> phys_manager) res" where
  "free_pages st addresses =
     guarded (\<lambda>s. ret_unit (for_each addresses (\<lambda>addr s. free_block st s (drop_bit 12 addr) 0) s))"

definition alloc_page :: "storage \<Rightarrow> phys_manager \<Rightarrow> (u64 \<times> phys_manager) res" where
  "alloc_page st = guarded (\<lambda>s. and_then (alloc_block st s 0) (\<lambda>(i, s'). Inr (push_bit 12 i, s')))"

definition alloc_linear_pages :: "storage \<Rightarrow> u64 \<Rightarrow> phys_manager \<Rightarrow> (u64 \<times> phys_manager) res" where
  "alloc_linear_pages st count =
     guarded (\<lambda>s. and_then (get_size_order count) (\<lambda>order.
       and_then (alloc_block st s order) (\<lambda>(i, s'). Inr (push_bit 12 i, s'))))"

text \<open>\<open>alloc_pages\<close> fills a slice of the given length; the result is its new contents.\<close>

fun alloc_pages_loop :: "storage \<Rightarrow> nat \<Rightarrow> phys_state \<Rightarrow> (u64 list \<times> phys_state) res" where
  "alloc_pages_loop st 0 s = Inr ([], s)"
| "alloc_pages_loop st (Suc n) s =
     and_then (alloc_block st s 0) (\<lambda>(i, s1).
     and_then (alloc_pages_loop st n s1) (\<lambda>(addrs, s2). Inr (push_bit 12 i # addrs, s2)))"

definition alloc_pages :: "storage \<Rightarrow> nat \<Rightarrow> phys_manager \<Rightarrow> (u64 list \<times> phys_manager) res" where
  "alloc_pages st len = guarded (alloc_pages_loop st len)"

section \<open>Initialization\<close>

definition segment_end :: "memory_segment \<Rightarrow> u64 res" where
  "segment_end e = and_then (checked_mul (seg_page_count e) 4096) (checked_add (seg_start e))"

fun max_end :: "memory_segment list \<Rightarrow> u64 option res" where
  "max_end [] = Inr None"
| "max_end (e # es) =
     and_then (segment_end e) (\<lambda>a.
     and_then (max_end es) (\<lambda>r. Inr (Some (case r of None \<Rightarrow> a | Some b \<Rightarrow> max a b))))"

text \<open>The initialization without its messages.\<close>

definition manager_new ::
    "storage \<Rightarrow> heap \<Rightarrow> memory_segment list \<Rightarrow> (phys_manager \<times> memory_segment list) res" where
  "manager_new st h mmap =
     and_then (max_end mmap) (\<lambda>r.
     and_then (expect ''Memory Map is empty'' r) (\<lambda>max_address.
     and_then (storage_new st (drop_bit 12 max_address) mmap) (\<lambda>(bm, mmap').
     let res = \<lparr>pm_lock = spin_new,
                pm_state = \<lparr>free_lists = replicate (MAX_ORDER + 1) 0, buddy_map = bm, heap = h\<rparr>\<rparr> in
     and_then (for_each (filter (\<lambda>e. seg_state e = Free) mmap')
                (\<lambda>e m. and_then (add_region st (drop_bit 12 (seg_start e)) (seg_page_count e) m)
                          (\<lambda>(_, m'). Inr m')) res) (\<lambda>m.
       Inr (m, mmap')))))"

text \<open>
  The count of a free list for the log. The loop ends when the list does; the counter is an \<open>i32\<close>.
\<close>

partial_function (option) count_entries :: "heap \<Rightarrow> u64 \<Rightarrow> u32 \<Rightarrow> u32 res option" where
  "count_entries h tmp count =
     (if tmp = 0 then Some (Inr count)
      else if count = 0x7FFFFFFF then Some (Inl Overflow)
      else count_entries h (fe_next (h tmp)) (count + 1))"

declare count_entries.simps [code]

definition count_regions :: "heap \<Rightarrow> u64 \<Rightarrow> u32 res" where
  "count_regions h head = (case count_entries h head 0 of None \<Rightarrow> Inl Hang | Some r \<Rightarrow> r)"

definition log_counts :: "'t logger \<Rightarrow> phys_state \<Rightarrow> 't \<Rightarrow> 't res" where
  "log_counts emit s =
     for_range 0 (MAX_ORDER + 1) (\<lambda>order t.
       and_then (slice_get (free_lists s) order) (\<lambda>tmp.
       and_then (count_regions (heap s) tmp) (\<lambda>count.
         emit Verbose ''PhysManager'' [dec_digits (unat count), chars '' regions of order '', dec_digits order] t)))"

definition add_segment :: "'t logger \<Rightarrow> storage \<Rightarrow> memory_segment \<Rightarrow> phys_manager \<times> 't \<Rightarrow> (phys_manager \<times> 't) res" where
  "add_segment emit st e = (\<lambda>(m, t).
     and_then (segment_end e) (\<lambda>end_addr.
     and_then (emit Verbose ''PhysManager''
        (chars ''Free segment '' # hex016 (seg_start e) @ [chars '' - ''] @ hex016 end_addr @
         [chars ''    '', dec_digits (unat (seg_page_count e))]) t) (\<lambda>t'.
     and_then (add_region st (drop_bit 12 (seg_start e)) (seg_page_count e) m) (\<lambda>(_, m'). Inr (m', t')))))"

definition phys_manager_new ::
    "'t logger \<Rightarrow> storage \<Rightarrow> heap \<Rightarrow> memory_segment list \<Rightarrow> 't \<Rightarrow> (phys_manager \<times> memory_segment list \<times> 't) res" where
  "phys_manager_new emit st h mmap t =
     and_then (emit Info ''PhysManager'' [chars ''Starting initialization''] t) (\<lambda>t1.
     and_then (max_end mmap) (\<lambda>r.
     and_then (expect ''Memory Map is empty'' r) (\<lambda>max_address.
     and_then (emit Verbose ''PhysManager'' (chars ''max_address='' # hex016 max_address) t1) (\<lambda>t2.
     and_then (storage_new st (drop_bit 12 max_address) mmap) (\<lambda>(bm, mmap').
     let res = \<lparr>pm_lock = spin_new,
                pm_state = \<lparr>free_lists = replicate (MAX_ORDER + 1) 0, buddy_map = bm, heap = h\<rparr>\<rparr> in
     and_then (for_each (filter (\<lambda>e. seg_state e = Free) mmap') (add_segment emit st) (res, t2)) (\<lambda>(m, t3).
     and_then (log_counts emit (pm_state m) t3) (\<lambda>t4.
     and_then (emit Info ''PhysManager'' [chars ''Initialized''] t4) (\<lambda>t5.
       Inr (m, mmap', t5)))))))))"

text \<open>
  \<open>init_phys_manager\<close> reads the memory map the header points to; its contents are an argument.
  The static \<open>INSTANCE\<close> is the manager the function returns.
\<close>

definition init_phys_manager :: "'t logger \<Rightarrow> kernel_header \<Rightarrow> heap \<Rightarrow> memory_segment list \<Rightarrow> 't \<Rightarrow> (phys_manager \<times> 't) res" where
  "init_phys_manager emit kh h mmap t =
     and_then (phys_manager_new emit (inline_storage (high_memory_base kh)) h
                (take (unat (memory_map_entries kh)) mmap) t) (\<lambda>(m, _, t'). Inr (m, t'))"

end
