(* ===== verification/Phys_Refinement.thy ===== *)
theory Phys_Refinement
  imports Phys_Manager
begin

text \<open>
  The pointer-level code of \<^verbatim>\<open>Phys_Manager\<close> refines the buddy system of \<^verbatim>\<open>Buddy_Spec\<close>.

  \<open>phys_rel st N s L\<close> ties a concrete state \<open>s\<close> to ghost lists \<open>L k\<close> of block indices per order: the
  heads and links in memory spell exactly these lists, each entry records its order, a bitmap
  bit is set exactly at the first page of a free block, and the set of free blocks is well formed
  and merged. \<open>N\<close> bounds the page numbers. The trait \<open>PhysManagerStorage\<close> is the locale
  \<open>phys_storage\<close>; the refinement is proved inside it once and holds for both backends.
\<close>

section \<open>Words and bits\<close>

lemma nat_xor_power2: "(a::nat) XOR 2 ^ k = buddy_of a k"
proof (cases "bit a k")
  case True
  define c where "c = a XOR 2 ^ k"
  have "\<not> bit c k" using True by (simp add: c_def bit_xor_iff bit_exp_iff)
  then have "c AND 2 ^ k = 0" by (simp add: and_exp_eq_0_iff_not_bit)
  then have "c + 2 ^ k = c XOR 2 ^ k" by (rule disjunctive_add_eq_xor)
  also have "\<dots> = a" by (simp add: c_def xor.assoc)
  finally have "c = a - 2 ^ k" by simp
  with True show ?thesis by (simp add: buddy_of_def c_def bit_iff_odd)
next
  case False
  then have "a AND 2 ^ k = 0" by (simp add: and_exp_eq_0_iff_not_bit)
  then have "a + 2 ^ k = a XOR 2 ^ k" by (rule disjunctive_add_eq_xor)
  with False show ?thesis by (simp add: buddy_of_def bit_iff_odd)
qed

lemma get_buddy_index_ok:
  "k < 64 \<Longrightarrow> \<exists>j. get_buddy_index i k = Inr j \<and> unat j = buddy_of (unat i) k"
  by (auto simp: get_buddy_index_def checked_shl_def unsigned_xor_eq unat_power2 nat_xor_power2)

lemma get_combined_index_ok:
  assumes "k < 64"
  shows "\<exists>j. get_combined_index i k = Inr j \<and> unat j = parent_of (unat i) k"
proof -
  have "unat (i AND NOT (2 ^ k)) = parent_of (unat i) k"
  proof (cases "bit i k")
    case True
    then have "i AND NOT (2 ^ k) = i XOR 2 ^ k"
      by (intro bit_word_eqI) (auto simp: bit_simps)
    moreover have "odd (unat i div 2 ^ k)" using True by (metis bit_iff_odd bit_unsigned_iff bit_imp_le_length possible_bit_nat)
    ultimately show ?thesis
      using assms by (simp add: unsigned_xor_eq unat_power2 nat_xor_power2 buddy_of_def parent_of_def)
  next
    case False
    then have "i AND NOT (2 ^ k) = i" by (intro bit_word_eqI) (auto simp: bit_simps)
    moreover have "\<not> odd (unat i div 2 ^ k)" using False by (metis bit_iff_odd bit_unsigned_iff)
    ultimately show ?thesis by (simp add: parent_of_def)
  qed
  with assms show ?thesis by (simp add: get_combined_index_def checked_shl_def)
qed

section \<open>The bitmap\<close>

definition map_bit :: "u64 list \<Rightarrow> nat \<Rightarrow> bool" where
  "map_bit bm j \<longleftrightarrow> j div 64 < length bm \<and> bit (bm ! (j div 64)) (j mod 64)"

lemma unat_div_64 [simp]: "unat ((i::u64) div 64) = unat i div 64"
  by (simp add: unat_div)

lemma unat_mod_64 [simp]: "unat ((i::u64) mod 64) = unat i mod 64"
  by (simp add: unat_mod)

lemma map_bit_set:
  assumes "i div 64 < length bm"
  shows "map_bit (bm[i div 64 := bm ! (i div 64) OR 2 ^ (i mod 64)]) j \<longleftrightarrow> j = i \<or> map_bit bm j"
proof -
  have "j = i \<longleftrightarrow> j div 64 = i div 64 \<and> j mod 64 = i mod 64" by (metis div_mod_decomp)
  with assms show ?thesis
    by (auto simp: map_bit_def nth_list_update bit_or_iff bit_exp_iff)
qed

lemma map_bit_clear:
  assumes "i div 64 < length bm"
  shows "map_bit (bm[i div 64 := bm ! (i div 64) AND NOT (2 ^ (i mod 64))]) j \<longleftrightarrow> j \<noteq> i \<and> map_bit bm j"
proof -
  have "j = i \<longleftrightarrow> j div 64 = i div 64 \<and> j mod 64 = i mod 64" by (metis div_mod_decomp)
  with assms show ?thesis
    by (auto simp: map_bit_def nth_list_update bit_and_iff bit_not_iff bit_exp_iff)
qed

lemma map_bit_test:
  "i div 64 < length bm \<Longrightarrow> bm ! (i div 64) AND 2 ^ (i mod 64) \<noteq> 0 \<longleftrightarrow> map_bit bm i"
  by (simp add: map_bit_def and_exp_eq_0_iff_not_bit)

section \<open>The refinement relation\<close>

definition list_blocks :: "(nat \<Rightarrow> u64 list) \<Rightarrow> block set" where
  "list_blocks L = {(unat i, k) | i k. k \<le> MAX_ORDER \<and> i \<in> set (L k)}"

definition phys_rel :: "storage \<Rightarrow> nat \<Rightarrow> phys_state \<Rightarrow> (nat \<Rightarrow> u64 list) \<Rightarrow> bool" where
  "phys_rel st N s L \<longleftrightarrow>
     length (free_lists s) = MAX_ORDER + 1 \<and>
     N \<le> 64 * length (buddy_map s) \<and>
     (\<forall>k\<le>MAX_ORDER. free_list (heap s) (free_lists s ! k) (map (get_entry st) (L k))) \<and>
     (\<forall>k\<le>MAX_ORDER. \<forall>i\<in>set (L k). fe_order (heap s (get_entry st i)) = of_nat k) \<and>
     (\<forall>j. map_bit (buddy_map s) j \<longleftrightarrow> (\<exists>k. (j, k) \<in> list_blocks L)) \<and>
     blocks_wf N (list_blocks L) \<and> merged (list_blocks L) \<and>
     buddies_in_map (length (buddy_map s)) (list_blocks L)"

lemma phys_relD:
  assumes "phys_rel st N s L"
  shows "length (free_lists s) = MAX_ORDER + 1" "N \<le> 64 * length (buddy_map s)"
    "k \<le> MAX_ORDER \<Longrightarrow> free_list (heap s) (free_lists s ! k) (map (get_entry st) (L k))"
    "k \<le> MAX_ORDER \<Longrightarrow> i \<in> set (L k) \<Longrightarrow> fe_order (heap s (get_entry st i)) = of_nat k"
    "map_bit (buddy_map s) j \<longleftrightarrow> (\<exists>k. (j, k) \<in> list_blocks L)"
    "blocks_wf N (list_blocks L)" "merged (list_blocks L)"
    "buddies_in_map (length (buddy_map s)) (list_blocks L)"
  using assms by (simp_all add: phys_rel_def)

lemma mem_list_blocks: "(j, k) \<in> list_blocks L \<longleftrightarrow> (\<exists>i. unat i = j \<and> k \<le> MAX_ORDER \<and> i \<in> set (L k))"
  by (auto simp: list_blocks_def)

lemma mem_list_blocks_unat [simp]: "(unat i, k) \<in> list_blocks L \<longleftrightarrow> k \<le> MAX_ORDER \<and> i \<in> set (L k)"
  by (auto simp: mem_list_blocks)

lemma list_blocks_push: "k \<le> MAX_ORDER \<Longrightarrow> list_blocks (L(k := i # L k)) = insert (unat i, k) (list_blocks L)"
  by (auto simp: list_blocks_def split: if_splits)

lemma list_blocks_remove:
  assumes "k \<le> MAX_ORDER" "set xs = set (L k) - {i}"
  shows "list_blocks (L(k := xs)) = list_blocks L - {(unat i, k)}"
proof (rule set_eqI, clarify)
  fix j l
  show "(j, l) \<in> list_blocks (L(k := xs)) \<longleftrightarrow> (j, l) \<in> list_blocks L - {(unat i, k)}"
  proof (cases "\<exists>w::u64. j = unat w")
    case True
    then obtain w :: u64 where "j = unat w" by blast
    then show ?thesis using assms by (cases "l = k") simp_all
  next
    case False
    then have "(j, l) \<notin> list_blocks M" for M by (auto simp: mem_list_blocks)
    then show ?thesis by simp
  qed
qed

lemma remove1_map_inj: "inj_on f (insert x (set xs)) \<Longrightarrow> remove1 (f x) (map f xs) = map f (remove1 x xs)"
  by (induction xs) (auto simp: inj_on_def)

section \<open>The parts of the two block operations\<close>

text \<open>
  \<open>push_block\<close> is the tail of both operations that adds a free block, \<open>unlink_block\<close> the part of
  \<open>free_block\<close> that takes the buddy out of its list. The block operations in terms of them:
\<close>

definition push_block :: "storage \<Rightarrow> phys_state \<Rightarrow> u64 \<Rightarrow> nat \<Rightarrow> phys_state res" where
  "push_block st s i k =
     and_then (slice_modify (buddy_map s) (unat (i div 64)) (\<lambda>w. w OR push_bit (unat (i mod 64)) 1)) (\<lambda>bm.
     let h = (heap s)(get_entry st i := \<lparr>fe_order = of_nat k, fe_next = 0, fe_prev = 0\<rparr>) in
     and_then (slice_get (free_lists s) k) (\<lambda>head.
     let (h', head') = push_buddy_list_entry h head (get_entry st i) in
     and_then (slice_set (free_lists s) k head') (\<lambda>fl.
       Inr (s\<lparr>buddy_map := bm, free_lists := fl, heap := h'\<rparr>))))"

definition unlink_block :: "storage \<Rightarrow> phys_state \<Rightarrow> u64 \<Rightarrow> nat \<Rightarrow> phys_state res" where
  "unlink_block st s j k =
     and_then (slice_modify (buddy_map s) (unat (j div 64)) (\<lambda>w. w AND NOT (push_bit (unat (j mod 64)) 1))) (\<lambda>bm.
     and_then (slice_get (free_lists s) k) (\<lambda>head.
     let (h, head') = remove_buddy_list_entry (heap s) head (get_entry st j) in
     and_then (slice_set (free_lists s) k head') (\<lambda>fl.
       Inr (s\<lparr>buddy_map := bm, free_lists := fl, heap := h\<rparr>))))"

lemma free_block_insert:
  assumes "get_buddy_index i k = Inr j"
    and "k < MAX_ORDER \<Longrightarrow> unat j div 64 < length (buddy_map s)"
    and "\<not> (k < MAX_ORDER \<and> map_bit (buddy_map s) (unat j) \<and> fe_order (heap s (get_entry st j)) = of_nat k)"
  shows "free_block st s i k = push_block st s i k"
  using assms by (subst free_block.simps) (auto simp: push_block_def Let_def map_bit_test)

lemma free_block_merge:
  assumes "get_buddy_index i k = Inr j" "k < MAX_ORDER" "unat j div 64 < length (buddy_map s)"
    and "map_bit (buddy_map s) (unat j)" "fe_order (heap s (get_entry st j)) = of_nat k"
  shows "free_block st s i k =
    and_then (unlink_block st s j k) (\<lambda>s'. and_then (get_combined_index i k) (\<lambda>c. free_block st s' c (k + 1)))"
  using assms
  by (subst free_block.simps)
    (simp add: unlink_block_def Let_def map_bit_test and_then_assoc split_beta)

lemma alloc_block_split:
  assumes "length (free_lists s) = MAX_ORDER + 1" "k < MAX_ORDER" "free_lists s ! k = 0"
  shows "alloc_block st s k =
    and_then (alloc_block st s (k + 1)) (\<lambda>(i, s').
    and_then (get_buddy_index i k) (\<lambda>j. and_then (push_block st s' j k) (\<lambda>s''. Inr (i, s''))))"
proof -
  have "(free_lists s)[k := 0] = free_lists s" using assms by (metis list_update_id)
  then have "s\<lparr>free_lists := (free_lists s)[k := 0], heap := heap s\<rparr> = s" by simp
  with assms show ?thesis
    by (subst alloc_block.simps)
      (simp add: pop_buddy_list_entry_def push_block_def Let_def and_then_assoc split_beta)
qed

lemma free_block_out_of_map:
  assumes "get_buddy_index i k = Inr j" "k < MAX_ORDER" "\<not> unat j div 64 < length (buddy_map s)"
  shows "free_block st s i k = Inl IndexOutOfBounds"
  using assms by (subst free_block.simps) (simp add: Let_def)

section \<open>The storage backend\<close>

locale phys_storage =
  fixes st :: storage and n :: nat
  assumes n_bound: "n \<le> 2 ^ 52"
    and index_entry: "unat i < n \<Longrightarrow> get_index st (get_entry st i) = i"
    and entry_nonnull: "unat i < n \<Longrightarrow> get_entry st i \<noteq> 0"
begin

lemma entry_inj: "unat i < n \<Longrightarrow> unat j < n \<Longrightarrow> get_entry st i = get_entry st j \<longleftrightarrow> i = j"
  using index_entry by metis

lemma entry_image: "(\<And>j. j \<in> S \<Longrightarrow> unat j < n) \<Longrightarrow> unat i < n \<Longrightarrow> get_entry st i \<in> get_entry st ` S \<longleftrightarrow> i \<in> S"
  using entry_inj by blast

lemma list_index_bound:
  assumes "phys_rel st N s L" "N \<le> n" "k \<le> MAX_ORDER" "i \<in> set (L k)"
  shows "unat i < N" "unat i < n" "unat i div 64 < length (buddy_map s)"
proof -
  have "(unat i, k) \<in> list_blocks L" using assms by simp
  from blocks_wfD(3)[OF phys_relD(6)[OF assms(1)] this] show "unat i < N"
    using zero_less_power[of "2::nat" k] by linarith
  with assms(2) phys_relD(2)[OF assms(1)] show "unat i < n" "unat i div 64 < length (buddy_map s)"
    by simp_all
qed

lemma list_distinct: "phys_rel st N s L \<Longrightarrow> k \<le> MAX_ORDER \<Longrightarrow> distinct (L k)"
  using phys_relD(3)[THEN fl.rel_distinct] by (blast dest: distinct_map[THEN iffD1])

text \<open>The lists of different orders share no entry.\<close>

lemma lists_disjoint:
  assumes "phys_rel st N s L" "N \<le> n" "k \<le> MAX_ORDER" "l \<le> MAX_ORDER" "k \<noteq> l"
  shows "get_entry st ` set (L k) \<inter> get_entry st ` set (L l) = {}"
proof -
  have "i \<notin> set (L l)" if "i \<in> set (L k)" for i
    using blocks_wf_same_index[OF phys_relD(6)[OF assms(1)], of "unat i" k l] that assms by auto
  then show ?thesis
    using entry_inj list_index_bound(2)[OF assms(1,2)] assms(3,4) by blast
qed

text \<open>
  Changing the links of the list of order \<open>k\<close> only, and putting the new sequence in its place,
  keeps the other lists.
\<close>

lemma relink:
  assumes rel: "phys_rel st N s L" and N: "N \<le> n" and k: "k \<le> MAX_ORDER"
    and new: "free_list h a (map (get_entry st) xs)"
    and links: "links_only (get_entry st ` S) (heap s) h"
    and S: "set (L k) \<subseteq> S" "\<And>l i. l \<le> MAX_ORDER \<Longrightarrow> l \<noteq> k \<Longrightarrow> i \<in> set (L l) \<Longrightarrow> i \<notin> S"
      "\<And>i. i \<in> S \<Longrightarrow> unat i < n"
    and l: "l \<le> MAX_ORDER"
  shows "free_list h ((free_lists s)[k := a] ! l) (map (get_entry st) ((L(k := xs)) l))"
proof (cases "l = k")
  case True
  with new k phys_relD(1)[OF rel] show ?thesis by simp
next
  case False
  have "get_entry st ` set (L l) \<inter> get_entry st ` S = {}"
    using S(2)[OF l False] entry_inj S(3) list_index_bound(2)[OF rel N l] by blast
  with False show ?thesis
    using fl.rel_other[OF phys_relD(3)[OF rel l] links] by simp
qed

lemma push_block_ok:
  assumes rel: "phys_rel st N s L" and N: "N \<le> n" and k: "k \<le> MAX_ORDER" and i: "unat i < N"
    and fresh: "\<And>l. (unat i, l) \<notin> list_blocks L"
    and wf: "blocks_wf N (insert (unat i, k) (list_blocks L))" "merged (insert (unat i, k) (list_blocks L))"
    and buddy: "k < MAX_ORDER \<Longrightarrow> buddy_of (unat i) k div 64 < length (buddy_map s)"
  shows "\<exists>s'. push_block st s i k = Inr s' \<and> phys_rel st N s' (L(k := i # L k)) \<and>
           length (buddy_map s') = length (buddy_map s)"
proof -
  let ?e = "get_entry st i" and ?L = "L(k := i # L k)"
  let ?h = "(heap s)(?e := \<lparr>fe_order = of_nat k, fe_next = 0, fe_prev = 0\<rparr>)"
  let ?bm = "(buddy_map s)[unat i div 64 := buddy_map s ! (unat i div 64) OR 2 ^ (unat i mod 64)]"
  note bound = list_index_bound[OF rel N]
  have notin: "i \<notin> set (L l)" if "l \<le> MAX_ORDER" for l using fresh[of l] that by simp
  have e_notin: "?e \<notin> get_entry st ` set (L l)" if "l \<le> MAX_ORDER" for l
    using notin[OF that] entry_inj bound(2)[OF that] i N by auto
  have in_map: "unat i div 64 < length (buddy_map s)" using i phys_relD(2)[OF rel] by simp
  have "free_list ?h (free_lists s ! k) (map (get_entry st) (L k))"
  proof (rule fl.rel_frame[OF phys_relD(3)[OF rel k]])
    fix x assume "x \<in> set (map (get_entry st) (L k))"
    then have "x \<noteq> ?e" using e_notin[OF k] by (metis set_map)
    then show "?h x = heap s x" by simp
  qed
  from fl.push_rel[OF this, of ?e] e_notin[OF k] entry_nonnull[of i] i N
  obtain h' a' where push: "push_buddy_list_entry ?h (free_lists s ! k) ?e = (h', a')"
      "free_list h' a' (map (get_entry st) (i # L k))" "links_only (get_entry st ` set (i # L k)) ?h h'"
    by auto
  let ?s = "s\<lparr>buddy_map := ?bm, free_lists := (free_lists s)[k := a'], heap := h'\<rparr>"
  have lists: "free_list h' ((free_lists s)[k := a'] ! l) (map (get_entry st) (?L l))"
    if l: "l \<le> MAX_ORDER" for l
  proof (cases "l = k")
    case True
    with push(2) k phys_relD(1)[OF rel] show ?thesis by simp
  next
    case False
    have "h' x = heap s x" if "x \<in> get_entry st ` set (L l)" for x
    proof -
      have "x \<noteq> ?e" using that e_notin[OF l] by metis
      moreover have "x \<notin> get_entry st ` set (L k)"
        using that lists_disjoint[OF rel N k l] False by blast
      ultimately show ?thesis using push(3) by (simp add: links_only_def)
    qed
    then show ?thesis using False by (auto intro: fl.rel_frame[OF phys_relD(3)[OF rel l]])
  qed
  have orders: "fe_order (h' (get_entry st j)) = of_nat l" if "l \<le> MAX_ORDER" "j \<in> set (?L l)" for l j
  proof (cases "j = i")
    case True
    then have "l = k" using that notin by (auto split: if_splits)
    with True push(3) show ?thesis by (simp add: links_only_def)
  next
    case False
    then have "j \<in> set (L l)" using that by (auto split: if_splits)
    with that(1) have "get_entry st j \<noteq> ?e" "fe_order (heap s (get_entry st j)) = of_nat l"
      using e_notin[OF that(1)] phys_relD(4)[OF rel] by (metis imageI)+
    with push(3) show ?thesis by (simp add: links_only_def)
  qed
  have bits: "map_bit ?bm j \<longleftrightarrow> (\<exists>l. (j, l) \<in> list_blocks ?L)" for j
    using map_bit_set[OF in_map] phys_relD(5)[OF rel] list_blocks_push[OF k] by auto
  have "push_block st s i k = Inr ?s"
    using in_map k phys_relD(1)[OF rel] push(1) by (simp add: push_block_def Let_def)
  moreover have "phys_rel st N ?s ?L"
    unfolding phys_rel_def
    using lists orders bits wf phys_relD(1,2,8)[OF rel] list_blocks_push[OF k, of L i] buddy
    by (simp add: buddies_in_map_def)
  ultimately show ?thesis by simp
qed

text \<open>Taking an entry out of its list, whether from the middle or from the head.\<close>

lemma take_out_ok:
  assumes rel: "phys_rel st N s L" and N: "N \<le> n" and k: "k \<le> MAX_ORDER" and i: "i \<in> set (L k)"
    and xs: "set xs = set (L k) - {i}"
    and new: "free_list h a (map (get_entry st) xs)"
    and links: "links_only (get_entry st ` set (L k)) (heap s) h"
  shows "phys_rel st N (s\<lparr>buddy_map := (buddy_map s)[unat i div 64 :=
             buddy_map s ! (unat i div 64) AND NOT (2 ^ (unat i mod 64))],
           free_lists := (free_lists s)[k := a], heap := h\<rparr>) (L(k := xs))"
proof -
  let ?L = "L(k := xs)"
  let ?bm = "(buddy_map s)[unat i div 64 := buddy_map s ! (unat i div 64) AND NOT (2 ^ (unat i mod 64))]"
  note bound = list_index_bound[OF rel N]
  have blocks: "list_blocks ?L = list_blocks L - {(unat i, k)}" by (rule list_blocks_remove[of k xs L i, OF k xs])
  have other: "j \<notin> set (L k)" if "l \<le> MAX_ORDER" "l \<noteq> k" "j \<in> set (L l)" for l j
    using lists_disjoint[OF rel N k that(1)] that by blast
  have lists: "free_list h ((free_lists s)[k := a] ! l) (map (get_entry st) (?L l))" if "l \<le> MAX_ORDER" for l
    by (rule relink[OF rel N k new links order.refl other bound(2)[OF k] that])
  have orders: "fe_order (h (get_entry st j)) = of_nat l" if "l \<le> MAX_ORDER" "j \<in> set (?L l)" for l j
    using that phys_relD(4)[OF rel that(1)] links xs by (auto simp: links_only_def split: if_splits)
  have bits: "map_bit ?bm j \<longleftrightarrow> (\<exists>l. (j, l) \<in> list_blocks ?L)" for j
  proof -
    have ik: "(unat i, k) \<in> list_blocks L" using i k by simp
    have "map_bit ?bm j \<longleftrightarrow> j \<noteq> unat i \<and> (\<exists>l. (j, l) \<in> list_blocks L)"
      using map_bit_clear[OF bound(3)[OF k i]] phys_relD(5)[OF rel] by simp
    also have "\<dots> \<longleftrightarrow> (\<exists>l. (j, l) \<in> list_blocks ?L)"
      using blocks blocks_wf_same_index[OF phys_relD(6)[OF rel] ik] by auto
    finally show ?thesis .
  qed
  have "blocks_wf N (list_blocks ?L)" "merged (list_blocks ?L)"
    using blocks blocks_wf_subset[OF phys_relD(6)[OF rel]] merged_subset[OF phys_relD(7)[OF rel]] by auto
  moreover have "buddies_in_map (length (buddy_map s)) (list_blocks ?L)"
    using blocks phys_relD(8)[OF rel] by (auto simp: buddies_in_map_def)
  ultimately show ?thesis unfolding phys_rel_def using lists orders bits phys_relD(1,2)[OF rel] by simp
qed

lemma unlink_block_ok:
  assumes rel: "phys_rel st N s L" and N: "N \<le> n" and k: "k \<le> MAX_ORDER" and i: "i \<in> set (L k)"
  shows "\<exists>s' xs. unlink_block st s i k = Inr s' \<and> phys_rel st N s' (L(k := xs)) \<and>
           set xs = set (L k) - {i} \<and> length (buddy_map s') = length (buddy_map s)"
proof -
  note bound = list_index_bound[OF rel N k i]
  let ?xs = "remove1 i (L k)"
  have inj: "inj_on (get_entry st) (insert i (set (L k)))"
    using entry_inj list_index_bound(2)[OF rel N k] i by (auto simp: inj_on_def)
  have map: "remove1 (get_entry st i) (map (get_entry st) (L k)) = map (get_entry st) ?xs"
    by (rule remove1_map_inj[OF inj])
  have xs: "set ?xs = set (L k) - {i}" using list_distinct[OF rel k] by simp
  from fl.remove_rel[OF phys_relD(3)[OF rel k], of "get_entry st i"] i map
  obtain h a where rm: "remove_buddy_list_entry (heap s) (free_lists s ! k) (get_entry st i) = (h, a)"
      "free_list h a (map (get_entry st) ?xs)" "links_only (get_entry st ` set (L k)) (heap s) h"
    by auto
  have "phys_rel st N (s\<lparr>buddy_map := (buddy_map s)[unat i div 64 :=
             buddy_map s ! (unat i div 64) AND NOT (2 ^ (unat i mod 64))],
           free_lists := (free_lists s)[k := a], heap := h\<rparr>) (L(k := ?xs))"
    by (rule take_out_ok[OF rel N k i xs rm(2,3)])
  with xs show ?thesis
    using bound k phys_relD(1)[OF rel] rm(1) by (auto simp: unlink_block_def Let_def)
qed

lemma alloc_block_take:
  assumes rel: "phys_rel st N s L" and N: "N \<le> n" and k: "k \<le> MAX_ORDER" and L: "L k = i # xs"
  shows "\<exists>s'. alloc_block st s k = Inr (i, s') \<and> phys_rel st N s' (L(k := xs)) \<and>
           length (buddy_map s') = length (buddy_map s)"
proof -
  have i: "i \<in> set (L k)" using L by simp
  note bound = list_index_bound[OF rel N k i]
  have xs: "set xs = set (L k) - {i}" using list_distinct[OF rel k] L by auto
  from fl.pop_rel[of "heap s" "free_lists s ! k" "get_entry st i" "map (get_entry st) xs"]
    phys_relD(3)[OF rel k] L
  obtain h a where pop: "pop_buddy_list_entry (heap s) (free_lists s ! k) = (h, a, get_entry st i)"
      "free_list h a (map (get_entry st) xs)" "links_only (get_entry st ` set (L k)) (heap s) h"
    by auto
  let ?bm = "(buddy_map s)[unat i div 64 := buddy_map s ! (unat i div 64) AND NOT (2 ^ (unat i mod 64))]"
  let ?s = "s\<lparr>free_lists := (free_lists s)[k := a], heap := h, buddy_map := ?bm\<rparr>"
  have "?s = s\<lparr>buddy_map := ?bm, free_lists := (free_lists s)[k := a], heap := h\<rparr>" by simp
  then have "phys_rel st N ?s (L(k := xs))"
    using take_out_ok[OF rel N k i xs pop(2,3)] by (simp only:)
  moreover have "alloc_block st s k = Inr (i, ?s)"
    using bound k phys_relD(1)[OF rel] pop(1) entry_nonnull[of i] index_entry[of i]
    by (subst alloc_block.simps) (simp add: Let_def)
  ultimately show ?thesis by simp
qed

section \<open>The block operations refine the specification\<close>

text \<open>The test of \<open>free_block\<close> recognises exactly a free buddy of the same order.\<close>

lemma buddy_free_iff:
  assumes "phys_rel st N s L" "N \<le> n" "k \<le> MAX_ORDER"
  shows "map_bit (buddy_map s) (unat j) \<and> fe_order (heap s (get_entry st j)) = of_nat k \<longleftrightarrow>
           (unat j, k) \<in> list_blocks L"
proof
  assume a: "map_bit (buddy_map s) (unat j) \<and> fe_order (heap s (get_entry st j)) = of_nat k"
  then obtain l where l: "l \<le> MAX_ORDER" "j \<in> set (L l)" using phys_relD(5)[OF assms(1)] by auto
  then have "(of_nat l :: u64) = of_nat k" using a phys_relD(4)[OF assms(1)] by simp
  then have "unat (of_nat l :: u64) = unat (of_nat k :: u64)" by simp
  then have "l = k" using l(1) assms(3) by (simp add: unat_of_nat MAX_ORDER_def)
  with l show "(unat j, k) \<in> list_blocks L" by simp
next
  assume "(unat j, k) \<in> list_blocks L"
  then show "map_bit (buddy_map s) (unat j) \<and> fe_order (heap s (get_entry st j)) = of_nat k"
    using phys_relD(4,5)[OF assms(1)] by auto
qed

lemma insert_step:
  assumes rel: "phys_rel st N s L" and "N \<le> n" "k \<le> MAX_ORDER" "2 ^ k dvd unat i" "unat i + 2 ^ k \<le> N"
    and free: "block_pages (unat i) k \<inter> free_pages_of (list_blocks L) = {}"
    and spec: "spec_free (list_blocks L) (unat i) k = insert (unat i, k) (list_blocks L)"
    and buddy: "k < MAX_ORDER \<Longrightarrow> buddy_of (unat i) k div 64 < length (buddy_map s)"
  shows "\<exists>s' L'. push_block st s i k = Inr s' \<and> phys_rel st N s' L' \<and>
           list_blocks L' = spec_free (list_blocks L) (unat i) k \<and>
           length (buddy_map s') = length (buddy_map s)"
proof -
  have wf: "blocks_wf N (insert (unat i, k) (list_blocks L))" "merged (insert (unat i, k) (list_blocks L))"
    using spec_free_correct[OF phys_relD(6,7)[OF rel] assms(3-5) free] spec by simp_all
  have "(unat i, l) \<notin> list_blocks L" for l
    using free block_in_free_pages[of "unat i" l "list_blocks L"] block_pages_nonempty by blast
  moreover have "unat i < N" using assms(5) zero_less_power[of "2::nat" k] by linarith
  ultimately show ?thesis
    using push_block_ok[OF rel assms(2,3) _ _ wf buddy] list_blocks_push[OF assms(3), of L i] spec by metis
qed

lemma take_step:
  assumes "phys_rel st N s L" "N \<le> n" "k \<le> MAX_ORDER" "L k = i # xs"
  shows "\<exists>i s' L'. alloc_block st s k = Inr (i, s') \<and> phys_rel st N s' L' \<and>
           spec_alloc k (list_blocks L) (unat i) (list_blocks L') \<and>
           length (buddy_map s') = length (buddy_map s)"
proof -
  have "set xs = set (L k) - {i}" using list_distinct[OF assms(1,3)] assms(4) by auto
  then have "list_blocks (L(k := xs)) = list_blocks L - {(unat i, k)}"
    by (rule list_blocks_remove[of k xs L i, OF assms(3)])
  moreover have "(unat i, k) \<in> list_blocks L" using assms(3,4) by simp
  ultimately have "spec_alloc k (list_blocks L) (unat i) (list_blocks (L(k := xs)))"
    using spec_alloc.take by metis
  then show ?thesis using alloc_block_take[OF assms] by blast
qed

lemma split_step:
  assumes "phys_rel st N s L" "N \<le> n" "k < MAX_ORDER" and none: "\<forall>j. (j, k) \<notin> list_blocks L"
    and rel': "phys_rel st N s' L'"
    and higher: "spec_alloc (Suc k) (list_blocks L) (unat i) (list_blocks L')"
  shows "\<exists>j s''. get_buddy_index i k = Inr j \<and> push_block st s' j k = Inr s'' \<and>
           phys_rel st N s'' (L'(k := j # L' k)) \<and>
           spec_alloc k (list_blocks L) (unat i) (list_blocks (L'(k := j # L' k))) \<and>
           length (buddy_map s'') = length (buddy_map s')"
proof -
  obtain j where j: "get_buddy_index i k = Inr j" "unat j = buddy_of (unat i) k"
    using get_buddy_index_ok[of k i] assms(3) by (auto simp: MAX_ORDER_def)
  have k: "k \<le> MAX_ORDER" using assms(3) by simp
  note h = spec_alloc_correct[OF higher phys_relD(6,7)[OF assms(1)]]
  have spec: "spec_alloc k (list_blocks L) (unat i) (insert (unat j, k) (list_blocks L'))"
    using spec_alloc.split[OF none assms(3) higher] j(2) by simp
  note c = spec_alloc_correct[OF spec phys_relD(6,7)[OF assms(1)]]
  have up: "unat j = unat i + 2 ^ k" using buddy_of_parent(1) h j(2) by auto
  moreover have "unat i + 2 * 2 ^ k \<le> N" using h by simp
  ultimately have "unat j < N" using zero_less_power[of "2::nat" k] by linarith
  moreover have "(unat j, l) \<notin> list_blocks L'" for l
  proof
    assume "(unat j, l) \<in> list_blocks L'"
    then have "unat j \<in> free_pages_of (list_blocks L')"
      using block_in_free_pages block_pages_nonempty by blast
    then show False using h up by (auto simp: block_pages_def)
  qed
  moreover have "buddy_of (unat j) k div 64 < length (buddy_map s')"
  proof -
    have "2 ^ k dvd unat i" using c by simp
    then have "buddy_of (unat j) k = unat i" using buddy_buddy j(2) by simp
    moreover have "unat i < 64 * length (buddy_map s')" using up \<open>unat j < N\<close> phys_relD(2)[OF rel'] by simp
    ultimately show ?thesis by simp
  qed
  ultimately obtain s'' where "push_block st s' j k = Inr s''" "phys_rel st N s'' (L'(k := j # L' k))"
      "length (buddy_map s'') = length (buddy_map s')"
    using push_block_ok[OF rel' assms(2) k] c by blast
  with j spec list_blocks_push[OF k, of L' j] show ?thesis by simp
qed

lemma merge_step:
  assumes rel: "phys_rel st N s L" and "N \<le> n" and k: "k < MAX_ORDER"
    and buddy: "(buddy_of (unat i) k, k) \<in> list_blocks L"
    and in_map: "buddy_of (unat i) k div 64 < length (buddy_map s)"
  shows "\<exists>s' L' c. free_block st s i k = free_block st s' c (Suc k) \<and> phys_rel st N s' L' \<and>
           list_blocks L' = list_blocks L - {(buddy_of (unat i) k, k)} \<and>
           unat c = parent_of (unat i) k \<and> length (buddy_map s') = length (buddy_map s)"
proof -
  obtain j where j: "get_buddy_index i k = Inr j" "unat j = buddy_of (unat i) k"
    using get_buddy_index_ok[of k i] k by (auto simp: MAX_ORDER_def)
  have jL: "j \<in> set (L k)" using buddy j(2) by (metis mem_list_blocks_unat)
  from unlink_block_ok[OF rel assms(2) _ jL] k
  obtain s' xs where s': "unlink_block st s j k = Inr s'" "phys_rel st N s' (L(k := xs))"
      "set xs = set (L k) - {j}" "length (buddy_map s') = length (buddy_map s)" by auto
  obtain c where c: "get_combined_index i k = Inr c" "unat c = parent_of (unat i) k"
    using get_combined_index_ok[of k i] k by (auto simp: MAX_ORDER_def)
  have "free_block st s i k = free_block st s' c (Suc k)"
    using free_block_merge[OF j(1) k] in_map buddy_free_iff[OF rel assms(2), of k j] buddy k s'(1) c(1) j(2)
    by simp
  moreover have "list_blocks (L(k := xs)) = list_blocks L - {(buddy_of (unat i) k, k)}"
    using list_blocks_remove[of k xs L j] s'(3) k j(2) by simp
  ultimately show ?thesis using s' c by blast
qed

lemma stop_step:
  assumes rel: "phys_rel st N s L" and "N \<le> n" and k: "k \<le> MAX_ORDER"
    and buddy: "k < MAX_ORDER \<Longrightarrow> (buddy_of (unat i) k, k) \<notin> list_blocks L"
    and in_map: "k < MAX_ORDER \<Longrightarrow> buddy_of (unat i) k div 64 < length (buddy_map s)"
  shows "free_block st s i k = push_block st s i k"
    and "spec_free (list_blocks L) (unat i) k = insert (unat i, k) (list_blocks L)"
proof -
  obtain j where j: "get_buddy_index i k = Inr j" "unat j = buddy_of (unat i) k"
    using get_buddy_index_ok[of k i] k by (auto simp: MAX_ORDER_def)
  show "free_block st s i k = push_block st s i k"
    using free_block_insert[OF j(1)] in_map buddy_free_iff[OF rel assms(2) k, of j] buddy j(2) by metis
  show "spec_free (list_blocks L) (unat i) k = insert (unat i, k) (list_blocks L)"
    using buddy by (subst spec_free.simps) auto
qed

text \<open>
  \<open>free_block\<close> computes \<open>spec_free\<close>, unless it reaches a buddy that has no bit in the bitmap, where
  it panics.
\<close>

lemma free_block_refines:
  assumes "phys_rel st N s L" "N \<le> n" "k \<le> MAX_ORDER" "2 ^ k dvd unat i" "unat i + 2 ^ k \<le> N"
    and "block_pages (unat i) k \<inter> free_pages_of (list_blocks L) = {}"
    and "merge_in_map (length (buddy_map s)) (list_blocks L) (unat i) k"
  shows "\<exists>s' L'. free_block st s i k = Inr s' \<and> phys_rel st N s' L' \<and>
           list_blocks L' = spec_free (list_blocks L) (unat i) k \<and>
           length (buddy_map s') = length (buddy_map s)"
  using assms
proof (induction "MAX_ORDER - k" arbitrary: k i s L rule: less_induct)
  case less
  note rel = less.prems(1) and pre = less.prems(2-6)
  note in_map = less.prems(7)[unfolded merge_in_map.simps[of _ _ "unat i"]]
  show ?case
  proof (cases "k < MAX_ORDER \<and> (buddy_of (unat i) k, k) \<in> list_blocks L")
    case False
    with in_map have "k < MAX_ORDER \<Longrightarrow> (buddy_of (unat i) k, k) \<notin> list_blocks L"
      "k < MAX_ORDER \<Longrightarrow> buddy_of (unat i) k div 64 < length (buddy_map s)" by auto
    note stop = stop_step[OF rel pre(1,2) this]
    from insert_step[OF rel pre stop(2)] in_map stop(1) show ?thesis by simp
  next
    case True
    then have k: "k < MAX_ORDER" and buddy: "(buddy_of (unat i) k, k) \<in> list_blocks L" by auto
    obtain s' L' c where s': "free_block st s i k = free_block st s' c (Suc k)" "phys_rel st N s' L'"
        "list_blocks L' = list_blocks L - {(buddy_of (unat i) k, k)}" "unat c = parent_of (unat i) k"
        "length (buddy_map s') = length (buddy_map s)"
      using merge_step[OF rel pre(1) k buddy] in_map k by blast
    note geo = parent_fits[OF phys_relD(6)[OF rel] buddy k pre(3-5), folded s'(3,4)]
    have "merge_in_map (length (buddy_map s')) (list_blocks L') (unat c) (Suc k)"
      using in_map k buddy s'(3-5) by simp
    moreover have "spec_free (list_blocks L) (unat i) k = spec_free (list_blocks L') (unat c) (Suc k)"
      using k buddy s'(3,4) by (subst spec_free.simps) simp
    ultimately show ?thesis using less.hyps[OF _ s'(2) pre(1) geo] k s'(1,5) by simp
  qed
qed

lemma free_block_panics:
  assumes "phys_rel st N s L" "N \<le> n" "k \<le> MAX_ORDER"
    and "\<not> merge_in_map (length (buddy_map s)) (list_blocks L) (unat i) k"
  shows "free_block st s i k = Inl IndexOutOfBounds"
  using assms
proof (induction "MAX_ORDER - k" arbitrary: k i s L rule: less_induct)
  case less
  note rel = less.prems(1)
  note no_map = less.prems(4)[unfolded merge_in_map.simps[of _ _ "unat i"]]
  then have k: "k < MAX_ORDER" by blast
  obtain j where j: "get_buddy_index i k = Inr j" "unat j = buddy_of (unat i) k"
    using get_buddy_index_ok[of k i] k by (auto simp: MAX_ORDER_def)
  show ?case
  proof (cases "buddy_of (unat i) k div 64 < length (buddy_map s)")
    case False
    then show ?thesis using free_block_out_of_map[OF j(1) k] j(2) by simp
  next
    case True
    with no_map have buddy: "(buddy_of (unat i) k, k) \<in> list_blocks L" by blast
    obtain s' L' c where s': "free_block st s i k = free_block st s' c (Suc k)" "phys_rel st N s' L'"
        "list_blocks L' = list_blocks L - {(buddy_of (unat i) k, k)}" "unat c = parent_of (unat i) k"
        "length (buddy_map s') = length (buddy_map s)"
      using merge_step[OF rel less.prems(2) k buddy True] by blast
    have "\<not> merge_in_map (length (buddy_map s')) (list_blocks L') (unat c) (Suc k)"
      using no_map k buddy True s'(3-5) by simp
    then show ?thesis using less.hyps[OF _ s'(2) less.prems(2)] k s'(1) by simp
  qed
qed

text \<open>\<open>alloc_block\<close> is a run of \<open>spec_alloc\<close>, or panics because no block of that order or above is free.\<close>

lemma alloc_block_refines:
  assumes "phys_rel st N s L" "N \<le> n" "k \<le> MAX_ORDER"
  shows "(\<exists>i s' L'. alloc_block st s k = Inr (i, s') \<and> phys_rel st N s' L' \<and>
             spec_alloc k (list_blocks L) (unat i) (list_blocks L') \<and>
             length (buddy_map s') = length (buddy_map s)) \<or>
         (alloc_block st s k = Inl (Message ''Out of physical memory'') \<and>
             (\<forall>j l. k \<le> l \<longrightarrow> (j, l) \<notin> list_blocks L))"
  using assms(3)
proof (induction "MAX_ORDER - k" arbitrary: k)
  case (0 k)
  then have k: "k = MAX_ORDER" by simp
  show ?case
  proof (cases "L k")
    case Nil
    have "free_lists s ! k = 0"
      using fl.rel_null[OF phys_relD(3)[OF assms(1) "0.prems"]] Nil by simp
    then have "alloc_block st s k = Inl (Message ''Out of physical memory'')"
      using phys_relD(1)[OF assms(1)] k by (subst alloc_block.simps) (simp add: pop_buddy_list_entry_def)
    moreover have "(j, l) \<notin> list_blocks L" if "k \<le> l" for j l
      using that k Nil by (auto simp: mem_list_blocks)
    ultimately show ?thesis by blast
  next
    case (Cons i xs)
    then show ?thesis using take_step[OF assms(1,2) "0.prems"] by blast
  qed
next
  case (Suc d k)
  then have k: "k < MAX_ORDER" by simp
  show ?case
  proof (cases "L k")
    case (Cons i xs)
    then show ?thesis using take_step[OF assms(1,2) Suc.prems] by blast
  next
    case Nil
    have none: "\<forall>j. (j, k) \<notin> list_blocks L" using Nil by (simp add: mem_list_blocks)
    have "free_lists s ! k = 0"
      using fl.rel_null[OF phys_relD(3)[OF assms(1) Suc.prems]] Nil by simp
    note split = alloc_block_split[OF phys_relD(1)[OF assms(1)] k this]
    have "d = MAX_ORDER - Suc k" using Suc(2) by simp
    from Suc(1)[OF this] k consider
        (ok) i s' L' where "alloc_block st s (Suc k) = Inr (i, s')" "phys_rel st N s' L'"
          "spec_alloc (Suc k) (list_blocks L) (unat i) (list_blocks L')"
          "length (buddy_map s') = length (buddy_map s)"
      | (oom) "alloc_block st s (Suc k) = Inl (Message ''Out of physical memory'')"
          "\<forall>j l. Suc k \<le> l \<longrightarrow> (j, l) \<notin> list_blocks L" by auto
    then show ?thesis
    proof cases
      case ok
      from split_step[OF assms(1,2) k none ok(2,3)] obtain j s'' where
          "get_buddy_index i k = Inr j" "push_block st s' j k = Inr s''"
          "phys_rel st N s'' (L'(k := j # L' k))"
          "spec_alloc k (list_blocks L) (unat i) (list_blocks (L'(k := j # L' k)))"
          "length (buddy_map s'') = length (buddy_map s')" by blast
      with ok(1,4) split show ?thesis by auto
    next
      case oom
      then have "\<forall>j l. k \<le> l \<longrightarrow> (j, l) \<notin> list_blocks L" using none by (metis Suc_leI le_neq_implies_less)
      with oom(1) split show ?thesis by simp
    qed
  qed
qed

end

end
