(* ===== verification/Phys_Correct.thy ===== *)
theory Phys_Correct
  imports Phys_Refinement
begin

text \<open>
  Correctness of the public methods of \<open>PhysMemoryManager\<close> over both storage backends.

  \<open>free_blocks\<close> reads the set of free blocks off a concrete state (bitmap bits and the orders in
  memory); \<open>phys_inv\<close> says that the state represents a well-formed, merged set. Every method keeps
  the invariant, and its effect is stated on \<open>free_blocks\<close> and on the set of free pages.
\<close>

section \<open>The storage backends satisfy the trait's contract\<close>

sublocale address_window \<subseteq> inline: phys_storage "inline_storage base" "2 ^ (m - 12)"
proof
  show "(2::nat) ^ (m - 12) \<le> 2 ^ 52" using m_less by (intro power_increasing) simp_all
next
  fix i :: u64
  assume i: "unat i < 2 ^ (m - 12)"
  show "get_entry (inline_storage base) i \<noteq> 0"
    by (simp add: inline_storage_def phys_to_virt_nonzero)
  show "get_index (inline_storage base) (get_entry (inline_storage base) i) = i"
  proof (cases "12 \<le> m")
    case True
    have "(2::nat) ^ (m - 12) * 2 ^ 12 = 2 ^ m" using True by (metis le_add_diff_inverse2 power_add)
    then have lt: "unat i * 2 ^ 12 < 2 ^ m" using i by (metis mult_less_cancel2 zero_less_numeral zero_less_power)
    moreover have "(2::nat) ^ m < 2 ^ 64" using m_less by (intro power_strict_increasing) simp_all
    ultimately have u: "unat (push_bit 12 i) = unat i * 2 ^ 12"
      by (intro unat_push_bit) simp
    have "drop_bit 12 (push_bit 12 i) = i"
      by (simp add: word_unat_eq_iff[of _ i] unat_drop_bit u del: unat_eq_unat)
    with lt u show ?thesis by (simp add: inline_storage_def virt_phys_virt)
  next
    case False
    with i have "i = 0" by (simp add: unat_eq_zero)
    then show ?thesis using virt_phys_virt[of 0] by (simp add: inline_storage_def)
  qed
qed

lemma test_storage_laws:
  assumes "mem \<noteq> 0" "unat mem + 4096 * n < 2 ^ 64"
  shows "phys_storage (test_storage mem) n"
proof
  show "n \<le> 2 ^ 52" using assms(2) by simp
next
  fix i :: u64
  assume i: "unat i < n"
  then have u: "unat (push_bit 12 i) = unat i * 2 ^ 12" using assms(2) by (intro unat_push_bit) simp
  with i assms(2) have "unat (mem + push_bit 12 i) = unat mem + unat i * 2 ^ 12"
    by (subst unat_add_checked) simp_all
  moreover have "0 < unat mem" using assms(1) by (simp add: unat_gt_0)
  ultimately show "get_entry (test_storage mem) i \<noteq> 0"
    unfolding test_storage_def by (metis add_is_0 less_not_refl storage.select_convs(2) unsigned_0)
  have "drop_bit 12 (push_bit 12 i) = i"
    by (simp add: word_unat_eq_iff[of _ i] unat_drop_bit u del: unat_eq_unat)
  then show "get_index (test_storage mem) (get_entry (test_storage mem) i) = i"
    by (simp add: test_storage_def)
qed

interpretation test_backend: phys_storage "test_storage 0x10000000" "2 ^ 20"
  by (rule test_storage_laws) simp_all

section \<open>Abstraction\<close>

definition free_blocks :: "storage \<Rightarrow> phys_state \<Rightarrow> block set" where
  "free_blocks st s =
     {(j, k). map_bit (buddy_map s) j \<and> k = unat (fe_order (heap s (get_entry st (of_nat j))))}"

text \<open>\<open>n\<close> is the number of pages the storage backend can address.\<close>

definition phys_inv :: "storage \<Rightarrow> nat \<Rightarrow> phys_state \<Rightarrow> bool" where
  "phys_inv st n s \<longleftrightarrow>
     64 * length (buddy_map s) \<le> n \<and> (\<exists>L. phys_rel st (64 * length (buddy_map s)) s L)"

definition free_page_set :: "storage \<Rightarrow> phys_state \<Rightarrow> nat set" where
  "free_page_set st s = free_pages_of (free_blocks st s)"

lemma free_blocks_rel:
  assumes "phys_rel st N s L"
  shows "free_blocks st s = list_blocks L"
proof -
  have order: "fe_order (heap s (get_entry st (of_nat j))) = of_nat k" if "(j, k) \<in> list_blocks L" for j k
    using that phys_relD(4)[OF assms] by (auto simp: mem_list_blocks)
  have small: "k \<le> MAX_ORDER" if "(j, k) \<in> list_blocks L" for j k
    using that by (auto simp: mem_list_blocks)
  have of_nat_back: "unat (of_nat k :: u64) = k" if "k \<le> MAX_ORDER" for k
    using that by (simp add: unat_of_nat MAX_ORDER_def)
  show ?thesis
  proof (rule set_eqI, clarify)
    fix j k
    show "(j, k) \<in> free_blocks st s \<longleftrightarrow> (j, k) \<in> list_blocks L"
    proof
      assume "(j, k) \<in> free_blocks st s"
      then obtain l where l: "(j, l) \<in> list_blocks L" and k: "k = unat (fe_order (heap s (get_entry st (of_nat j))))"
        using phys_relD(5)[OF assms] by (auto simp: free_blocks_def)
      then show "(j, k) \<in> list_blocks L" using order[OF l] of_nat_back[OF small[OF l]] by simp
    next
      assume jk: "(j, k) \<in> list_blocks L"
      then show "(j, k) \<in> free_blocks st s"
        using order[OF jk] of_nat_back[OF small[OF jk]] phys_relD(5)[OF assms] by (auto simp: free_blocks_def)
    qed
  qed
qed

lemma phys_invD:
  assumes "phys_inv st n s"
  shows "blocks_wf (64 * length (buddy_map s)) (free_blocks st s)" "merged (free_blocks st s)"
    "64 * length (buddy_map s) \<le> n" "buddies_in_map (length (buddy_map s)) (free_blocks st s)"
    "length (free_lists s) = MAX_ORDER + 1"
  using assms phys_relD free_blocks_rel unfolding phys_inv_def by metis+

text \<open>The state that \<open>new\<close> starts from has no free block.\<close>

definition empty_state :: "nat \<Rightarrow> heap \<Rightarrow> phys_state" where
  "empty_state w h = \<lparr>free_lists = replicate (MAX_ORDER + 1) 0, buddy_map = replicate w 0, heap = h\<rparr>"

lemma buddy_map_empty_state [simp]: "buddy_map (empty_state w h) = replicate w 0"
  by (simp add: empty_state_def)

lemma empty_state_ok:
  assumes "64 * w \<le> n"
  shows "phys_inv st n (empty_state w h)" "free_blocks st (empty_state w h) = {}"
proof -
  have nobit: "\<not> map_bit (replicate w 0) j" for j by (auto simp: map_bit_def)
  have noblock: "list_blocks (\<lambda>_. []) = {}" by (simp add: list_blocks_def)
  have "phys_rel st (64 * w) (empty_state w h) (\<lambda>_. [])"
    using nobit noblock fl.rel_empty
    by (auto simp: phys_rel_def buddies_in_map_def empty_state_def simp del: replicate_Suc)
  then show "phys_inv st n (empty_state w h)" using assms by (auto simp: phys_inv_def empty_state_def)
  show "free_blocks st (empty_state w h) = {}" using nobit by (simp add: free_blocks_def empty_state_def)
qed

section \<open>Blocks\<close>

context phys_storage
begin

lemma free_block_correct:
  assumes inv: "phys_inv st n s" and k: "k \<le> MAX_ORDER" "2 ^ k dvd unat i"
    and range: "unat i + 2 ^ k \<le> 64 * length (buddy_map s)"
    and fresh: "block_pages (unat i) k \<inter> free_page_set st s = {}"
    and in_map: "merge_in_map (length (buddy_map s)) (free_blocks st s) (unat i) k"
  shows "\<exists>s'. free_block st s i k = Inr s' \<and> phys_inv st n s' \<and>
           free_blocks st s' = spec_free (free_blocks st s) (unat i) k \<and>
           free_page_set st s' = free_page_set st s \<union> block_pages (unat i) k \<and>
           length (buddy_map s') = length (buddy_map s)"
proof -
  obtain L where rel: "phys_rel st (64 * length (buddy_map s)) s L" and n: "64 * length (buddy_map s) \<le> n"
    using inv by (auto simp: phys_inv_def)
  note fb = free_blocks_rel[OF rel]
  obtain s' L' where s': "free_block st s i k = Inr s'" "phys_rel st (64 * length (buddy_map s)) s' L'"
      "list_blocks L' = spec_free (list_blocks L) (unat i) k" "length (buddy_map s') = length (buddy_map s)"
    using free_block_refines[OF rel n k range] fresh in_map fb by (auto simp: free_page_set_def)
  have "free_pages_of (spec_free (free_blocks st s) (unat i) k) = free_page_set st s \<union> block_pages (unat i) k"
    using spec_free_correct[OF phys_invD(1,2)[OF inv] k range] fresh by (simp add: free_page_set_def)
  then show ?thesis
    using s' n free_blocks_rel[OF s'(2)] fb by (auto simp: phys_inv_def free_page_set_def)
qed

lemma free_block_out_of_bitmap:
  assumes "phys_inv st n s" "k \<le> MAX_ORDER"
    and "\<not> merge_in_map (length (buddy_map s)) (free_blocks st s) (unat i) k"
  shows "free_block st s i k = Inl IndexOutOfBounds"
  using assms free_block_panics free_blocks_rel unfolding phys_inv_def by metis

lemma alloc_block_cases:
  assumes inv: "phys_inv st n s" and k: "k \<le> MAX_ORDER"
  obtains (got) i s' where "alloc_block st s k = Inr (i, s')" "phys_inv st n s'"
      "spec_alloc k (free_blocks st s) (unat i) (free_blocks st s')"
      "length (buddy_map s') = length (buddy_map s)"
    | (oom) "alloc_block st s k = Inl (Message ''Out of physical memory'')"
      "\<forall>j l. k \<le> l \<longrightarrow> (j, l) \<notin> free_blocks st s"
proof -
  obtain L where rel: "phys_rel st (64 * length (buddy_map s)) s L" and n: "64 * length (buddy_map s) \<le> n"
    using inv by (auto simp: phys_inv_def)
  from alloc_block_refines[OF rel n k] consider
      (1) i s' L' where "alloc_block st s k = Inr (i, s')" "phys_rel st (64 * length (buddy_map s)) s' L'"
        "spec_alloc k (list_blocks L) (unat i) (list_blocks L')" "length (buddy_map s') = length (buddy_map s)"
    | (2) "alloc_block st s k = Inl (Message ''Out of physical memory'')"
        "\<forall>j l. k \<le> l \<longrightarrow> (j, l) \<notin> list_blocks L" by blast
  then show ?thesis
  proof cases
    case 1
    then have "phys_inv st n s'" using n by (auto simp: phys_inv_def)
    with 1 show ?thesis using got free_blocks_rel[OF rel] free_blocks_rel[OF 1(2)] by metis
  next
    case 2
    then show ?thesis using oom free_blocks_rel[OF rel] by metis
  qed
qed

text \<open>What a successful allocation gives.\<close>

lemma alloc_block_correct:
  assumes inv: "phys_inv st n s" and k: "k \<le> MAX_ORDER" and res: "alloc_block st s k = Inr (i, s')"
  shows "phys_inv st n s'" "spec_alloc k (free_blocks st s) (unat i) (free_blocks st s')"
    "length (buddy_map s') = length (buddy_map s)"
    "2 ^ k dvd unat i" "unat i + 2 ^ k \<le> 64 * length (buddy_map s)"
    "block_pages (unat i) k \<subseteq> free_page_set st s"
    "free_page_set st s' = free_page_set st s - block_pages (unat i) k"
proof -
  show *: "phys_inv st n s'" "spec_alloc k (free_blocks st s) (unat i) (free_blocks st s')"
    "length (buddy_map s') = length (buddy_map s)"
    by (cases rule: alloc_block_cases[OF inv k]; use res in auto)+
  from spec_alloc_correct[OF *(2) phys_invD(1,2)[OF inv]]
  show "2 ^ k dvd unat i" "unat i + 2 ^ k \<le> 64 * length (buddy_map s)"
    "block_pages (unat i) k \<subseteq> free_page_set st s"
    "free_page_set st s' = free_page_set st s - block_pages (unat i) k"
    by (simp_all add: free_page_set_def)
qed

text \<open>An allocation fails only when no aligned run of that many pages is free.\<close>

lemma alloc_block_succeeds_iff:
  assumes inv: "phys_inv st n s" and k: "k \<le> MAX_ORDER"
  shows "(\<exists>i s'. alloc_block st s k = Inr (i, s')) \<longleftrightarrow>
           (\<exists>i. 2 ^ k dvd i \<and> block_pages i k \<subseteq> free_page_set st s)"
    and "(\<nexists>i. 2 ^ k dvd i \<and> block_pages i k \<subseteq> free_page_set st s) \<Longrightarrow>
           alloc_block st s k = Inl (Message ''Out of physical memory'')"
proof -
  note run = spec_alloc_iff_run[OF phys_invD(1,2)[OF inv] k, folded free_page_set_def]
  show iff: "(\<exists>i s'. alloc_block st s k = Inr (i, s')) \<longleftrightarrow>
      (\<exists>i. 2 ^ k dvd i \<and> block_pages i k \<subseteq> free_page_set st s)"
  proof (rule alloc_block_cases[OF inv k])
    fix i s' assume "alloc_block st s k = Inr (i, s')" "spec_alloc k (free_blocks st s) (unat i) (free_blocks st s')"
    then show ?thesis using run by blast
  next
    assume oom: "alloc_block st s k = Inl (Message ''Out of physical memory'')"
      "\<forall>j l. k \<le> l \<longrightarrow> (j, l) \<notin> free_blocks st s"
    then have "\<not> (\<exists>i B'. spec_alloc k (free_blocks st s) i B')" using spec_alloc_larger by blast
    with run oom(1) show ?thesis by simp
  qed
  show "(\<nexists>i. 2 ^ k dvd i \<and> block_pages i k \<subseteq> free_page_set st s) \<Longrightarrow>
      alloc_block st s k = Inl (Message ''Out of physical memory'')"
    by (cases rule: alloc_block_cases[OF inv k]) (use iff in auto)
qed

text \<open>Freeing an allocated block does not panic and restores the free blocks exactly.\<close>

lemma alloc_free_block:
  assumes inv: "phys_inv st n s" and k: "k \<le> MAX_ORDER" and res: "alloc_block st s k = Inr (i, s')"
  shows "\<exists>s''. free_block st s' i k = Inr s'' \<and> phys_inv st n s'' \<and> free_blocks st s'' = free_blocks st s"
proof -
  note a = alloc_block_correct[OF assms]
  have "merge_in_map (length (buddy_map s')) (free_blocks st s') (unat i) k"
    using spec_alloc_buddies[OF a(2) phys_invD(1,2)[OF inv] order.refl phys_invD(4)[OF inv]] a(3) by simp
  from free_block_correct[OF a(1) k a(4) _ _ this] a(3,5,7)
  obtain s'' where "free_block st s' i k = Inr s''" "phys_inv st n s''"
      "free_blocks st s'' = spec_free (free_blocks st s') (unat i) k" by auto
  with spec_free_alloc[OF a(2) phys_invD(1,2)[OF inv] k] show ?thesis by auto
qed

end

end
