(* ===== verification/Phys_Methods.thy ===== *)
theory Phys_Methods
  imports Phys_Correct
begin

text \<open>
  The public methods of \<open>PhysMemoryManager\<close> and its initialization, on top of the block operations:
  \<open>get_size_order\<close> rounds up to a power of two, \<open>add_region\<close> frees a region of any position and length,
  \<open>new\<close> makes exactly the free segments of the memory map available, less the bitmap's own pages.
  The locale \<open>page_source\<close> is the contract that the users of the allocator rely on.
\<close>

section \<open>Sizes\<close>

lemma get_size_order_zero: "get_size_order 0 = Inl Overflow"
  by (simp add: get_size_order_def)

lemma get_size_order_correct:
  assumes "count \<noteq> 0"
  obtains k where "get_size_order count = Inr k" "unat count \<le> 2 ^ k" "2 ^ k < 2 * unat count"
proof -
  let ?o = "63 - leading_zeros count"
  note log = leading_zeros_log[OF assms]
  have o: "?o < 64" by simp
  have bit: "bit count ?o"
  proof -
    have "odd (unat count div 2 ^ ?o)"
    proof -
      have "unat count div 2 ^ ?o = 1"
        using log(2,3) by (intro div_nat_eqI) simp_all
      then show ?thesis by simp
    qed
    then have "bit (unat count) ?o" by (simp add: bit_iff_odd)
    then show ?thesis by (simp add: bit_unsigned_iff)
  qed
  have "count AND 2 ^ ?o = 2 ^ ?o"
    by (rule bit_word_eqI) (use bit in \<open>auto simp: bit_and_iff bit_exp_iff\<close>)
  then have eq: "get_size_order count = Inr (if 2 ^ ?o \<noteq> count then ?o + 1 else ?o)"
    using log(1) o by (simp add: get_size_order_def checked_shl_def Let_def)
  have p: "unat ((2::u64) ^ ?o) = 2 ^ ?o" by (rule unat_power2) simp
  show ?thesis
  proof (cases "2 ^ ?o = count")
    case True
    with p have "unat count = 2 ^ ?o" by simp
    with True that[of ?o] eq show ?thesis by simp
  next
    case False
    with p have "unat count \<noteq> 2 ^ ?o" by (metis unat_eq_unat)
    with log(2,3) False that[of "?o + 1"] eq show ?thesis by simp
  qed
qed

lemma get_size_order_unique:
  assumes "get_size_order count = Inr k"
  shows "unat count \<le> 2 ^ k" "2 ^ k < 2 * unat count"
proof -
  have "count \<noteq> 0" using assms get_size_order_zero by auto
  then show "unat count \<le> 2 ^ k" "2 ^ k < 2 * unat count"
    using get_size_order_correct[of count] assms by (metis Inr_inject)+
qed

lemma get_size_order_small:
  assumes "0 < unat count" "unat count \<le> 256"
  shows "\<exists>k\<le>MAX_ORDER. get_size_order count = Inr k"
proof -
  have "count \<noteq> 0" using assms(1) by auto
  then obtain k where k: "get_size_order count = Inr k" "2 ^ k < 2 * unat count"
    using get_size_order_correct by metis
  have "(2::nat) ^ k < 2 ^ 9" using k(2) assms(2) by simp
  then have "k < 9" using power_strict_increasing_iff[of "2::nat" k 9] by simp
  with k(1) show ?thesis by (auto simp: MAX_ORDER_def)
qed

section \<open>Regions\<close>

text \<open>\<open>covered w p\<close>: a bitmap of \<open>w\<close> words covers the whole 256-page superblock of page \<open>p\<close>.\<close>

definition covered :: "nat \<Rightarrow> nat \<Rightarrow> bool" where
  "covered w p \<longleftrightarrow> 256 * (p div 256 + 1) \<le> 64 * w"

context phys_storage
begin

lemma region_order:
  fixes index count :: u64
  assumes "count \<noteq> 0"
  defines "k \<equiv> min (min (trailing_zeros index) (63 - leading_zeros count)) MAX_ORDER"
  shows "k \<le> MAX_ORDER" "2 ^ k dvd unat index" "2 ^ k \<le> unat count" "unat (push_bit k (1 :: u64)) = 2 ^ k"
proof -
  show le: "k \<le> MAX_ORDER" and "2 ^ k dvd unat index" by (simp_all add: k_def trailing_zeros_aligned)
  have "(2::nat) ^ k \<le> 2 ^ (63 - leading_zeros count)" by (intro power_increasing) (simp_all add: k_def)
  then show "2 ^ k \<le> unat count" using leading_zeros_log(2)[OF assms(1)] by (rule le_trans)
  have "k < LENGTH(64)" using le by (simp add: MAX_ORDER_def)
  then show "unat (push_bit k (1 :: u64)) = 2 ^ k" by (rule unat_push_bit_1)
qed

text \<open>
  One round of the loop: a block at the front of the region is freed and the rest remains, or the look-up of a
  buddy beyond the bitmap panics.
\<close>

lemma add_region_step:
  assumes inv: "phys_inv st n s" and lim: "unat index + unat count \<le> 64 * length (buddy_map s)"
    and fresh: "{unat index..<unat index + unat count} \<inter> free_page_set st s = {}" and "count \<noteq> 0"
  obtains (panic) "add_region_loop st s index count = Inl IndexOutOfBounds" "\<not> covered (length (buddy_map s)) (unat index)"
  | (step) k s' index' count' where
    "add_region_loop st s index count = add_region_loop st s' index' count'" "phys_inv st n s'"
    "free_page_set st s' = free_page_set st s \<union> block_pages (unat index) k" "length (buddy_map s') = length (buddy_map s)"
    "unat index' = unat index + 2 ^ k" "unat count' = unat count - 2 ^ k" "2 ^ k \<le> unat count"
proof -
  define k where "k = min (min (trailing_zeros index) (63 - leading_zeros count)) MAX_ORDER"
  note k = region_order[OF assms(4), of index, folded k_def]
  show ?thesis
  proof (cases "merge_in_map (length (buddy_map s)) (free_blocks st s) (unat index) k")
    case False
    then have "add_region_loop st s index count = Inl IndexOutOfBounds"
      using assms(4) free_block_out_of_bitmap[OF inv k(1) False]
      by (subst add_region_loop.simps) (simp add: Let_def k_def[symmetric] del: push_bit_of_1)
    moreover have "\<not> covered (length (buddy_map s)) (unat index)"
      using False merge_in_map_superblock[OF k(2)] by (auto simp: covered_def)
    ultimately show ?thesis by (rule panic)
  next
    case True
    have "block_pages (unat index) k \<subseteq> {unat index..<unat index + unat count}" using k(3) by (auto simp: block_pages_def)
    then have new: "block_pages (unat index) k \<inter> free_page_set st s = {}" using fresh by blast
    from free_block_correct[OF inv k(1,2) _ new True] lim k(3)
    obtain s' where s': "free_block st s index k = Inr s'" "phys_inv st n s'"
        "free_page_set st s' = free_page_set st s \<union> block_pages (unat index) k"
        "length (buddy_map s') = length (buddy_map s)" by auto
    have "unat index + unat count \<le> 2 ^ 52" using inv lim n_bound phys_invD(3) by (meson le_trans)
    then have add: "checked_add index (push_bit k 1) = Inr (index + push_bit k 1)" "unat (index + push_bit k 1) = unat index + 2 ^ k"
      using k(3,4) by (simp_all add: checked_add_def unat_add_checked del: push_bit_of_1)
    have sub: "checked_sub count (push_bit k 1) = Inr (count - push_bit k 1)" "unat (count - push_bit k 1) = unat count - 2 ^ k"
      using k(3,4) by (simp_all add: checked_sub_def word_le_nat_alt unat_sub_checked del: push_bit_of_1)
    have "add_region_loop st s index count = add_region_loop st s' (index + push_bit k 1) (count - push_bit k 1)"
      using assms(4) s'(1) add(1) sub(1) by (subst add_region_loop.simps) (simp add: Let_def k_def[symmetric] del: push_bit_of_1)
    from step[OF this s'(2-4) add(2) sub(2) k(3)] show ?thesis .
  qed
qed

lemma add_region_loop_outcome:
  assumes "phys_inv st n s" "unat index + unat count \<le> 64 * length (buddy_map s)"
    and "{unat index..<unat index + unat count} \<inter> free_page_set st s = {}"
  shows "add_region_loop st s index count = Inl IndexOutOfBounds \<and>
           (\<exists>p\<in>{unat index..<unat index + unat count}. \<not> covered (length (buddy_map s)) p) \<or>
         (\<exists>s'. add_region_loop st s index count = Inr s' \<and> phys_inv st n s' \<and>
           free_page_set st s' = free_page_set st s \<union> {unat index..<unat index + unat count} \<and>
           length (buddy_map s') = length (buddy_map s))"
  using assms
proof (induction "unat count" arbitrary: s index count rule: less_induct)
  case less
  show ?case
  proof (cases "count = 0")
    case True
    then show ?thesis using less.prems(1) by (intro disjI2) (subst add_region_loop.simps, simp)
  next
    case False
    from less.prems False show ?thesis
    proof (cases rule: add_region_step)
      case panic
      with False show ?thesis by (auto simp: unat_gt_0)
    next
      case (step k s' index' count')
      let ?rest = "{unat index'..<unat index' + unat count'}"
      have ends: "unat index' + unat count' = unat index + unat count" using step(5-7) by simp
      have parts: "?rest \<subseteq> {unat index..<unat index + unat count}" "?rest \<inter> block_pages (unat index) k = {}"
          "block_pages (unat index) k \<union> ?rest = {unat index..<unat index + unat count}"
        using ends step(5,7) by (auto simp: block_pages_def)
      have "unat count' < unat count" using step(6,7) zero_less_power[of "2::nat" k] by linarith
      moreover have "unat index' + unat count' \<le> 64 * length (buddy_map s')" using less.prems(2) ends step(4) by simp
      moreover have "?rest \<inter> free_page_set st s' = {}" using less.prems(3) step(3) parts(1,2) by blast
      ultimately have "add_region_loop st s' index' count' = Inl IndexOutOfBounds \<and> (\<exists>p\<in>?rest. \<not> covered (length (buddy_map s')) p) \<or>
          (\<exists>t. add_region_loop st s' index' count' = Inr t \<and> phys_inv st n t \<and>
            free_page_set st t = free_page_set st s' \<union> ?rest \<and> length (buddy_map t) = length (buddy_map s'))"
        by (rule less.hyps[OF _ step(2)])
      then show ?thesis using step(1,3,4) parts by (auto simp: Un_assoc)
    qed
  qed
qed

end

section \<open>Methods under the lock\<close>

definition manager_inv :: "storage \<Rightarrow> nat \<Rightarrow> phys_manager \<Rightarrow> bool" where
  "manager_inv st n m \<longleftrightarrow> \<not> locked (pm_lock m) \<and> phys_inv st n (pm_state m)"

definition available :: "storage \<Rightarrow> phys_manager \<Rightarrow> nat set" where
  "available st m = free_page_set st (pm_state m)"

lemma guarded_free:
  "\<not> locked (pm_lock m) \<Longrightarrow>
     guarded f m = and_then (f (pm_state m)) (\<lambda>(x, s). Inr (x, m\<lparr>pm_state := s\<rparr>))"
  by (cases m; cases "f (pm_state m)") (auto simp: guarded_def with_guard_free)

lemma guarded_held: "locked (pm_lock m) \<Longrightarrow> guarded f m = Inl Hang"
  by (simp add: guarded_def with_guard_held)

lemma manager_inv_update:
  "manager_inv st n m \<Longrightarrow> phys_inv st n s \<Longrightarrow> manager_inv st n (m\<lparr>pm_state := s\<rparr>)"
  by (simp add: manager_inv_def)

lemma manager_invD:
  "manager_inv st n m \<Longrightarrow> \<not> locked (pm_lock m)" "manager_inv st n m \<Longrightarrow> phys_inv st n (pm_state m)"
  by (simp_all add: manager_inv_def)

text \<open>The pages of the allocation of \<open>count\<close> pages at address \<open>a\<close>: \<open>count\<close> rounded up to a power of two.\<close>

definition allocation_pages :: "u64 \<Rightarrow> u64 \<Rightarrow> nat set" where
  "allocation_pages a count =
     (case get_size_order count of Inl _ \<Rightarrow> {} | Inr k \<Rightarrow> block_pages (unat (drop_bit 12 a)) k)"

lemma get_size_order_one [simp]: "get_size_order 1 = Inr 0"
proof -
  obtain k where "get_size_order 1 = Inr k" "2 ^ k < 2 * unat (1::u64)"
    using get_size_order_correct[of 1] by auto
  moreover have "\<not> (2::nat) ^ k < 2" if "0 < k" for k :: nat
    using that power_increasing[of 1 k "2::nat"] by simp
  ultimately show ?thesis by (cases "k = 0") auto
qed

context phys_storage
begin

lemma block_address:
  fixes i :: u64
  assumes "phys_inv st n s" "unat i + 2 ^ k \<le> 64 * length (buddy_map s)"
  shows "drop_bit 12 (push_bit 12 i) = i" "unat (push_bit 12 i) = unat i * 4096"
proof -
  have "unat i + 2 ^ k \<le> n" using assms phys_invD(3) le_trans by blast
  then have "unat i + 2 ^ k \<le> 2 ^ 52" using n_bound by (rule le_trans)
  then have "unat i < 2 ^ 52" using zero_less_power[of "2::nat" k] by linarith
  then show u: "unat (push_bit 12 i) = unat i * 4096" using unat_push_bit[of i 12] by simp
  show "drop_bit 12 (push_bit 12 i) = i"
    by (simp add: word_unat_eq_iff[of _ i] unat_drop_bit u del: unat_eq_unat)
qed

lemma alloc_linear_pagesE:
  assumes inv: "manager_inv st n m" and res: "alloc_linear_pages st count m = Inr (a, m')"
  obtains k i s' where "get_size_order count = Inr k" "k \<le> MAX_ORDER"
    "alloc_block st (pm_state m) k = Inr (i, s')" "a = push_bit 12 i" "m' = m\<lparr>pm_state := s'\<rparr>"
proof -
  from res obtain k i s' where k: "get_size_order count = Inr k"
    and al: "alloc_block st (pm_state m) k = Inr (i, s')"
    and a: "a = push_bit 12 i" and m': "m' = m\<lparr>pm_state := s'\<rparr>"
    by (auto simp: alloc_linear_pages_def guarded_free[OF manager_invD(1)[OF inv]] sum_simps)
  have "k \<le> MAX_ORDER"
  proof (rule ccontr)
    assume "\<not> k \<le> MAX_ORDER"
    then have "alloc_block st (pm_state m) k = Inl IndexOutOfBounds"
      using phys_invD(5)[OF manager_invD(2)[OF inv]] by (subst alloc_block.simps) simp
    with al show False by simp
  qed
  with that k al a m' show ?thesis by blast
qed

text \<open>
  \<open>alloc_linear_pages\<close> on every branch: the size is out of range, memory is exhausted, or the
  result is a fresh, aligned run of pages.
\<close>

lemma alloc_linear_pages_correct:
  assumes inv: "manager_inv st n m" and res: "alloc_linear_pages st count m = Inr (a, m')"
  shows "manager_inv st n m' \<and> allocation_pages a count \<subseteq> available st m \<and>
           available st m' = available st m - allocation_pages a count \<and>
           unat count \<le> card (allocation_pages a count) \<and> card (allocation_pages a count) < 2 * unat count \<and>
           unat a = 4096 * unat (drop_bit 12 a) \<and> card (allocation_pages a count) dvd unat (drop_bit 12 a)"
proof -
  let ?s = "pm_state m"
  note lock = manager_invD(1)[OF inv] and pinv = manager_invD(2)[OF inv]
  obtain k i s' where k: "get_size_order count = Inr k" and k8: "k \<le> MAX_ORDER"
    and al: "alloc_block st ?s k = Inr (i, s')" and a: "a = push_bit 12 i" and m': "m' = m\<lparr>pm_state := s'\<rparr>"
    using alloc_linear_pagesE[OF inv res] by metis
  note c = alloc_block_correct[OF pinv k8 al]
  note addr = block_address[OF pinv c(5)]
  have pages: "allocation_pages a count = block_pages (unat i) k"
    by (simp add: allocation_pages_def k a addr(1))
  have card: "card (allocation_pages a count) = 2 ^ k" by (simp add: pages block_pages_def)
  have "unat a = 4096 * unat (drop_bit 12 a)" using addr by (simp add: a)
  moreover have "2 ^ k dvd unat (drop_bit 12 a)" using c(4) addr(1) by (simp add: a)
  ultimately show ?thesis
    using c manager_inv_update[OF inv c(1)] get_size_order_unique[OF k] card pages
    by (simp add: m' available_def)
qed

lemma alloc_linear_pages_succeeds:
  assumes inv: "manager_inv st n m" and k: "get_size_order count = Inr k" "k \<le> MAX_ORDER"
  shows "(\<exists>a m'. alloc_linear_pages st count m = Inr (a, m')) \<longleftrightarrow>
           (\<exists>i. 2 ^ k dvd i \<and> block_pages i k \<subseteq> available st m)"
proof -
  note g = guarded_free[OF manager_invD(1)[OF inv]]
  have "(\<exists>a m'. alloc_linear_pages st count m = Inr (a, m')) \<longleftrightarrow> (\<exists>i s'. alloc_block st (pm_state m) k = Inr (i, s'))"
    by (cases "alloc_block st (pm_state m) k") (auto simp: alloc_linear_pages_def g k(1))
  with alloc_block_succeeds_iff(1)[OF manager_invD(2)[OF inv] k(2)] show ?thesis by (simp add: available_def)
qed

text \<open>Freeing what was allocated restores exactly the free blocks from before.\<close>

lemma alloc_free_linear_pages:
  assumes inv: "manager_inv st n m" and res: "alloc_linear_pages st count m = Inr (a, m')"
  shows "\<exists>m''. free_linear_pages st a count m' = Inr ((), m'') \<and> manager_inv st n m'' \<and>
           free_blocks st (pm_state m'') = free_blocks st (pm_state m)"
proof -
  let ?s = "pm_state m"
  note lock = manager_invD(1)[OF inv] and pinv = manager_invD(2)[OF inv]
  obtain k i s' where k: "get_size_order count = Inr k" and k8: "k \<le> MAX_ORDER"
    and al: "alloc_block st ?s k = Inr (i, s')" and a: "a = push_bit 12 i" and m': "m' = m\<lparr>pm_state := s'\<rparr>"
    using alloc_linear_pagesE[OF inv res] by metis
  note addr = block_address(1)[OF pinv alloc_block_correct(5)[OF pinv k8 al]]
  obtain s'' where s'': "free_block st s' i k = Inr s''" "phys_inv st n s''" "free_blocks st s'' = free_blocks st ?s"
    using alloc_free_block[OF pinv k8 al] by blast
  have "\<not> locked (pm_lock m')" using lock by (simp add: m')
  then have "free_linear_pages st a count m' = Inr ((), m'\<lparr>pm_state := s''\<rparr>)"
    using s''(1) by (simp add: free_linear_pages_def guarded_free k a addr m' ret_unit_def)
  then show ?thesis using s'' manager_inv_update[OF inv s''(2)] by (simp add: m')
qed

text \<open>Freeing pages that are not free, where the bitmap covers their superblock.\<close>

lemma free_linear_pages_correct:
  assumes inv: "manager_inv st n m" and k: "get_size_order count = Inr k" "k \<le> MAX_ORDER"
    and i: "2 ^ k dvd unat (drop_bit 12 a)" "unat (drop_bit 12 a) + 2 ^ k \<le> 64 * length (buddy_map (pm_state m))"
    and fresh: "allocation_pages a count \<inter> available st m = {}"
    and cov: "covered (length (buddy_map (pm_state m))) (unat (drop_bit 12 a))"
  shows "\<exists>m'. free_linear_pages st a count m = Inr ((), m') \<and> manager_inv st n m' \<and>
           available st m' = available st m \<union> allocation_pages a count"
proof -
  note lock = manager_invD(1)[OF inv] and pinv = manager_invD(2)[OF inv]
  have pages: "allocation_pages a count = block_pages (unat (drop_bit 12 a)) k"
    by (simp add: allocation_pages_def k)
  have "merge_in_map (length (buddy_map (pm_state m))) (free_blocks st (pm_state m)) (unat (drop_bit 12 a)) k"
    using merge_in_map_superblock[OF i(1)] cov by (simp add: covered_def)
  from free_block_correct[OF pinv k(2) i _ this] fresh
  obtain s' where "free_block st (pm_state m) (drop_bit 12 a) k = Inr s'" "phys_inv st n s'"
      "free_page_set st s' = free_page_set st (pm_state m) \<union> block_pages (unat (drop_bit 12 a)) k"
    by (auto simp: available_def pages)
  then show ?thesis
    using manager_inv_update[OF inv] by (simp add: free_linear_pages_def guarded_free[OF lock] k ret_unit_def available_def pages)
qed

lemma alloc_page_linear: "\<not> locked (pm_lock m) \<Longrightarrow> alloc_page st m = alloc_linear_pages st 1 m"
  by (simp add: alloc_page_def alloc_linear_pages_def guarded_free)

lemma free_page_linear: "\<not> locked (pm_lock m) \<Longrightarrow> free_page st a m = free_linear_pages st a 1 m"
  by (simp add: free_page_def free_linear_pages_def guarded_free)

end

section \<open>The contract for users of the allocator\<close>

fun alloc_seq :: "(u64 \<Rightarrow> 'm \<Rightarrow> (u64 \<times> 'm) res) \<Rightarrow> u64 list \<Rightarrow> 'm \<Rightarrow> (u64 list \<times> 'm) res" where
  "alloc_seq alloc [] m = Inr ([], m)"
| "alloc_seq alloc (c # cs) m =
     and_then (alloc c m) (\<lambda>(a, m1). and_then (alloc_seq alloc cs m1) (\<lambda>(as, m2). Inr (a # as, m2)))"

fun pairwise_disjoint :: "'a set list \<Rightarrow> bool" where
  "pairwise_disjoint [] = True"
| "pairwise_disjoint (A # As) = ((\<forall>B\<in>set As. A \<inter> B = {}) \<and> pairwise_disjoint As)"

locale page_source =
  fixes inv :: "'m \<Rightarrow> bool" and avail :: "'m \<Rightarrow> nat set"
    and alloc :: "u64 \<Rightarrow> 'm \<Rightarrow> (u64 \<times> 'm) res" and pages :: "u64 \<Rightarrow> u64 \<Rightarrow> nat set"
  assumes alloc_inv: "inv m \<Longrightarrow> alloc c m = Inr (a, m') \<Longrightarrow> inv m'"
    and alloc_sub: "inv m \<Longrightarrow> alloc c m = Inr (a, m') \<Longrightarrow> pages a c \<subseteq> avail m"
    and alloc_avail: "inv m \<Longrightarrow> alloc c m = Inr (a, m') \<Longrightarrow> avail m' = avail m - pages a c"
begin

text \<open>Allocations made one after the other never overlap, and come out of what was available.\<close>

lemma alloc_seq_disjoint:
  assumes "inv m" "alloc_seq alloc cs m = Inr (as, m')"
  shows "inv m' \<and> length as = length cs \<and> pairwise_disjoint (map2 pages as cs) \<and>
         \<Union> (set (map2 pages as cs)) \<subseteq> avail m \<and> avail m' = avail m - \<Union> (set (map2 pages as cs))"
  using assms
proof (induction cs arbitrary: m as)
  case Nil
  then show ?case by simp
next
  case (Cons c cs)
  from Cons.prems(2) obtain a m1 as' where a: "alloc c m = Inr (a, m1)"
    and as: "alloc_seq alloc cs m1 = Inr (as', m')" "as = a # as'"
    by (auto simp: sum_simps)
  note one = alloc_inv[OF Cons.prems(1) a] alloc_sub[OF Cons.prems(1) a] alloc_avail[OF Cons.prems(1) a]
  note IH = Cons.IH[OF one(1) as(1)]
  then have "\<forall>B\<in>set (map2 pages as' cs). pages a c \<inter> B = {}" using one(3) by blast
  with IH one show ?case unfolding as(2) by auto
qed

end

context phys_storage
begin

lemma page_source: "page_source (manager_inv st n) (available st) (alloc_linear_pages st) allocation_pages"
  by unfold_locales (use alloc_linear_pages_correct in blast)+

lemma alloc_pages_seq:
  assumes "\<not> locked (pm_lock m)"
  shows "alloc_pages st len m = alloc_seq (alloc_linear_pages st) (replicate len 1) m"
proof -
  have "and_then (alloc_pages_loop st len (pm_state m)) (\<lambda>(x, s). Inr (x, m\<lparr>pm_state := s\<rparr>)) =
      alloc_seq (alloc_linear_pages st) (replicate len 1) m" if "\<not> locked (pm_lock m)" for m
    using that
  proof (induction len arbitrary: m)
    case 0
    then show ?case by simp
  next
    case (Suc len)
    show ?case
    proof (cases "alloc_block st (pm_state m) 0")
      case (Inl e)
      with Suc.prems show ?thesis by (simp add: alloc_linear_pages_def guarded_free)
    next
      case (Inr r)
      then obtain i s where r: "alloc_block st (pm_state m) 0 = Inr (i, s)" by (cases r) auto
      have one: "alloc_linear_pages st 1 m = Inr (push_bit 12 i, m\<lparr>pm_state := s\<rparr>)"
        using r Suc.prems by (simp add: alloc_linear_pages_def guarded_free)
      have "\<not> locked (pm_lock (m\<lparr>pm_state := s\<rparr>))" using Suc.prems by simp
      from Suc.IH[OF this, symmetric] one r show ?thesis
        by (cases "alloc_pages_loop st len s") (auto simp: split_beta)
    qed
  qed
  with assms show ?thesis by (simp add: alloc_pages_def guarded_free)
qed

lemma free_pages_seq:
  assumes "\<not> locked (pm_lock m)"
  shows "free_pages st as m =
    and_then (for_each as (\<lambda>a m. and_then (free_linear_pages st a 1 m) (\<lambda>(_, m'). Inr m')) m) (\<lambda>m'. Inr ((), m'))"
proof -
  have "and_then (for_each as (\<lambda>a s. free_block st s (drop_bit 12 a) 0) (pm_state m)) (\<lambda>s. Inr (m\<lparr>pm_state := s\<rparr>)) =
      for_each as (\<lambda>a m. and_then (free_linear_pages st a 1 m) (\<lambda>(_, m'). Inr m')) m" if "\<not> locked (pm_lock m)" for m
    using that
  proof (induction as arbitrary: m)
    case (Cons a as)
    show ?case
    proof (cases "free_block st (pm_state m) (drop_bit 12 a) 0")
      case (Inr s)
      have "\<not> locked (pm_lock (m\<lparr>pm_state := s\<rparr>))" using Cons.prems by simp
      from Cons.IH[OF this] Inr Cons.prems show ?thesis
        by (simp add: free_linear_pages_def guarded_free ret_unit_def)
    qed (use Cons.prems in \<open>simp add: free_linear_pages_def guarded_free ret_unit_def\<close>)
  qed simp
  from this[OF assms] show ?thesis using assms
    by (cases "for_each as (\<lambda>a s. free_block st s (drop_bit 12 a) 0) (pm_state m)")
      (auto simp: free_pages_def guarded_free ret_unit_def dest: sym)
qed

end

interpretation kernel_pages: page_source "manager_inv (inline_storage 0xFFFFFF8000000000) (2 ^ (39 - 12))"
  "available (inline_storage 0xFFFFFF8000000000)" "alloc_linear_pages (inline_storage 0xFFFFFF8000000000)"
  allocation_pages
  by (rule win512.inline.page_source)

end
