(* ===== verification/Phys_Init.thy ===== *)
theory Phys_Init
  imports Phys_Methods
begin

text \<open>
  Initialization of \<open>PhysMemoryManager\<close>: \<open>new\<close> finds the highest address, takes the bitmap out of the
  first suitable free segment and frees the free segments one by one. On a well-formed memory map
  the manager it returns has exactly the free segments available, less the pages of the bitmap.
\<close>

section \<open>The highest address\<close>

definition segment_limit :: "memory_segment \<Rightarrow> nat" where
  "segment_limit e = unat (seg_start e) + 4096 * unat (seg_page_count e)"

lemma segment_end_Inr:
  assumes "segment_limit e < 2 ^ 64"
  shows "\<exists>a. segment_end e = Inr a \<and> unat a = segment_limit e"
proof -
  have m: "unat (seg_page_count e) * unat (4096 :: u64) < 2 ^ LENGTH(64)"
    using assms by (simp add: segment_limit_def)
  note p = unat_mul_checked[OF m]
  have a: "unat (seg_start e) + unat (seg_page_count e * 4096) < 2 ^ LENGTH(64)"
    using assms p by (simp add: segment_limit_def mult.commute)
  show ?thesis
    using m a p unat_add_checked[OF a]
    by (simp add: segment_end_def checked_mul_def checked_add_def segment_limit_def)
qed

lemma max_end_correct:
  assumes "\<forall>e\<in>set mmap. segment_limit e < 2 ^ 64" "mmap \<noteq> []"
  shows "\<exists>a. max_end mmap = Inr (Some a) \<and> unat a = Max (segment_limit ` set mmap)"
  using assms
proof (induction mmap)
  case Nil
  then show ?case by simp
next
  case (Cons e es)
  then obtain a where a: "segment_end e = Inr a" "unat a = segment_limit e"
    using segment_end_Inr by fastforce
  show ?case
  proof (cases "es = []")
    case True
    with a show ?thesis by simp
  next
    case False
    with Cons obtain b where b: "max_end es = Inr (Some b)" "unat b = Max (segment_limit ` set es)" by auto
    have "unat (max a b) = max (unat a) (unat b)" by (simp add: max_def word_le_nat_alt)
    with a b False show ?thesis by simp
  qed
qed

lemma max_end_overflow:
  assumes "e \<in> set mmap" "2 ^ 64 \<le> segment_limit e"
  shows "max_end mmap = Inl Overflow"
proof -
  have "segment_end e = Inl Overflow"
    using assms(2) by (cases "unat (seg_page_count e) * unat (4096 :: u64) < 2 ^ LENGTH(64)")
      (auto simp: segment_end_def checked_mul_def checked_add_def segment_limit_def unat_mul_checked mult.commute)
  moreover have "segment_end x = Inl Overflow \<or> (\<exists>a. segment_end x = Inr a)" for x
    by (auto simp: segment_end_def checked_mul_def checked_add_def)
  moreover have "max_end es = Inl Overflow \<or> (\<exists>r. max_end es = Inr r)" for es
  proof (induction es)
    case (Cons x es)
    with calculation(2)[of x] show ?case by auto
  qed simp
  ultimately show ?thesis using assms(1)
  proof (induction mmap)
    case (Cons x es)
    from Cons.prems(2)[of x] show ?case
    proof
      assume "segment_end x = Inl Overflow"
      then show ?thesis by simp
    next
      assume "\<exists>a. segment_end x = Inr a"
      with Cons show ?thesis by auto
    qed
  qed simp
qed

section \<open>Adding the free segments\<close>

definition free_segments :: "memory_segment list \<Rightarrow> memory_segment list" where
  "free_segments mmap = filter (\<lambda>e. seg_state e = Free) mmap"

definition uncovered :: "nat \<Rightarrow> memory_segment \<Rightarrow> bool" where
  "uncovered w e \<longleftrightarrow> (\<exists>p\<in>segment_pages e. \<not> covered w p)"

lemma segment_pages_drop:
  "segment_pages e = {unat (drop_bit 12 (seg_start e))..<unat (drop_bit 12 (seg_start e)) + unat (seg_page_count e)}"
  by (simp add: segment_pages_def unat_drop_bit)

lemma pairwise_disjoint_snoc:
  "pairwise_disjoint (As @ [B]) \<longleftrightarrow> pairwise_disjoint As \<and> (\<forall>A\<in>set As. A \<inter> B = {})"
  by (induction As) auto

lemma pairwise_disjoint_append1: "pairwise_disjoint (As @ Bs) \<Longrightarrow> pairwise_disjoint As"
  by (induction As) auto

context phys_storage
begin

lemma add_region_outcome:
  assumes inv: "manager_inv st n m" and w: "length (buddy_map (pm_state m)) = w"
    and range: "unat index + unat count \<le> 64 * w"
    and fresh: "{unat index..<unat index + unat count} \<inter> available st m = {}"
  shows "add_region st index count m = Inl IndexOutOfBounds \<and> (\<exists>p\<in>{unat index..<unat index + unat count}. \<not> covered w p) \<or>
         (\<exists>m'. add_region st index count m = Inr ((), m') \<and> manager_inv st n m' \<and>
           available st m' = available st m \<union> {unat index..<unat index + unat count} \<and>
           length (buddy_map (pm_state m')) = w)"
  using add_region_loop_outcome[OF manager_invD(2)[OF inv], of index count] manager_inv_update[OF inv]
    range fresh[unfolded available_def] w
  by (auto simp: add_region_def guarded_free[OF manager_invD(1)[OF inv]] ret_unit_def available_def)

lemma add_region_correct:
  assumes "manager_inv st n m" "length (buddy_map (pm_state m)) = w" "unat index + unat count \<le> 64 * w"
    and "{unat index..<unat index + unat count} \<inter> available st m = {}"
    and "\<forall>p\<in>{unat index..<unat index + unat count}. covered w p"
  shows "\<exists>m'. add_region st index count m = Inr ((), m') \<and> manager_inv st n m' \<and>
           available st m' = available st m \<union> {unat index..<unat index + unat count} \<and>
           length (buddy_map (pm_state m')) = w"
  using add_region_outcome[OF assms(1-4)] assms(5) by blast

lemma add_segments_outcome:
  assumes inv: "manager_inv st n m" and w: "length (buddy_map (pm_state m)) = w" and empty: "available st m = {}"
    and disj: "pairwise_disjoint (map segment_pages segs)"
    and range: "\<forall>e\<in>set segs. unat (seg_start e) div 4096 + unat (seg_page_count e) \<le> 64 * w"
  defines "add \<equiv> \<lambda>e m. and_then (add_region st (drop_bit 12 (seg_start e)) (seg_page_count e) m) (\<lambda>(_, m'). Inr m')"
  shows "for_each segs add m = Inl IndexOutOfBounds \<and> (\<exists>e\<in>set segs. uncovered w e) \<or>
    (\<exists>m'. for_each segs add m = Inr m' \<and>
           manager_inv st n m' \<and> available st m' = \<Union> (segment_pages ` set segs) \<and>
           length (buddy_map (pm_state m')) = w)"
proof (rule for_each_outcome[where P = "\<lambda>zs m. manager_inv st n m \<and>
      available st m = \<Union> (segment_pages ` set zs) \<and> length (buddy_map (pm_state m)) = w"])
  show "manager_inv st n m \<and> available st m = \<Union> (segment_pages ` set []) \<and> length (buddy_map (pm_state m)) = w"
    using inv empty w by simp
next
  fix zs e ys t
  assume segs: "segs = zs @ e # ys"
    and t: "manager_inv st n t \<and> available st t = \<Union> (segment_pages ` set zs) \<and> length (buddy_map (pm_state t)) = w"
  have "pairwise_disjoint ((map segment_pages zs @ [segment_pages e]) @ map segment_pages ys)"
    using disj segs by simp
  from pairwise_disjoint_append1[OF this]
  have fresh: "segment_pages e \<inter> available st t = {}" using t by (auto simp: pairwise_disjoint_snoc)
  have r: "unat (drop_bit 12 (seg_start e)) + unat (seg_page_count e) \<le> 64 * w"
    using range segs by (simp add: unat_drop_bit)
  from add_region_outcome[OF _ _ r, of t, folded segment_pages_drop] t fresh
  show "add e t = Inl IndexOutOfBounds \<and> uncovered w e \<or> (\<exists>t'. add e t = Inr t' \<and> manager_inv st n t' \<and>
      available st t' = \<Union> (segment_pages ` set (zs @ [e])) \<and> length (buddy_map (pm_state t')) = w)"
    by (auto simp: add_def uncovered_def)
qed

text \<open>
  \<open>new\<close> for any storage backend, given what its \<open>new\<close> returned: a page whose superblock leaves the bitmap
  may make it panic, nothing else can.
\<close>

lemma manager_new_outcome:
  assumes fits: "\<forall>e\<in>set mmap. segment_limit e < 2 ^ 64" "mmap \<noteq> []"
    and store: "\<And>a. unat a = Max (segment_limit ` set mmap) \<Longrightarrow>
           storage_new st (drop_bit 12 a) mmap = Inr (replicate w 0, mmap')"
    and n: "64 * w \<le> n"
    and disj: "pairwise_disjoint (map segment_pages (free_segments mmap'))"
    and range: "\<forall>e\<in>set (free_segments mmap'). unat (seg_start e) div 4096 + unat (seg_page_count e) \<le> 64 * w"
  shows "manager_new st h mmap = Inl IndexOutOfBounds \<and> (\<exists>e\<in>set (free_segments mmap'). uncovered w e) \<or>
    (\<exists>m. manager_new st h mmap = Inr (m, mmap') \<and> manager_inv st n m \<and>
           available st m = \<Union> (segment_pages ` set (free_segments mmap')) \<and> length (buddy_map (pm_state m)) = w)"
proof -
  obtain a where a: "max_end mmap = Inr (Some a)" "unat a = Max (segment_limit ` set mmap)"
    using max_end_correct[OF fits] by blast
  define m0 where "m0 = \<lparr>pm_lock = spin_new, pm_state = empty_state w h\<rparr>"
  have inv0: "manager_inv st n m0" "available st m0 = {}" "length (buddy_map (pm_state m0)) = w"
    using empty_state_ok[OF n]
    by (simp_all add: m0_def manager_inv_def spin_new_def available_def free_page_set_def free_pages_of_def)
  from add_segments_outcome[OF inv0(1,3,2) disj range]
  show ?thesis
    using a(1) store[OF a(2)]
    by (auto simp: manager_new_def m0_def empty_state_def free_segments_def[symmetric] simp del: replicate_Suc)
qed

lemma manager_new_correct:
  assumes "\<forall>e\<in>set mmap. segment_limit e < 2 ^ 64" "mmap \<noteq> []"
    and "\<And>a. unat a = Max (segment_limit ` set mmap) \<Longrightarrow>
           storage_new st (drop_bit 12 a) mmap = Inr (replicate w 0, mmap')"
    and "64 * w \<le> n" "pairwise_disjoint (map segment_pages (free_segments mmap'))"
    and "\<forall>e\<in>set (free_segments mmap'). \<forall>p\<in>segment_pages e. covered w p"
    and "\<forall>e\<in>set (free_segments mmap'). unat (seg_start e) div 4096 + unat (seg_page_count e) \<le> 64 * w"
  shows "\<exists>m. manager_new st h mmap = Inr (m, mmap') \<and> manager_inv st n m \<and>
           available st m = \<Union> (segment_pages ` set (free_segments mmap'))"
  using manager_new_outcome[OF assms(1-5,7), of h] assms(6) by (auto simp: uncovered_def)

end

section \<open>The kernel's backend\<close>

text \<open>The bitmap has one bit per page up to the highest address of the map, in whole words and pages.\<close>

definition bitmap_words :: "memory_segment list \<Rightarrow> nat" where
  "bitmap_words mmap = (Max (segment_limit ` set mmap) div 4096 + 63) div 64"

definition bitmap_pages :: "memory_segment list \<Rightarrow> nat" where
  "bitmap_pages mmap = (bitmap_words mmap * 8 + 4095) div 4096"

definition holds_bitmap :: "nat \<Rightarrow> memory_segment \<Rightarrow> bool" where
  "holds_bitmap k e \<longleftrightarrow> seg_state e = Free \<and> k \<le> unat (seg_page_count e)"

lemma take_storage_none:
  "find (holds_bitmap (unat k)) mmap = None \<Longrightarrow>
     take_storage k mmap = Inl (Message ''No suitable memory location found for buddy map'')"
  by (induction mmap) (auto simp: holds_bitmap_def word_le_nat_alt split: if_splits)

lemma take_storage_some:
  assumes "find (holds_bitmap (unat k)) mmap = Some e" "\<forall>e\<in>set mmap. segment_limit e < 2 ^ 64"
  shows "\<exists>xs ys e'. mmap = xs @ e # ys \<and> take_storage k mmap = Inr (xs @ e' # ys) \<and> seg_state e = Free \<and>
           seg_state e' = Free \<and> unat (seg_start e') = unat (seg_start e) + 4096 * unat k \<and>
           unat (seg_page_count e') + unat k = unat (seg_page_count e)"
  using assms
proof (induction mmap)
  case Nil
  then show ?case by simp
next
  case (Cons x es)
  show ?case
  proof (cases "holds_bitmap (unat k) x")
    case True
    then have e: "e = x" and free: "seg_state x = Free" and k: "k \<le> seg_page_count x"
      using Cons.prems(1) by (auto simp: holds_bitmap_def word_le_nat_alt)
    have lim: "unat (seg_start x) + 4096 * unat k < 2 ^ LENGTH(64)"
      using Cons.prems(2) k by (auto simp: segment_limit_def word_le_nat_alt)
    then have m: "unat k * unat (4096 :: u64) < 2 ^ LENGTH(64)" by simp
    have a: "unat (seg_start x) + unat (k * 4096) < 2 ^ LENGTH(64)"
      using lim unat_mul_checked[OF m] by (simp add: mult.commute)
    let ?e = "x\<lparr>seg_start := seg_start x + k * 4096, seg_page_count := seg_page_count x - k\<rparr>"
    have "take_storage k (x # es) = Inr (?e # es)"
      using free k m a by (simp add: checked_mul_def checked_add_def checked_sub_def)
    moreover have "unat (seg_start ?e) = unat (seg_start x) + 4096 * unat k"
      using unat_add_checked[OF a] unat_mul_checked[OF m] by simp
    moreover have "unat (seg_page_count ?e) + unat k = unat (seg_page_count x)"
      using k by (simp add: unat_sub_checked word_le_nat_alt)
    ultimately have "x # es = [] @ e # es \<and> take_storage k (x # es) = Inr ([] @ ?e # es) \<and> seg_state e = Free \<and>
        seg_state ?e = Free \<and> unat (seg_start ?e) = unat (seg_start e) + 4096 * unat k \<and>
        unat (seg_page_count ?e) + unat k = unat (seg_page_count e)" using e free by simp
    then show ?thesis by blast
  next
    case False
    then have "find (holds_bitmap (unat k)) es = Some e" using Cons.prems(1) by simp
    with Cons obtain xs ys e' where IH: "es = xs @ e # ys" "take_storage k es = Inr (xs @ e' # ys)"
        "seg_state e = Free" "seg_state e' = Free" "unat (seg_start e') = unat (seg_start e) + 4096 * unat k"
        "unat (seg_page_count e') + unat k = unat (seg_page_count e)" by auto
    have "take_storage k (x # es) = Inr ((x # xs) @ e' # ys)"
      using False IH(2) by (auto simp: holds_bitmap_def word_le_nat_alt)
    with IH show ?thesis by (metis append_Cons)
  qed
qed

lemma shrink_disjoint:
  "pairwise_disjoint (As @ B # Cs) \<Longrightarrow> B' \<subseteq> B \<Longrightarrow> pairwise_disjoint (As @ B' # Cs)"
  by (induction As) auto

lemma shrink_union:
  assumes "pairwise_disjoint (As @ B # Cs)" "B = T \<union> B'" "T \<inter> B' = {}"
  shows "\<Union> (set (As @ B' # Cs)) = \<Union> (set (As @ B # Cs)) - T"
proof -
  have "\<forall>A\<in>set As \<union> set Cs. A \<inter> B = {}" using assms(1) by (induction As) auto
  with assms(2,3) show ?thesis by auto
qed

lemma inline_new_sizes:
  assumes a: "unat a = Max (segment_limit ` set mmap)"
  shows "inline_new (drop_bit 12 a) mmap =
      and_then (take_storage (of_nat (bitmap_pages mmap)) mmap) (\<lambda>mmap'. Inr (replicate (bitmap_words mmap) 0, mmap'))"
    "unat (of_nat (bitmap_pages mmap) :: u64) = bitmap_pages mmap"
proof -
  let ?p = "drop_bit 12 a"
  have p: "unat ?p = Max (segment_limit ` set mmap) div 4096" by (simp add: unat_drop_bit a)
  have p52: "unat ?p < 2 ^ 52" using unsigned_less[where 'a = nat and w = a] by (simp add: unat_drop_bit)
  have a1: "unat ?p + unat (63 :: u64) < 2 ^ LENGTH(64)" using p52 by simp
  define w where "w = (?p + 63) div 64"
  have w: "unat w = bitmap_words mmap"
    using unat_add_checked[OF a1] p by (simp add: w_def unat_div bitmap_words_def)
  have w46: "unat w \<le> 2 ^ 46" using w p p52 by (simp add: bitmap_words_def)
  have m1: "unat w * unat (8 :: u64) < 2 ^ LENGTH(64)" using w46 by simp
  have a2: "unat (w * 8) + unat (4095 :: u64) < 2 ^ LENGTH(64)" using unat_mul_checked[OF m1] w46 by simp
  define k where "k = (w * 8 + 4095) div 4096"
  have k: "unat k = bitmap_pages mmap"
    using unat_add_checked[OF a2] unat_mul_checked[OF m1] w by (simp add: k_def unat_div bitmap_pages_def)
  then have kw: "of_nat (bitmap_pages mmap) = k" by (simp add: k[symmetric])
  have "checked_add ?p 63 = Inr (?p + 63)" "checked_mul w 8 = Inr (w * 8)" "checked_add (w * 8) 4095 = Inr (w * 8 + 4095)"
    using a1 m1 a2 by (simp_all add: checked_add_def checked_mul_def)
  then show "inline_new ?p mmap =
      and_then (take_storage (of_nat (bitmap_pages mmap)) mmap) (\<lambda>mmap'. Inr (replicate (bitmap_words mmap) 0, mmap'))"
    by (simp only: inline_new_def Let_def and_then_Inr w_def[symmetric] k_def[symmetric] w kw)
  show "unat (of_nat (bitmap_pages mmap) :: u64) = bitmap_pages mmap" by (simp only: kw k)
qed

text \<open>\<open>InlineStorage::new\<close> for the number of pages that \<open>new\<close> computes.\<close>

lemma inline_new_correct:
  assumes e: "find (holds_bitmap (bitmap_pages mmap)) mmap = Some e"
    and fits: "\<forall>e\<in>set mmap. segment_limit e < 2 ^ 64"
    and disj: "pairwise_disjoint (map segment_pages (free_segments mmap))"
    and a: "unat a = Max (segment_limit ` set mmap)"
  shows "\<exists>mmap'. inline_new (drop_bit 12 a) mmap = Inr (replicate (bitmap_words mmap) 0, mmap') \<and>
           (\<exists>xs ys e'. take_storage (of_nat (bitmap_pages mmap)) mmap = Inr mmap' \<and> mmap = xs @ e # ys \<and> mmap' = xs @ e' # ys) \<and>
           pairwise_disjoint (map segment_pages (free_segments mmap')) \<and>
           \<Union> (segment_pages ` set (free_segments mmap')) =
             \<Union> (segment_pages ` set (free_segments mmap)) -
             {unat (seg_start e) div 4096..<unat (seg_start e) div 4096 + bitmap_pages mmap} \<and>
           (\<forall>e\<in>set mmap'. segment_limit e \<le> unat a)"
proof -
  note k = inline_new_sizes(2)[OF a]
  obtain xs ys e' where t: "mmap = xs @ e # ys" "take_storage (of_nat (bitmap_pages mmap)) mmap = Inr (xs @ e' # ys)"
      "seg_state e = Free" "seg_state e' = Free" "unat (seg_start e') = unat (seg_start e) + 4096 * bitmap_pages mmap"
      "unat (seg_page_count e') + bitmap_pages mmap = unat (seg_page_count e)"
    using take_storage_some[of "of_nat (bitmap_pages mmap)", unfolded k, OF e fits] by auto
  let ?T = "{unat (seg_start e) div 4096..<unat (seg_start e) div 4096 + bitmap_pages mmap}"
  have split: "segment_pages e = ?T \<union> segment_pages e'" "?T \<inter> segment_pages e' = {}"
    using t(5,6) by (auto simp: segment_pages_def)
  let ?As = "map segment_pages (free_segments xs)" and ?Cs = "map segment_pages (free_segments ys)"
  have free: "map segment_pages (free_segments mmap) = ?As @ segment_pages e # ?Cs"
    "map segment_pages (free_segments (xs @ e' # ys)) = ?As @ segment_pages e' # ?Cs"
    using t(1,3,4) by (simp_all add: free_segments_def)
  have new: "inline_new (drop_bit 12 a) mmap = Inr (replicate (bitmap_words mmap) 0, xs @ e' # ys)"
    using inline_new_sizes(1)[OF a] t(2) by simp
  have "pairwise_disjoint (map segment_pages (free_segments (xs @ e' # ys)))"
    using shrink_disjoint[of ?As "segment_pages e" ?Cs "segment_pages e'"] disj split(1) free by auto
  moreover have "\<Union> (set (map segment_pages (free_segments (xs @ e' # ys)))) =
      \<Union> (set (map segment_pages (free_segments mmap))) - ?T"
    using shrink_union[of ?As "segment_pages e" ?Cs ?T "segment_pages e'"] disj split free by metis
  moreover have "segment_limit e' \<le> segment_limit e" using t(5,6) by (simp add: segment_limit_def)
  then have "\<forall>x\<in>set (xs @ e' # ys). segment_limit x \<le> unat a"
    using Max_ge[of "segment_limit ` set mmap"] a t(1) by (auto intro: le_trans)
  ultimately show ?thesis using new t(1,2) by (auto simp: image_Un)
qed

lemma manager_new_no_storage:
  assumes "mmap \<noteq> []" "\<forall>e\<in>set mmap. segment_limit e < 2 ^ 64" "find (holds_bitmap (bitmap_pages mmap)) mmap = None"
  shows "manager_new (inline_storage base) h mmap = Inl (Message ''No suitable memory location found for buddy map'')"
proof -
  obtain a where a: "max_end mmap = Inr (Some a)" "unat a = Max (segment_limit ` set mmap)"
    using max_end_correct[OF assms(2,1)] by blast
  have "take_storage (of_nat (bitmap_pages mmap)) mmap = Inl (Message ''No suitable memory location found for buddy map'')"
    by (rule take_storage_none) (simp only: inline_new_sizes(2)[OF a(2)] assms(3))
  with inline_new_sizes(1)[OF a(2)] a(1) show ?thesis
    by (simp add: manager_new_def inline_storage_def)
qed

context address_window
begin

lemma kernel_init_outcome:
  assumes m: "18 \<le> m" and fits: "\<forall>e\<in>set mmap. segment_limit e \<le> 2 ^ m"
    and e: "find (holds_bitmap (bitmap_pages mmap)) mmap = Some e"
    and disj: "pairwise_disjoint (map segment_pages (free_segments mmap))"
  shows "manager_new (inline_storage base) h mmap = Inl IndexOutOfBounds \<and> (\<exists>e\<in>set (free_segments mmap). uncovered (bitmap_words mmap) e) \<or>
    (\<exists>M mmap'. manager_new (inline_storage base) h mmap = Inr (M, mmap') \<and>
           manager_inv (inline_storage base) (2 ^ (m - 12)) M \<and>
           available (inline_storage base) M = \<Union> (segment_pages ` set (free_segments mmap)) -
             {unat (seg_start e) div 4096..<unat (seg_start e) div 4096 + bitmap_pages mmap} \<and>
           length (buddy_map (pm_state M)) = bitmap_words mmap \<and> (\<forall>e\<in>set mmap'. segment_limit e < 2 ^ 64))"
proof -
  have ne: "mmap \<noteq> []" using e by auto
  have "(2::nat) ^ m < 2 ^ 64" using m_less by (intro power_strict_increasing) simp_all
  with fits have fits64: "\<forall>e\<in>set mmap. segment_limit e < 2 ^ 64" by (meson le_less_trans)
  have maxm: "Max (segment_limit ` set mmap) \<le> 2 ^ m" using fits ne by simp
  obtain a :: u64 where a: "unat a = Max (segment_limit ` set mmap)"
    using max_end_correct[OF fits64 ne] by blast
  from inline_new_correct[OF e fits64 disj a] obtain mmap' where
      new: "inline_new (drop_bit 12 a) mmap = Inr (replicate (bitmap_words mmap) 0, mmap')"
    and disj': "pairwise_disjoint (map segment_pages (free_segments mmap'))"
    and un: "\<Union> (segment_pages ` set (free_segments mmap')) = \<Union> (segment_pages ` set (free_segments mmap)) -
        {unat (seg_start e) div 4096..<unat (seg_start e) div 4096 + bitmap_pages mmap}"
    and lim: "\<forall>e\<in>set mmap'. segment_limit e \<le> unat a" by blast
  have n: "64 * bitmap_words mmap \<le> 2 ^ (m - 12)"
  proof -
    obtain d where d: "m = d + 18" using m by (metis le_add_diff_inverse2)
    then have "m - 12 = d + 6" by simp
    then have "(2::nat) ^ m = 2 ^ d * 262144" "(2::nat) ^ (m - 12) = 2 ^ d * 64"
      using d by (simp_all only: power_add) simp_all
    with maxm show ?thesis by (simp add: bitmap_words_def)
  qed
  show ?thesis
  proof -
    have "manager_new (inline_storage base) h mmap = Inl IndexOutOfBounds \<and> (\<exists>e\<in>set (free_segments mmap'). uncovered (bitmap_words mmap) e) \<or>
        (\<exists>M. manager_new (inline_storage base) h mmap = Inr (M, mmap') \<and>
        manager_inv (inline_storage base) (2 ^ (m - 12)) M \<and>
        available (inline_storage base) M = \<Union> (segment_pages ` set (free_segments mmap')) \<and>
        length (buddy_map (pm_state M)) = bitmap_words mmap)"
    proof (rule inline.manager_new_outcome[OF fits64 ne _ n disj'])
      fix b :: u64 assume "unat b = Max (segment_limit ` set mmap)"
      then have "b = a" using a by (metis unat_eq_unat)
      then show "storage_new (inline_storage base) (drop_bit 12 b) mmap = Inr (replicate (bitmap_words mmap) 0, mmap')"
        using new by (simp add: inline_storage_def)
    next
      show "\<forall>e\<in>set (free_segments mmap'). unat (seg_start e) div 4096 + unat (seg_page_count e) \<le> 64 * bitmap_words mmap"
      proof
        fix x assume "x \<in> set (free_segments mmap')"
        then have "segment_limit x div 4096 \<le> unat a div 4096"
          using lim by (intro div_le_mono) (auto simp: free_segments_def)
        then show "unat (seg_start x) div 4096 + unat (seg_page_count x) \<le> 64 * bitmap_words mmap"
          using a by (simp add: segment_limit_def bitmap_words_def)
      qed
    qed
    moreover have "\<forall>e\<in>set mmap'. segment_limit e < 2 ^ 64"
      using lim unsigned_less[where 'a = nat and w = a] by (auto intro: le_less_trans)
    moreover have "\<exists>e\<in>set (free_segments mmap). uncovered (bitmap_words mmap) e"
      if "\<exists>e\<in>set (free_segments mmap'). uncovered (bitmap_words mmap) e" using that un unfolding uncovered_def by blast
    ultimately show ?thesis using un by auto
  qed
qed

lemma kernel_init:
  assumes "18 \<le> m" "\<forall>e\<in>set mmap. segment_limit e \<le> 2 ^ m" "find (holds_bitmap (bitmap_pages mmap)) mmap = Some e"
    and "pairwise_disjoint (map segment_pages (free_segments mmap))"
    and "\<forall>e\<in>set (free_segments mmap). \<forall>p\<in>segment_pages e. covered (bitmap_words mmap) p"
  shows "\<exists>M mmap'. manager_new (inline_storage base) h mmap = Inr (M, mmap') \<and>
           manager_inv (inline_storage base) (2 ^ (m - 12)) M \<and>
           available (inline_storage base) M = \<Union> (segment_pages ` set (free_segments mmap)) -
             {unat (seg_start e) div 4096..<unat (seg_start e) div 4096 + bitmap_pages mmap} \<and>
           length (buddy_map (pm_state M)) = bitmap_words mmap \<and> (\<forall>e\<in>set mmap'. segment_limit e < 2 ^ 64)"
  using kernel_init_outcome[OF assms(1-4), of h] assms(5) by (auto simp: uncovered_def)

end

end
