(* ===== verification/Terminal_Correct.thy ===== *)
theory Terminal_Correct
  imports Terminal
begin

text \<open>
  Correctness of the terminal. \<open>term_inv\<close> bounds the cursor and ties the text area to the
  framebuffer; under it every character of every string prints without a panic. \<open>blit\<close> is the
  reference picture of a glyph, decoded from the byte offset, and \<open>draw_glyph\<close> computes it.
\<close>

section \<open>Geometry\<close>

definition geometry :: "terminal \<Rightarrow> bool" where
  "geometry t \<longleftrightarrow> 0 < unat (columns t) \<and> 0 < unat (rows t) \<and>
     16 + 8 * unat (columns t) \<le> unat (scan_width t) \<and> 16 + 8 * unat (rows t) \<le> unat (t_height t) \<and>
     4 * (unat (scan_width t) * unat (t_height t)) < 2 ^ 32"

definition cursor_ok :: "terminal \<Rightarrow> bool" where
  "cursor_ok t \<longleftrightarrow> unat (cursor_x t) < unat (columns t) \<and> unat (cursor_y t) < unat (rows t)"

definition term_inv :: "terminal \<Rightarrow> bool" where
  "term_inv t \<longleftrightarrow> \<not> locked (t_lock t) \<and> geometry t \<and> cursor_ok t"

lemma term_inv_simps:
  "geometry (t\<lparr>fb := m\<rparr>) = geometry t" "cursor_ok (t\<lparr>fb := m\<rparr>) = cursor_ok t"
  "geometry (t\<lparr>t_lock := l\<rparr>) = geometry t" "cursor_ok (t\<lparr>t_lock := l\<rparr>) = cursor_ok t"
  by (simp_all add: geometry_def cursor_ok_def)

text \<open>The byte offset of pixel \<open>(x, y)\<close> of the current character cell.\<close>

definition pixel_offset :: "terminal \<Rightarrow> nat \<Rightarrow> nat \<Rightarrow> nat" where
  "pixel_offset t x y =
     4 * (16 + 8 * unat (cursor_x t) + x + (16 + 8 * unat (cursor_y t) + y) * unat (scan_width t))"

lemma cell_bounds:
  assumes "geometry t" "cursor_ok t" "x < 8" "y < 8"
  shows "16 + 8 * unat (cursor_x t) + x < unat (scan_width t)" "16 + 8 * unat (cursor_y t) + y < unat (t_height t)"
  using assms by (auto simp: geometry_def cursor_ok_def)

lemma offset_bound:
  fixes X Y S H :: nat
  assumes "X < S" "Y < H"
  shows "X + Y * S < S * H"
proof -
  have "X + Y * S < Suc Y * S" using assms(1) by simp
  also have "\<dots> \<le> H * S" using assms(2) by (intro mult_le_mono1) simp
  finally show ?thesis by (simp add: mult.commute)
qed

lemma fb_len_correct: "geometry t \<Longrightarrow> fb_len t = Inr (4 * (unat (scan_width t) * unat (t_height t)))"
  by (simp add: fb_len_def geometry_def checked_mul_def unat_mul_checked mult.commute)

lemma pixel_offset_bound:
  assumes "geometry t" "cursor_ok t" "x < 8" "y < 8"
  shows "pixel_offset t x y + 2 < 4 * (unat (scan_width t) * unat (t_height t))"
  using offset_bound[OF cell_bounds[OF assms]] by (simp add: pixel_offset_def)

lemma cursor_start:
  assumes "geometry t" "cursor_ok t"
  shows "\<exists>a. checked_mul (cursor_x t) 8 = Inr a \<and> checked_add MARGIN a = Inr (MARGIN + a) \<and>
           unat (MARGIN + a) = 16 + 8 * unat (cursor_x t)"
    and "\<exists>a. checked_mul (cursor_y t) 8 = Inr a \<and> checked_add MARGIN a = Inr (MARGIN + a) \<and>
           unat (MARGIN + a) = 16 + 8 * unat (cursor_y t)"
proof -
  have main: "\<exists>a. checked_mul c 8 = Inr a \<and> checked_add MARGIN a = Inr (MARGIN + a) \<and> unat (MARGIN + a) = 16 + 8 * unat c"
    if "16 + 8 * unat c < 2 ^ 32" for c :: u32
  proof -
    have m: "unat c * unat (8::u32) < 2 ^ LENGTH(32)" using that by simp
    have "unat MARGIN + unat (c * 8) < 2 ^ LENGTH(32)" using that unat_mul_checked[OF m] by (simp add: MARGIN_def)
    from unat_add_checked[OF this] this m unat_mul_checked[OF m] show ?thesis
      by (simp add: checked_mul_def checked_add_def MARGIN_def)
  qed
  have "unat (scan_width t) < 2 ^ 32" "unat (t_height t) < 2 ^ 32"
    using unsigned_less[where 'a = nat and w = "scan_width t"] unsigned_less[where 'a = nat and w = "t_height t"] by simp_all
  with main[of "cursor_x t"] main[of "cursor_y t"] cell_bounds[OF assms, of 0 0]
  show "\<exists>a. checked_mul (cursor_x t) 8 = Inr a \<and> checked_add MARGIN a = Inr (MARGIN + a) \<and>
      unat (MARGIN + a) = 16 + 8 * unat (cursor_x t)"
    "\<exists>a. checked_mul (cursor_y t) 8 = Inr a \<and> checked_add MARGIN a = Inr (MARGIN + a) \<and>
      unat (MARGIN + a) = 16 + 8 * unat (cursor_y t)" by auto
qed

text \<open>The index expression does not overflow and is the byte offset of the pixel.\<close>

lemma pixel_index_correct:
  assumes g: "geometry t" "cursor_ok t" and xy: "x < 8" "y < 8"
    and xs: "unat xs = 16 + 8 * unat (cursor_x t)" and ys: "unat ys = 16 + 8 * unat (cursor_y t)"
  shows "pixel_index t xs ys (of_nat x) (of_nat y) = Inr (pixel_offset t x y)"
proof -
  let ?S = "unat (scan_width t)" and ?X = "16 + 8 * unat (cursor_x t) + x" and ?Y = "16 + 8 * unat (cursor_y t) + y"
  note b = cell_bounds[OF g xy]
  have lim: "4 * (?X + ?Y * ?S) < 2 ^ 32"
    using offset_bound[OF b] g(1) by (simp add: geometry_def)
  have small: "unat (of_nat x :: u32) = x" "unat (of_nat y :: u32) = y" using xy by (simp_all add: unat_of_nat)
  have S: "?S < 2 ^ 32" "unat (t_height t) < 2 ^ 32"
    using unsigned_less[where 'a = nat and w = "scan_width t"] unsigned_less[where 'a = nat and w = "t_height t"] by simp_all
  have a: "unat xs + unat (of_nat x :: u32) < 2 ^ LENGTH(32)" "unat ys + unat (of_nat y :: u32) < 2 ^ LENGTH(32)"
    using b S small xs ys by simp_all
  have ua: "unat (xs + of_nat x) = ?X" "unat (ys + of_nat y) = ?Y"
    using unat_add_checked[OF a(1)] unat_add_checked[OF a(2)] small xs ys by simp_all
  have m: "unat (ys + of_nat y) * ?S < 2 ^ LENGTH(32)" using lim ua by simp
  note um = unat_mul_checked[OF m]
  have c: "unat (xs + of_nat x) + unat ((ys + of_nat y) * scan_width t) < 2 ^ LENGTH(32)"
    using lim um ua by simp
  note uc = unat_add_checked[OF c]
  have d: "unat (xs + of_nat x + (ys + of_nat y) * scan_width t) * unat (4 :: u32) < 2 ^ LENGTH(32)"
    using lim uc um ua by simp
  note ud = unat_mul_checked[OF d]
  have e: "checked_add xs (of_nat x) = Inr (xs + of_nat x)" "checked_add ys (of_nat y) = Inr (ys + of_nat y)"
    "checked_mul (ys + of_nat y) (scan_width t) = Inr ((ys + of_nat y) * scan_width t)"
    "checked_add (xs + of_nat x) ((ys + of_nat y) * scan_width t) = Inr (xs + of_nat x + (ys + of_nat y) * scan_width t)"
    "checked_mul (xs + of_nat x + (ys + of_nat y) * scan_width t) 4 = Inr ((xs + of_nat x + (ys + of_nat y) * scan_width t) * 4)"
    using a m c d by (simp_all only: checked_add_def checked_mul_def if_True)
  have "unat ((xs + of_nat x + (ys + of_nat y) * scan_width t) * 4) = pixel_offset t x y"
    using ud uc um ua by (simp add: pixel_offset_def)
  then show ?thesis by (simp only: pixel_index_def e and_then_Inr)
qed

section \<open>The picture of a glyph\<close>

fun channel :: "u8 \<times> u8 \<times> u8 \<Rightarrow> nat \<Rightarrow> u8" where
  "channel (c0, c1, c2) b = (if b = 0 then c0 else if b = 1 then c1 else c2)"

text \<open>
  \<open>blit t g S m\<close>: the memory \<open>m\<close> with the pixels of \<open>S\<close> of the current cell painted. The pixel is
  decoded from the byte offset: four bytes per pixel, the fourth left alone, rows of \<open>scan_width\<close>.
\<close>

definition blit :: "terminal \<Rightarrow> u8 list \<Rightarrow> (nat \<times> nat) set \<Rightarrow> (nat \<Rightarrow> u8) \<Rightarrow> nat \<Rightarrow> u8" where
  "blit t g S m i =
     (let px = i div 4 mod unat (scan_width t); py = i div 4 div unat (scan_width t);
          x0 = 16 + 8 * unat (cursor_x t); y0 = 16 + 8 * unat (cursor_y t)
      in if i mod 4 < 3 \<and> x0 \<le> px \<and> y0 \<le> py \<and> (px - x0, py - y0) \<in> S
         then channel (pixel_color t (g ! (py - y0)) (px - x0)) (i mod 4) else m i)"

lemma blit_empty [simp]: "blit t g {} m = m"
  by (simp add: blit_def fun_eq_iff)

lemma offset_decode:
  assumes "X < (S::nat)" "b < 4"
  shows "i = 4 * (X + Y * S) + b \<longleftrightarrow> i mod 4 = b \<and> i div 4 mod S = X \<and> i div 4 div S = Y"
proof
  assume i: "i = 4 * (X + Y * S) + b"
  define Z where "Z = X + Y * S"
  have "i mod 4 = b" "i div 4 = Z" using assms(2) unfolding i Z_def[symmetric] by simp_all
  then have "i mod 4 = b" "i div 4 = X + Y * S" by (simp_all only: Z_def)
  then show "i mod 4 = b \<and> i div 4 mod S = X \<and> i div 4 div S = Y" using assms(1) by simp
next
  assume r: "i mod 4 = b \<and> i div 4 mod S = X \<and> i div 4 div S = Y"
  have "i = i div 4 * 4 + i mod 4" by simp
  also have "i div 4 = i div 4 div S * S + i div 4 mod S" by simp
  finally show "i = 4 * (X + Y * S) + b" using r by (simp add: mult.commute)
qed

lemma blit_insert:
  assumes g: "geometry t" "cursor_ok t" "x < 8" "y < 8" and c: "pixel_color t (gl ! y) x = (c0, c1, c2)"
  shows "blit t gl (insert (x, y) S) m =
    (blit t gl S m)(pixel_offset t x y := c0, pixel_offset t x y + 1 := c1, pixel_offset t x y + 2 := c2)"
proof
  fix i
  let ?W = "unat (scan_width t)" and ?x0 = "16 + 8 * unat (cursor_x t)" and ?y0 = "16 + 8 * unat (cursor_y t)"
  let ?px = "i div 4 mod ?W" and ?py = "i div 4 div ?W" and ?b = "i mod 4"
  note dec = offset_decode[OF cell_bounds(1)[OF g], where Y = "?y0 + y" and i = i]
  have d0: "i = pixel_offset t x y \<longleftrightarrow> ?b = 0 \<and> ?px = ?x0 + x \<and> ?py = ?y0 + y"
    using dec[of 0] by (simp add: pixel_offset_def)
  have d1: "i = pixel_offset t x y + 1 \<longleftrightarrow> ?b = 1 \<and> ?px = ?x0 + x \<and> ?py = ?y0 + y"
    using dec[of 1] by (simp add: pixel_offset_def)
  have d2: "i = pixel_offset t x y + 2 \<longleftrightarrow> ?b = 2 \<and> ?px = ?x0 + x \<and> ?py = ?y0 + y"
    using dec[of 2] by (simp add: pixel_offset_def)
  have px: "?x0 \<le> ?px \<and> ?y0 \<le> ?py \<and> ?px - ?x0 = x \<and> ?py - ?y0 = y \<longleftrightarrow> ?px = ?x0 + x \<and> ?py = ?y0 + y" by auto
  show "blit t gl (insert (x, y) S) m i =
      ((blit t gl S m)(pixel_offset t x y := c0, pixel_offset t x y + 1 := c1, pixel_offset t x y + 2 := c2)) i"
  proof (cases "?b < 3 \<and> ?px = ?x0 + x \<and> ?py = ?y0 + y")
    case True
    then have "?b = 0 \<or> ?b = 1 \<or> ?b = 2" by linarith
    with True d0 d1 d2 c show ?thesis by (elim disjE) (simp_all add: blit_def Let_def)
  next
    case False
    then have "i \<noteq> pixel_offset t x y" "i \<noteq> pixel_offset t x y + 1" "i \<noteq> pixel_offset t x y + 2"
      using d0 d1 d2 by linarith+
    moreover have "blit t gl (insert (x, y) S) m i = blit t gl S m i"
      using False px unfolding blit_def Let_def insert_iff prod.inject by metis
    ultimately show ?thesis by simp
  qed
qed

lemma put_pixel_correct:
  assumes g: "geometry t" "cursor_ok t" "x < 8" "y < 8"
    and xs: "unat xs = 16 + 8 * unat (cursor_x t)" and ys: "unat ys = 16 + 8 * unat (cursor_y t)"
    and len: "len = 4 * (unat (scan_width t) * unat (t_height t))"
  shows "put_pixel t len xs ys (of_nat x) (of_nat y) (pixel_color t (gl ! y) x) (blit t gl S m) =
           Inr (blit t gl (insert (x, y) S) m)"
proof -
  obtain c0 c1 c2 where c: "pixel_color t (gl ! y) x = (c0, c1, c2)" by (metis prod_cases3)
  show ?thesis
    using pixel_offset_bound[OF g] pixel_index_correct[OF g xs ys] blit_insert[OF g c, of S m]
    by (simp add: put_pixel_def c fb_store_def len)
qed

lemma draw_glyph_correct:
  assumes g: "geometry t" "cursor_ok t" and gl: "length gl = 8"
    and xs: "unat xs = 16 + 8 * unat (cursor_x t)" and ys: "unat ys = 16 + 8 * unat (cursor_y t)"
    and len: "len = 4 * (unat (scan_width t) * unat (t_height t))"
  shows "draw_glyph t len xs ys gl m = Inr (blit t gl ({..<8} \<times> {..<8}) m)"
proof -
  have row: "\<exists>m'. for_range 0 8 (\<lambda>x. put_pixel t len xs ys (of_nat x) (of_nat y) (pixel_color t (gl ! y) x))
      (blit t gl ({..<8} \<times> {..<y}) m) = Inr m' \<and> m' = blit t gl ({..<8} \<times> {..<y} \<union> {..<8} \<times> {y}) m" if y: "y < 8" for y
  proof (rule for_range_invariant[where P = "\<lambda>x m'. m' = blit t gl ({..<8} \<times> {..<y} \<union> {..<x} \<times> {y}) m"])
    fix x m' assume x: "x < 8" and m': "m' = blit t gl ({..<8} \<times> {..<y} \<union> {..<x} \<times> {y}) m"
    have "{..<8} \<times> {..<y} \<union> {..<Suc x} \<times> {y} = insert (x, y) ({..<8} \<times> {..<y} \<union> {..<x} \<times> {y})"
      by (auto simp: less_Suc_eq)
    then show "\<exists>t'. put_pixel t len xs ys (of_nat x) (of_nat y) (pixel_color t (gl ! y) x) m' = Inr t' \<and>
        t' = blit t gl ({..<8} \<times> {..<y} \<union> {..<Suc x} \<times> {y}) m"
      using put_pixel_correct[OF g x y xs ys len, of gl "{..<8} \<times> {..<y} \<union> {..<x} \<times> {y}" m] m' by simp
  qed simp_all
  have "\<exists>m'. draw_glyph t len xs ys gl m = Inr m' \<and> m' = blit t gl ({..<8} \<times> {..<8}) m"
    unfolding draw_glyph_def
  proof (rule for_range_invariant[where P = "\<lambda>y m'. m' = blit t gl ({..<8} \<times> {..<y}) m"])
    fix y m' assume y: "y < 8" and m': "m' = blit t gl ({..<8} \<times> {..<y}) m"
    have "{..<8::nat} \<times> {..<Suc y} = {..<8} \<times> {..<y} \<union> {..<8} \<times> {y}" by (auto simp: less_Suc_eq)
    with row[OF y] y gl m' show "\<exists>t'. and_then (slice_get gl y)
        (\<lambda>row. for_range 0 8 (\<lambda>x. put_pixel t len xs ys (of_nat x) (of_nat y) (pixel_color t row x)) m') = Inr t' \<and>
        t' = blit t gl ({..<8} \<times> {..<Suc y}) m" by simp
  qed simp_all
  then show ?thesis by blast
qed

section \<open>The cursor\<close>

definition cursor_pos :: "terminal \<Rightarrow> nat" where
  "cursor_pos t = unat (cursor_y t) * unat (columns t) + unat (cursor_x t)"

definition cells :: "terminal \<Rightarrow> nat" where
  "cells t = unat (rows t) * unat (columns t)"

lemma unat_Suc_checked:
  fixes a b :: "'a::len word"
  assumes "unat a < unat b"
  shows "checked_add a 1 = Inr (a + 1)" "unat (a + 1) = Suc (unat a)"
proof -
  have "unat b < 2 ^ LENGTH('a)" by (rule unsigned_less)
  with assms have "unat a + unat (1 :: 'a word) < 2 ^ LENGTH('a)" unfolding unsigned_1 by linarith
  then show "checked_add a 1 = Inr (a + 1)" "unat (a + 1) = Suc (unat a)"
    using unat_add_checked[of a 1] by (simp_all add: checked_add_def)
qed

lemma advance_cursor_correct:
  assumes "cursor_ok t"
  shows "\<exists>x y. advance_cursor t = Inr (t\<lparr>cursor_x := x, cursor_y := y\<rparr>) \<and> cursor_ok (t\<lparr>cursor_x := x, cursor_y := y\<rparr>) \<and>
           cursor_pos (t\<lparr>cursor_x := x, cursor_y := y\<rparr>) = (cursor_pos t + 1) mod cells t"
proof -
  let ?C = "unat (columns t)" and ?R = "unat (rows t)" and ?x = "unat (cursor_x t)" and ?y = "unat (cursor_y t)"
  have lt: "?x < ?C" "?y < ?R" using assms by (simp_all add: cursor_ok_def)
  note X = unat_Suc_checked[OF lt(1)] and Y = unat_Suc_checked[OF lt(2)]
  show ?thesis
  proof (cases "columns t \<le> cursor_x t + 1")
    case False
    then have x: "Suc ?x < ?C" using X(2) by (simp add: word_le_nat_alt)
    have "?y * ?C + Suc ?x < Suc ?y * ?C" using x by simp
    also have "\<dots> \<le> ?R * ?C" using lt(2) by (intro mult_le_mono1) simp
    finally have "(cursor_pos t + 1) mod cells t = ?y * ?C + Suc ?x" by (simp add: cursor_pos_def cells_def)
    with False X x lt(2) show ?thesis
      by (intro exI[of _ "cursor_x t + 1"] exI[of _ "cursor_y t"])
        (simp add: advance_cursor_def cursor_ok_def cursor_pos_def)
  next
    case True
    then have x: "Suc ?x = ?C" using X(2) lt(1) by (simp add: word_le_nat_alt)
    have pos: "cursor_pos t + 1 = Suc ?y * ?C" using x by (simp add: cursor_pos_def)
    show ?thesis
    proof (cases "rows t \<le> cursor_y t + 1")
      case True
      then have "Suc ?y = ?R" using Y(2) lt(2) by (simp add: word_le_nat_alt)
      with pos have "(cursor_pos t + 1) mod cells t = 0" by (simp add: cells_def)
      with True \<open>columns t \<le> cursor_x t + 1\<close> X Y lt show ?thesis
        by (intro exI[of _ 0]) (simp add: advance_cursor_def cursor_ok_def cursor_pos_def)
    next
      case False
      then have y: "Suc ?y < ?R" using Y(2) by (simp add: word_le_nat_alt)
      then have "Suc ?y * ?C < ?R * ?C" using lt(1) by (intro mult_less_mono1) simp_all
      with pos have "(cursor_pos t + 1) mod cells t = Suc ?y * ?C" by (simp add: cells_def)
      with False y \<open>columns t \<le> cursor_x t + 1\<close> X Y lt show ?thesis
        by (intro exI[of _ 0] exI[of _ "cursor_y t + 1"]) (simp add: advance_cursor_def cursor_ok_def cursor_pos_def)
    qed
  qed
qed

lemma new_line_correct:
  assumes "cursor_ok t"
  shows "\<exists>y. new_line t = Inr (t\<lparr>cursor_x := 0, cursor_y := y\<rparr>) \<and> cursor_ok (t\<lparr>cursor_x := 0, cursor_y := y\<rparr>) \<and>
           unat y = (unat (cursor_y t) + 1) mod unat (rows t)"
proof -
  have lt: "unat (cursor_x t) < unat (columns t)" "unat (cursor_y t) < unat (rows t)"
    using assms by (simp_all add: cursor_ok_def)
  note Y = unat_Suc_checked[OF lt(2)]
  show ?thesis
  proof (cases "rows t \<le> cursor_y t + 1")
    case True
    then have "Suc (unat (cursor_y t)) = unat (rows t)" using Y(2) lt(2) by (simp add: word_le_nat_alt)
    with True Y(1) lt show ?thesis by (intro exI[of _ 0]) (simp add: new_line_def cursor_ok_def)
  next
    case False
    then have "Suc (unat (cursor_y t)) < unat (rows t)" using Y(2) by (simp add: word_le_nat_alt)
    with False Y lt show ?thesis
      by (intro exI[of _ "cursor_y t + 1"]) (simp add: new_line_def cursor_ok_def)
  qed
qed

section \<open>Characters and strings\<close>

text \<open>What is relied on of the font: glyphs have eight rows, and there is one for the space.\<close>

definition font_ok :: "font \<Rightarrow> bool" where
  "font_ok font \<longleftrightarrow> (\<forall>c g. font c = Some g \<longrightarrow> length g = 8) \<and> font 32 \<noteq> None"

definition glyph_of :: "font \<Rightarrow> u32 \<Rightarrow> u8 list" where
  "glyph_of font c = (case font c of Some g \<Rightarrow> g | None \<Rightarrow> the (font 32))"

lemma get_glyph_ok:
  assumes "font_ok font"
  shows "get_glyph font c = Inr (glyph_of font c)" "length (glyph_of font c) = 8"
  using assms by (auto simp: font_ok_def get_glyph_def glyph_of_def split: option.splits)

lemma print_glyph_correct:
  assumes f: "font_ok font" and g: "geometry t" "cursor_ok t"
  shows "\<exists>x y. print_glyph font c t =
             Inr (t\<lparr>fb := blit t (glyph_of font c) ({..<8} \<times> {..<8}) (fb t), cursor_x := x, cursor_y := y\<rparr>) \<and>
           cursor_ok (t\<lparr>cursor_x := x, cursor_y := y\<rparr>) \<and>
           cursor_pos (t\<lparr>cursor_x := x, cursor_y := y\<rparr>) = (cursor_pos t + 1) mod cells t"
proof -
  note gl = get_glyph_ok[OF f, of c]
  obtain a b where ab: "checked_mul (cursor_x t) 8 = Inr a" "checked_add MARGIN a = Inr (MARGIN + a)"
      "unat (MARGIN + a) = 16 + 8 * unat (cursor_x t)" "checked_mul (cursor_y t) 8 = Inr b"
      "checked_add MARGIN b = Inr (MARGIN + b)" "unat (MARGIN + b) = 16 + 8 * unat (cursor_y t)"
    using cursor_start[OF g] by blast
  let ?m = "blit t (glyph_of font c) ({..<8} \<times> {..<8}) (fb t)"
  have "print_glyph font c t = advance_cursor (t\<lparr>fb := ?m\<rparr>)"
    using draw_glyph_correct[OF g gl(2) ab(3,6) refl] by (simp add: print_glyph_def gl(1) ab fb_len_correct[OF g(1)])
  moreover have "cursor_ok (t\<lparr>fb := ?m\<rparr>)" using g(2) by (simp add: cursor_ok_def)
  ultimately show ?thesis
    using advance_cursor_correct[of "t\<lparr>fb := ?m\<rparr>"] by (simp add: cursor_ok_def cursor_pos_def cells_def)
qed

definition config :: "terminal \<Rightarrow> spin_lock \<times> u64 \<times> u32 \<times> u32 \<times> format \<times> u32 \<times> u32" where
  "config t = (t_lock t, framebuffer t, scan_width t, t_height t, t_format t, rows t, columns t)"

text \<open>The bytes of the text area: the three colour bytes of the pixels inside the margins.\<close>

definition in_text_area :: "terminal \<Rightarrow> nat \<Rightarrow> bool" where
  "in_text_area t i \<longleftrightarrow> i mod 4 < 3 \<and>
     (let px = i div 4 mod unat (scan_width t); py = i div 4 div unat (scan_width t)
      in 16 \<le> px \<and> px < 16 + 8 * unat (columns t) \<and> 16 \<le> py \<and> py < 16 + 8 * unat (rows t))"

lemma blit_frame:
  assumes "cursor_ok t" "S \<subseteq> {..<8} \<times> {..<8}" "\<not> in_text_area t i"
  shows "blit t g S m i = m i"
proof -
  let ?px = "i div 4 mod unat (scan_width t)" and ?py = "i div 4 div unat (scan_width t)"
  let ?x0 = "16 + 8 * unat (cursor_x t)" and ?y0 = "16 + 8 * unat (cursor_y t)"
  have "\<not> (i mod 4 < 3 \<and> ?x0 \<le> ?px \<and> ?y0 \<le> ?py \<and> (?px - ?x0, ?py - ?y0) \<in> S)"
  proof
    assume in_S: "i mod 4 < 3 \<and> ?x0 \<le> ?px \<and> ?y0 \<le> ?py \<and> (?px - ?x0, ?py - ?y0) \<in> S"
    then have "?px - ?x0 < 8" "?py - ?y0 < 8" using assms(2) by auto
    with in_S assms(1) have "in_text_area t i" unfolding in_text_area_def cursor_ok_def Let_def by linarith
    with assms(3) show False ..
  qed
  then show ?thesis unfolding blit_def Let_def by (rule if_not_P)
qed

definition good_after :: "terminal \<Rightarrow> terminal \<Rightarrow> bool" where
  "good_after t t' \<longleftrightarrow> config t' = config t \<and> cursor_ok t' \<and> (\<forall>i. \<not> in_text_area t i \<longrightarrow> fb t' i = fb t i)"

lemma good_after_trans:
  "good_after t t' \<Longrightarrow> good_after t' t'' \<Longrightarrow> good_after t t''"
  by (auto simp: good_after_def config_def in_text_area_def)

lemma good_after_geometry: "good_after t t' \<Longrightarrow> geometry t \<Longrightarrow> geometry t' \<and> cursor_ok t'"
  by (auto simp: good_after_def config_def geometry_def)

lemma print_char_good:
  assumes f: "font_ok font" and g: "geometry t" "cursor_ok t"
  shows "\<exists>t'. print_char font c t = Inr t' \<and> good_after t t'"
proof -
  obtain x y where gl: "print_glyph font c t =
      Inr (t\<lparr>fb := blit t (glyph_of font c) ({..<8} \<times> {..<8}) (fb t), cursor_x := x, cursor_y := y\<rparr>)"
      "cursor_ok (t\<lparr>cursor_x := x, cursor_y := y\<rparr>)"
    using print_glyph_correct[OF assms] by blast
  have "good_after t (t\<lparr>fb := blit t (glyph_of font c) ({..<8} \<times> {..<8}) (fb t), cursor_x := x, cursor_y := y\<rparr>)"
    using gl(2) blit_frame[OF g(2) order.refl] by (simp add: good_after_def config_def cursor_ok_def)
  moreover obtain z where "new_line t = Inr (t\<lparr>cursor_x := 0, cursor_y := z\<rparr>)" "cursor_ok (t\<lparr>cursor_x := 0, cursor_y := z\<rparr>)"
    using new_line_correct[OF g(2)] by blast
  ultimately show ?thesis
    using gl(1) g(2) by (auto simp: print_char_def good_after_def config_def cursor_ok_def split: mode.split)
qed

lemma print_chars_good:
  assumes f: "font_ok font" and g: "geometry t" "cursor_ok t"
  shows "\<exists>t'. for_each msg (print_char font) t = Inr t' \<and> good_after t t'"
proof (rule for_each_invariant[where P = "\<lambda>_ t'. good_after t t'"])
  show "good_after t t" using g(2) by (simp add: good_after_def)
  fix t1 c assume "good_after t t1"
  then show "\<exists>t'. print_char font c t1 = Inr t' \<and> good_after t t'"
    using print_char_good[OF f] good_after_geometry g(1) good_after_trans by blast
qed

lemma print_unlocked:
  assumes "\<not> locked (t_lock t)"
  shows "print font msg t = and_then (for_each msg (print_char font) (t\<lparr>t_lock := \<lparr>locked = True\<rparr>\<rparr>))
           (\<lambda>t'. Inr (t'\<lparr>t_lock := spin_unlock (t_lock t')\<rparr>))"
proof -
  have "lock spin_try_lock (t_lock t) = Some \<lparr>locked = True\<rparr>"
    using assms by (subst lock.simps) (cases "t_lock t", simp add: spin_try_lock_def)
  then show ?thesis by (simp add: print_def)
qed

lemma print_good:
  assumes f: "font_ok font" and inv: "term_inv t"
  shows "\<exists>t'. print font msg t = Inr t' \<and> term_inv t' \<and> good_after t t'"
proof -
  let ?t = "t\<lparr>t_lock := \<lparr>locked = True\<rparr>\<rparr>"
  have g: "geometry ?t" "cursor_ok ?t" and l: "\<not> locked (t_lock t)"
    using inv by (simp_all add: term_inv_def geometry_def cursor_ok_def)
  obtain t' where t': "for_each msg (print_char font) ?t = Inr t'" "good_after ?t t'"
    using print_chars_good[OF f g] by blast
  let ?u = "t'\<lparr>t_lock := spin_unlock (t_lock t')\<rparr>"
  have "print font msg t = Inr ?u" using t'(1) by (simp add: print_unlocked[OF l])
  moreover have "good_after t ?u"
    using t'(2) l by (cases "t_lock t") (auto simp: good_after_def config_def in_text_area_def cursor_ok_def spin_unlock_def)
  moreover have "term_inv ?u"
    using calculation(2) inv good_after_geometry[of t ?u] by (simp add: term_inv_def spin_unlock_def)
  ultimately show ?thesis by blast
qed

section \<open>Escape sequences\<close>

text \<open>
  The escape state machine on its own: mode and colour. A print runs it on the characters of the
  string, whatever it draws.
\<close>

type_synonym style = "mode \<times> u8 \<times> u8 \<times> u8"

definition style_of :: "terminal \<Rightarrow> style" where
  "style_of t = (t_mode t, color_r t, color_g t, color_b t)"

fun style_step :: "u32 \<Rightarrow> style \<Rightarrow> style" where
  "style_step c (SetR, r, g, b) = (SetG, ucast c, g, b)"
| "style_step c (SetG, r, g, b) = (SetB, r, ucast c, b)"
| "style_step c (SetB, r, g, b) = (Print, r, g, ucast c)"
| "style_step c (Print, r, g, b) = (if c = 0x1B then (SetR, r, g, b) else (Print, r, g, b))"

lemma print_char_style:
  assumes "print_char font c t = Inr t'"
  shows "style_of t' = style_step c (style_of t)"
proof -
  have adv: "style_of u' = style_of u" if "advance_cursor u = Inr u'" for u u'
    using that by (cases "checked_add (cursor_x u) 1"; cases "checked_add (cursor_y u) 1")
      (auto simp: advance_cursor_def style_of_def split: if_splits)
  have "style_of t' = style_of t" if "print_glyph font c t = Inr t'"
  proof -
    from that obtain m where "advance_cursor (t\<lparr>fb := m\<rparr>) = Inr t'"
      unfolding print_glyph_def and_then_eq_Inr by blast
    from adv[OF this] show ?thesis by (simp add: style_of_def)
  qed
  moreover have "style_of t' = style_of t" if "new_line t = Inr t'"
    using that by (cases "checked_add (cursor_y t) 1") (auto simp: new_line_def style_of_def)
  ultimately show ?thesis
    using assms by (auto simp: print_char_def style_of_def split: mode.splits if_splits)
qed

lemma print_chars_style:
  "for_each msg (print_char font) t = Inr t' \<Longrightarrow> style_of t' = fold style_step msg (style_of t)"
  by (induction msg arbitrary: t) (auto simp: sum_simps dest!: print_char_style)

lemma print_style:
  assumes "\<not> locked (t_lock t)" "print font msg t = Inr t'"
  shows "style_of t' = fold style_step msg (style_of t)" "\<not> locked (t_lock t')"
  using assms print_chars_style[of msg font "t\<lparr>t_lock := \<lparr>locked = True\<rparr>\<rparr>"]
  by (auto simp: print_unlocked sum_simps style_of_def spin_unlock_def)

lemma write_pieces_style:
  assumes "\<not> locked (t_lock t)" "write_pieces font ps t = Inr t'"
  shows "style_of t' = fold style_step (concat ps) (style_of t)"
  using assms
proof (induction ps arbitrary: t)
  case Nil
  then show ?case by (simp add: write_pieces_def)
next
  case (Cons p ps)
  then obtain u where u: "print font p t = Inr u" "write_pieces font ps u = Inr t'"
    by (auto simp: write_pieces_def sum_simps)
  from Cons.IH[OF print_style(2)[OF Cons.prems(1) u(1)] u(2)] print_style(1)[OF Cons.prems(1) u(1)]
  show ?case by simp
qed

lemma write_pieces_good:
  assumes f: "font_ok font" and inv: "term_inv t"
  shows "\<exists>t'. write_pieces font ps t = Inr t' \<and> term_inv t' \<and> good_after t t'"
  unfolding write_pieces_def
proof (rule for_each_invariant[where P = "\<lambda>_ t'. term_inv t' \<and> good_after t t'"])
  show "term_inv t \<and> good_after t t" using inv by (simp add: good_after_def term_inv_def)
  fix t1 p assume "term_inv t1 \<and> good_after t t1"
  then show "\<exists>t'. print font p t1 = Inr t' \<and> term_inv t' \<and> good_after t t'"
    using print_good[OF f] good_after_trans by blast
qed

definition plain :: "u32 list \<Rightarrow> bool" where
  "plain s \<longleftrightarrow> 0x1B \<notin> set s"

lemma plain_simps [simp]:
  "plain []" "plain (c # s) \<longleftrightarrow> c \<noteq> 0x1B \<and> plain s" "plain (s @ s') \<longleftrightarrow> plain s \<and> plain s'"
  by (auto simp: plain_def)

lemma fold_plain: "plain s \<Longrightarrow> fold style_step s (Print, r, g, b) = (Print, r, g, b)"
  by (induction s) auto

lemma fold_escape: "fold style_step (escape r g b) (Print, r', g', b') = (Print, ucast r, ucast g, ucast b)"
  by (simp add: escape_def)

lemma plain_center: "plain s \<Longrightarrow> plain (concat (center n s))"
proof -
  have "plain (concat (replicate k [32]))" for k by (induction k) simp_all
  then show "plain s \<Longrightarrow> ?thesis" by (simp add: center_def Let_def)
qed

lemma info_pieces_style:
  assumes "plain ctx" "plain (concat body)"
  shows "fold style_step (concat (info_pieces ctx body)) (Print, r, g, b) = (Print, 255, 255, 255)"
  using assms plain_center[OF assms(1), of 15]
  by (simp add: info_pieces_def white_def fold_escape fold_plain)

lemma trailing_pieces_style:
  assumes "plain ctx" "plain (concat body)" "color = escape cr cg cb"
  shows "fold style_step (concat (trailing_pieces color ctx body)) (Print, r, g, b) = (Print, 255, 255, 255)"
  using assms plain_center[OF assms(1), of 15]
  by (simp add: trailing_pieces_def white_def fold_escape fold_plain)

lemma macro_restores:
  assumes "font_ok font" "term_inv t" "t_mode t = Print" "plain ctx" "plain (concat body)"
    and "f \<in> {info_macro, verbose_macro, warning_macro, error_macro}"
  shows "\<exists>t'. f font ctx body t = Inr t' \<and> term_inv t' \<and> style_of t' = (Print, 255, 255, 255)"
proof -
  obtain ps where ps: "f font ctx body t = write_pieces font ps t"
      "\<And>r g b. fold style_step (concat ps) (Print, r, g, b) = (Print, 255, 255, 255)"
    using assms(6) info_pieces_style[OF assms(4,5)] trailing_pieces_style[OF assms(4,5) refl]
    unfolding info_macro_def verbose_macro_def warning_macro_def error_macro_def by fast
  obtain t' where t': "write_pieces font ps t = Inr t'" "term_inv t'"
    using write_pieces_good[OF assms(1,2)] by blast
  have "\<not> locked (t_lock t)" using assms(2) by (simp add: term_inv_def)
  from write_pieces_style[OF this t'(1)] ps(2) assms(3) have "style_of t' = (Print, 255, 255, 255)"
    by (simp add: style_of_def)
  with t' ps(1) show ?thesis by auto
qed

section \<open>Initialization\<close>

lemma terminal_init_cases:
  "(40 \<le> unat (screen_height kh) \<and> 40 \<le> unat (screen_width kh) \<and>
      unat (screen_width kh) \<le> unat (screen_scanline_width kh) \<and>
      4 * (unat (screen_scanline_width kh) * unat (screen_height kh)) < 2 ^ 32 \<longrightarrow>
      (\<exists>t. terminal_init kh memory = Inr t \<and> term_inv t \<and> style_of t = (Print, 255, 255, 255) \<and>
           unat (rows t) = (unat (screen_height kh) - 32) div 8 \<and>
           unat (columns t) = (unat (screen_width kh) - 32) div 8)) \<and>
   (unat (screen_height kh) < 32 \<or> unat (screen_width kh) < 32 \<longrightarrow> terminal_init kh memory = Inl Overflow)"
proof (intro conjI impI)
  have m: "MARGIN * 2 = 32" by (simp add: MARGIN_def)
  show "terminal_init kh memory = Inl Overflow" if "unat (screen_height kh) < 32 \<or> unat (screen_width kh) < 32"
    using that by (auto simp: terminal_init_def m checked_sub_def word_le_nat_alt)
  assume a: "40 \<le> unat (screen_height kh) \<and> 40 \<le> unat (screen_width kh) \<and>
      unat (screen_width kh) \<le> unat (screen_scanline_width kh) \<and>
      4 * (unat (screen_scanline_width kh) * unat (screen_height kh)) < 2 ^ 32"
  have le: "32 \<le> screen_height kh" "32 \<le> screen_width kh" using a by (simp_all add: word_le_nat_alt)
  then have d: "unat ((screen_height kh - 32) div 8) = (unat (screen_height kh) - 32) div 8"
    "unat ((screen_width kh - 32) div 8) = (unat (screen_width kh) - 32) div 8"
    by (simp_all add: unat_div unat_sub_checked)
  have g: "0 < (unat (screen_height kh) - 32) div 8" "0 < (unat (screen_width kh) - 32) div 8"
    "16 + 8 * ((unat (screen_height kh) - 32) div 8) \<le> unat (screen_height kh)"
    "16 + 8 * ((unat (screen_width kh) - 32) div 8) \<le> unat (screen_scanline_width kh)"
    using a by auto
  show "\<exists>t. terminal_init kh memory = Inr t \<and> term_inv t \<and> style_of t = (Print, 255, 255, 255) \<and>
      unat (rows t) = (unat (screen_height kh) - 32) div 8 \<and> unat (columns t) = (unat (screen_width kh) - 32) div 8"
    using a le d g
    by (simp add: terminal_init_def m checked_sub_def term_inv_def geometry_def cursor_ok_def style_of_def spin_new_def mult.commute)
qed

lemma clear_black:
  assumes "term_inv t"
  shows "\<exists>t'. clear t = Inr t' \<and> term_inv t' \<and>
    (\<forall>i. fb t' i = (if i < 4 * (unat (scan_width t) * unat (t_height t)) then 0 else fb t i))"
proof -
  have l: "\<not> locked (t_lock t)" and g: "geometry t" "cursor_ok t" using assms by (simp_all add: term_inv_def)
  from fb_len_correct[OF g(1)] l g show ?thesis
    by (simp add: clear_def with_guard_code term_inv_def term_inv_simps)
qed

lemma clear_style: "clear t = Inr t' \<Longrightarrow> style_of t' = style_of t"
  by (auto simp: clear_def sum_simps style_of_def)

end
