(* ===== verification/Log_Sink.thy ===== *)
theory Log_Sink
  imports Logging Terminal_Correct
begin

text \<open>
  What the components of the kernel rely on when they log: a locale \<open>log_sink\<close> for a logger and the states in
  which it works. In such a state a message without escape characters is printed without a panic
  or a hang and leaves such a state. The terminal is a sink for every complete font: its good states are those that satisfy
  its invariant and print in white.
\<close>

section \<open>Messages are plain\<close>

lemma digit_plain: "d < 16 \<Longrightarrow> 27 < c \<Longrightarrow> c < 100 \<Longrightarrow> of_nat (c + d) \<noteq> (0x1B :: u32)"
proof
  assume d: "d < 16" "27 < c" "c < (100 :: nat)" and "of_nat (c + d) = (0x1B :: u32)"
  then have "unat (of_nat (c + d) :: u32) = 27" by simp
  moreover have "c + d < 2 ^ LENGTH(32)" using d by simp
  ultimately have "c + d = 27" by (simp only: unat_of_nat_small)
  with d(2) show False by simp
qed

lemma hex_digits_plain [simp]: "plain (hex_digits n)"
proof (induction n rule: hex_digits.induct)
  case (1 n)
  have "n mod 16 < 16" by simp
  with 1 digit_plain[of "n mod 16" 48] digit_plain[of "n mod 16" 55] show ?case
    by (subst hex_digits.simps) (simp only: Let_def plain_simps if_distrib[of plain] split: if_splits, simp)
qed

lemma dec_digits_plain [simp]: "plain (dec_digits n)"
proof (induction n rule: dec_digits.induct)
  case (1 n)
  have "n mod 10 < 16" by (rule less_trans[of _ 10]) simp_all
  with 1 digit_plain[of "n mod 10" 48] show ?case
    by (subst dec_digits.simps) (simp only: Let_def plain_simps if_distrib[of plain] split: if_splits, simp)
qed

lemma chars_append [simp]: "chars (s @ s') = chars s @ chars s'"
  by (simp add: chars_def)

definition plain_message :: "u32 list list \<Rightarrow> bool" where
  "plain_message body \<longleftrightarrow> plain (concat body)"

lemma plain_message_simps [simp]:
  "plain_message []" "plain_message (p # ps) \<longleftrightarrow> plain p \<and> plain_message ps"
  "plain_message (ps @ qs) \<longleftrightarrow> plain_message ps \<and> plain_message qs"
  "plain_message (hex016 w)" "plain_message (hex02 w)"
proof -
  have z: "plain (concat (replicate k [48]))" for k by (induction k) simp_all
  show "plain_message []" "plain_message (p # ps) \<longleftrightarrow> plain p \<and> plain_message ps"
    "plain_message (ps @ qs) \<longleftrightarrow> plain_message ps \<and> plain_message qs" by (simp_all add: plain_message_def)
  show "plain_message (hex016 w)" "plain_message (hex02 w)"
    using z by (simp_all add: plain_message_def hex016_def hex02_def Let_def chars_def)
qed

text \<open>Literals without the escape character; the test is evaluated on characters.\<close>

definition plain_text :: "string \<Rightarrow> bool" where
  "plain_text s \<longleftrightarrow> CHR 0x1B \<notin> set s"

lemma plain_text_Nil [simp]: "plain_text []"
  by (simp add: plain_text_def)

lemma plain_text_Cons [simp]: "plain_text (c # s) \<longleftrightarrow> c \<noteq> CHR 0x1B \<and> plain_text s"
  by (auto simp: plain_text_def)

lemma of_char_27: "(of_char c :: u32) = 0x1B \<longleftrightarrow> c = CHR 0x1B"
proof
  assume "(of_char c :: u32) = 0x1B"
  then have "unat (of_nat (of_char c) :: u32) = 27" unfolding of_nat_of_char by simp
  moreover have "(of_char c :: nat) < 2 ^ LENGTH(32)" by (rule less_trans[OF nat_of_char_less_256]) simp
  ultimately have "(of_char c :: nat) = of_char (CHR 0x1B)" by (simp only: unat_of_nat_small) simp
  then show "c = CHR 0x1B" by (simp only: of_char_eq_iff)
qed simp

lemma plain_chars [simp]: "plain (chars s) \<longleftrightarrow> plain_text s"
  by (induction s) (simp_all add: chars_def of_char_27)

section \<open>Code with messages and code without\<close>

text \<open>
  A computation that also logs has the outcome of one that does not: the same error, or the same result with the
  sink in a good state.
\<close>

definition same_outcome :: "('t \<Rightarrow> bool) \<Rightarrow> ('a \<times> 't) res \<Rightarrow> 'a res \<Rightarrow> bool" where
  "same_outcome ready r u \<longleftrightarrow> (case u of Inl e \<Rightarrow> r = Inl e | Inr x \<Rightarrow> \<exists>t. r = Inr (x, t) \<and> ready t)"

lemma same_outcome_simps [simp]:
  "same_outcome ready r (Inl e) \<longleftrightarrow> r = Inl e"
  "same_outcome ready (Inr (x, t)) (Inr y) \<longleftrightarrow> x = y \<and> ready t"
  by (auto simp: same_outcome_def)

lemma same_outcomeD: "same_outcome ready r (Inr x) \<Longrightarrow> \<exists>t. r = Inr (x, t) \<and> ready t"
  by (simp add: same_outcome_def)

lemma same_outcome_pure:
  "(\<And>x. r = Inr x \<Longrightarrow> same_outcome ready (f x) (g x)) \<Longrightarrow> same_outcome ready (and_then r f) (and_then r g)"
  by (cases r) simp_all

lemma same_outcome_return: "ready t \<Longrightarrow> same_outcome ready (and_then u (\<lambda>x. Inr (x, t))) u"
  by (cases u) simp_all

lemma same_outcome_bind:
  assumes "same_outcome ready r u" "\<And>x t. u = Inr x \<Longrightarrow> ready t \<Longrightarrow> same_outcome ready (f (x, t)) (g x)"
  shows "same_outcome ready (and_then r f) (and_then u g)"
  using assms by (cases u) (auto dest: same_outcomeD)

lemma same_outcome_for_each:
  assumes "\<And>x s t. x \<in> set xs \<Longrightarrow> ready t \<Longrightarrow> same_outcome ready (f x (s, t)) (g x s)" "ready t"
  shows "same_outcome ready (for_each xs f (s, t)) (for_each xs g s)"
  using assms
proof (induction xs arbitrary: s t)
  case (Cons x xs)
  have "same_outcome ready (f x (s, t)) (g x s)" using Cons.prems by simp
  then show ?case using Cons by (auto intro: same_outcome_bind)
qed simp

section \<open>Sinks\<close>

locale log_sink =
  fixes emit :: "'t logger" and ready :: "'t \<Rightarrow> bool"
  assumes log_ready: "ready t \<Longrightarrow> plain_text ctx \<Longrightarrow> plain_message body \<Longrightarrow>
    \<exists>t'. emit lvl ctx body t = Inr t' \<and> ready t'"
begin

text \<open>A message in front of other code only changes the state of the sink.\<close>

lemma log_then:
  assumes "ready t" "plain_text ctx" "plain_message body"
    and "\<And>t'. ready t' \<Longrightarrow> P (f t')"
  shows "P (and_then (emit lvl ctx body t) f)"
proof -
  from log_ready[OF assms(1-3), of lvl] obtain t' where "emit lvl ctx body t = Inr t'" "ready t'" by blast
  with assms(4) show ?thesis by simp
qed

end

definition white_terminal :: "terminal \<Rightarrow> bool" where
  "white_terminal t \<longleftrightarrow> term_inv t \<and> style_of t = (Print, 255, 255, 255)"

locale complete_font =
  fixes font :: font
  assumes font_ok: "font_ok font"

sublocale complete_font \<subseteq> terminal: log_sink "terminal_log font" white_terminal
proof
  fix t ctx body lvl
  assume t: "white_terminal t" and p: "plain_text ctx" "plain_message body"
  have m: "t_mode t = Print" using t by (simp add: white_terminal_def style_of_def)
  have "\<exists>t'. f font (chars ctx) body t = Inr t' \<and> white_terminal t'"
    if "f \<in> {info_macro, verbose_macro, warning_macro, error_macro}" for f
    using macro_restores[OF font_ok _ m _ _ that, of "chars ctx" body] t p
    by (simp add: white_terminal_def plain_message_def)
  then show "\<exists>t'. terminal_log font lvl ctx body t = Inr t' \<and> white_terminal t'"
    by (simp add: terminal_log_def split: level.split)
qed

context complete_font
begin

lemma terminal_sink: "log_sink (terminal_log font) white_terminal" ..

end

lemma terminal_is_sink: "font_ok font \<Longrightarrow> log_sink (terminal_log font) white_terminal"
  by (rule complete_font.terminal_sink[OF complete_font.intro])

text \<open>Before \<open>init\<close> the terminal is no sink: the first glyph is drawn outside the empty framebuffer.\<close>

lemma uninitialised_terminal_panics:
  assumes "font_ok font"
  shows "terminal_log font Info ctx body (INFO memory) = Inl IndexOutOfBounds"
proof -
  obtain g where g: "get_glyph font 0x5B = Inr g" "length g = 8" using get_glyph_ok[OF assms] by blast
  have r: "for_range 0 8 f s = and_then (f 0 s) (for_each [1..<8] f)" for f :: "nat \<Rightarrow> 'a \<Rightarrow> 'a res" and s
    by (simp add: for_range_def upt_rec[of 0])
  have "draw_glyph t 0 16 16 g m = Inl IndexOutOfBounds" if "scan_width t = 0" for t m
    using that g(2) by (simp add: draw_glyph_def r put_pixel_def pixel_index_def fb_store_def checked_add_def checked_mul_def split: prod.split)
  moreover have "lock spin_try_lock \<lparr>locked = False\<rparr> = Some \<lparr>locked = True\<rparr>"
    by (subst lock.simps) (simp add: spin_try_lock_def)
  ultimately show ?thesis
    using g(1)
    by (simp add: terminal_log_def info_macro_def write_pieces_def info_pieces_def escape_def print_def INFO_def spin_new_def
      print_char_def print_glyph_def fb_len_def checked_add_def checked_mul_def MARGIN_def)
qed

text \<open>While the terminal is locked, every message waits for ever.\<close>

lemma print_locked: "locked (t_lock t) \<Longrightarrow> print font msg t = Inl Hang"
  by (simp add: print_def spin.lock_held)

lemma terminal_log_locked: "locked (t_lock t) \<Longrightarrow> terminal_log font lvl ctx body t = Inl Hang"
  by (simp add: terminal_log_def write_pieces_def info_macro_def verbose_macro_def warning_macro_def error_macro_def
    info_pieces_def trailing_pieces_def print_locked split: level.split)

text \<open>A logger that drops its messages.\<close>

definition silent :: "unit logger" where
  "silent lvl ctx body t = Inr t"

interpretation quiet: log_sink silent "\<lambda>_. True"
  by unfold_locales (simp add: silent_def)

end
