(* ===== verification/Phys_Log.thy ===== *)
theory Phys_Log
  imports Phys_Init Log_Sink
begin

text \<open>
  The messages of the initialization of the physical memory manager. The loop that counts the free lists for the log
  ends on well-formed lists, and its counter does not overflow below \<open>2 ^ 31\<close> pages; with a working sink the
  initialization then has the outcome of \<open>manager_new\<close>, which does not log.
\<close>

section \<open>Counting a free list\<close>

lemma count_entries_dseg:
  assumes "dseg h p a xs 0" "unat c + length xs < 2 ^ 31"
  shows "count_entries h a c = Some (Inr (c + of_nat (length xs)))"
  using assms
proof (induction xs arbitrary: p a c)
  case Nil
  then show ?case by (subst count_entries.simps) simp
next
  case (Cons x xs)
  have c: "unat c + 1 < 2 ^ 31" using Cons.prems(2) by simp
  then have "unat c + unat (1 :: u32) < 2 ^ LENGTH(32)" by simp
  from unat_add_checked[OF this] have s: "unat (c + 1) = unat c + 1" by simp
  have "c \<noteq> 0x7FFFFFFF" using c by auto
  with Cons.prems Cons.IH[of x "fe_next (h x)" "c + 1"] s show ?case
    by (subst count_entries.simps) (simp add: algebra_simps)
qed

lemma count_regions_length: "free_list h a xs \<Longrightarrow> length xs < 2 ^ 31 \<Longrightarrow> count_regions h a = Inr (of_nat (length xs))"
  using count_entries_dseg[of h 0 a xs 0] by (simp add: free_list_def count_regions_def)

text \<open>On a list that closes into a cycle the loop counts until the counter overflows.\<close>

lemma count_cycle_overflows:
  assumes "a \<noteq> 0" "fe_next (h a) = a" "c \<le> 0x7FFFFFFF"
  shows "count_entries h a c = Some (Inl Overflow)"
  using assms(3)
proof (induction "0x7FFFFFFF - unat c" arbitrary: c rule: less_induct)
  case less
  show ?case
  proof (cases "c = 0x7FFFFFFF")
    case True
    then show ?thesis using assms(1) by (subst count_entries.simps) simp
  next
    case False
    then have "unat c \<noteq> unat (0x7FFFFFFF :: u32)" by (simp only: unat_eq_unat not_False_eq_True)
    then have c: "unat c < 0x7FFFFFFF" using less.prems by (simp add: word_le_nat_alt)
    then have "unat c + unat (1 :: u32) < 2 ^ LENGTH(32)" by simp
    from unat_add_checked[OF this] have "unat (c + 1) = unat c + 1" by simp
    with c less.hyps[of "c + 1"] False assms(1,2) show ?thesis
      by (subst count_entries.simps) (simp add: word_le_nat_alt)
  qed
qed

definition countable_lists :: "phys_state \<Rightarrow> bool" where
  "countable_lists s \<longleftrightarrow> length (free_lists s) = MAX_ORDER + 1 \<and>
     (\<forall>k\<le>MAX_ORDER. \<exists>c. count_regions (heap s) (free_lists s ! k) = Inr c)"

context phys_storage
begin

lemma list_lengths:
  assumes "phys_rel st N s L" "N \<le> n" "k \<le> MAX_ORDER"
  shows "length (L k) \<le> N"
proof -
  have "unat ` set (L k) \<subseteq> {..<N}"
    using list_index_bound(1)[OF assms] by auto
  then have "card (unat ` set (L k)) \<le> N" using card_mono[of "{..<N}"] by fastforce
  moreover have "inj_on unat (set (L k))" by (rule inj_onI) simp
  ultimately show ?thesis using distinct_card[OF list_distinct[OF assms(1,3)]] by (simp add: card_image)
qed

lemma phys_inv_countable:
  assumes "phys_inv st n s" "64 * length (buddy_map s) < 2 ^ 31"
  shows "countable_lists s"
proof -
  obtain L where L: "phys_rel st (64 * length (buddy_map s)) s L" "64 * length (buddy_map s) \<le> n"
    using assms(1) by (auto simp: phys_inv_def)
  have "count_regions (heap s) (free_lists s ! k) = Inr (of_nat (length (L k)))" if "k \<le> MAX_ORDER" for k
    using count_regions_length[OF phys_relD(3)[OF L(1) that]] list_lengths[OF L that] assms(2) by simp
  with phys_relD(1)[OF L(1)] show ?thesis by (auto simp: countable_lists_def)
qed

end

section \<open>Initialization with messages\<close>

text \<open>The segments that the storage leaves end inside 64 bits.\<close>

definition keeps_limits :: "storage \<Rightarrow> memory_segment list \<Rightarrow> bool" where
  "keeps_limits st mmap \<longleftrightarrow>
     (\<forall>a bm mmap'. storage_new st a mmap = Inr (bm, mmap') \<longrightarrow> (\<forall>e\<in>set mmap'. segment_limit e < 2 ^ 64))"

text \<open>The initialization up to the counts.\<close>

definition logged_segments ::
    "'t logger \<Rightarrow> storage \<Rightarrow> heap \<Rightarrow> memory_segment list \<Rightarrow> 't \<Rightarrow> ((phys_manager \<times> memory_segment list) \<times> 't) res" where
  "logged_segments emit st h mmap t =
     and_then (emit Info ''PhysManager'' [chars ''Starting initialization''] t) (\<lambda>t1.
     and_then (max_end mmap) (\<lambda>r.
     and_then (expect ''Memory Map is empty'' r) (\<lambda>max_address.
     and_then (emit Verbose ''PhysManager'' (chars ''max_address='' # hex016 max_address) t1) (\<lambda>t2.
     and_then (storage_new st (drop_bit 12 max_address) mmap) (\<lambda>(bm, mmap').
     let res = \<lparr>pm_lock = spin_new,
                pm_state = \<lparr>free_lists = replicate (MAX_ORDER + 1) 0, buddy_map = bm, heap = h\<rparr>\<rparr> in
     and_then (for_each (filter (\<lambda>e. seg_state e = Free) mmap') (add_segment emit st) (res, t2)) (\<lambda>(m, t3).
       Inr ((m, mmap'), t3)))))))"

lemma phys_manager_new_split:
  "phys_manager_new emit st h mmap t =
     and_then (logged_segments emit st h mmap t) (\<lambda>((m, mmap'), t3).
     and_then (log_counts emit (pm_state m) t3) (\<lambda>t4.
     and_then (emit Info ''PhysManager'' [chars ''Initialized''] t4) (\<lambda>t5. Inr (m, mmap', t5))))"
  by (simp add: phys_manager_new_def logged_segments_def and_then_assoc case_prod_unfold Let_def del: replicate_Suc)

context log_sink
begin

lemma log_counts_ready:
  assumes "countable_lists s" "ready t"
  shows "\<exists>t'. log_counts emit s t = Inr t' \<and> ready t'"
  unfolding log_counts_def
proof (rule for_range_invariant[where P = "\<lambda>_. ready"])
  fix k u assume k: "k < MAX_ORDER + 1" and u: "ready u"
  then have "k \<le> MAX_ORDER" by simp
  then obtain c where c: "count_regions (heap s) (free_lists s ! k) = Inr c" using assms(1) by (auto simp: countable_lists_def)
  have "slice_get (free_lists s) k = Inr (free_lists s ! k)" using k assms(1) by (simp add: countable_lists_def)
  with c log_ready[OF u] show "\<exists>t'. and_then (slice_get (free_lists s) k) (\<lambda>tmp. and_then (count_regions (heap s) tmp) (\<lambda>count.
      emit Verbose ''PhysManager'' [dec_digits (unat count), chars '' regions of order '', dec_digits k] u)) = Inr t' \<and> ready t'"
    by simp
qed (use assms in simp_all)

lemma add_segment_outcome:
  assumes "segment_limit e < 2 ^ 64" "ready t"
  shows "same_outcome ready (add_segment emit st e (m, t))
    (and_then (add_region st (drop_bit 12 (seg_start e)) (seg_page_count e) m) (\<lambda>(_, m'). Inr m'))"
proof -
  obtain a where "segment_end e = Inr a" using segment_end_Inr[OF assms(1)] by blast
  then show ?thesis
    unfolding add_segment_def using assms(2)
    by (auto intro!: log_then[where P = "\<lambda>r. same_outcome ready r _"] same_outcome_pure)
qed

lemma new_empty_map: "ready t \<Longrightarrow> phys_manager_new emit st h [] t = Inl (Message ''Memory Map is empty'')"
  by (auto simp: phys_manager_new_def intro!: log_then[where P = "\<lambda>r. r = Inl (Message ''Memory Map is empty'')"])

lemma new_overflow:
  assumes "ready t" "\<exists>e\<in>set mmap. 2 ^ 64 \<le> segment_limit e"
  shows "phys_manager_new emit st h mmap t = Inl Overflow"
proof -
  have "max_end mmap = Inl Overflow" using assms(2) max_end_overflow by blast
  with assms(1) show ?thesis
    by (auto simp: phys_manager_new_def intro!: log_then[where P = "\<lambda>r. r = Inl Overflow"])
qed

lemma logged_segments_outcome:
  assumes "ready t" "keeps_limits st mmap"
  shows "same_outcome ready (logged_segments emit st h mmap t) (manager_new st h mmap)"
  unfolding logged_segments_def manager_new_def Let_def
  by (intro log_then[where P = "\<lambda>r. same_outcome ready r _"] same_outcome_pure)
    (auto intro!: log_then[where P = "\<lambda>r. same_outcome ready r _"] same_outcome_pure same_outcome_bind
      same_outcome_for_each add_segment_outcome assms(1) dest: assms(2)[unfolded keeps_limits_def, rule_format] simp del: replicate_Suc)

text \<open>
  The initialization with messages: the error of \<open>manager_new\<close>, or its result, if the segments left by the storage
  fit into 64 bits and the lists can be counted.
\<close>

lemma phys_manager_new_outcome:
  assumes "ready t" "keeps_limits st mmap"
  shows "case manager_new st h mmap of Inl x \<Rightarrow> phys_manager_new emit st h mmap t = Inl x
    | Inr (m, mmap') \<Rightarrow> countable_lists (pm_state m) \<longrightarrow>
        (\<exists>t'. phys_manager_new emit st h mmap t = Inr (m, mmap', t') \<and> ready t')"
proof (cases "manager_new st h mmap")
  case (Inl x)
  then show ?thesis using logged_segments_outcome[of t st mmap h] assms by (simp add: phys_manager_new_split)
next
  case (Inr q)
  then obtain m mmap' where q: "manager_new st h mmap = Inr (m, mmap')" by (cases q) auto
  then obtain t3 where t3: "logged_segments emit st h mmap t = Inr ((m, mmap'), t3)" "ready t3"
    using logged_segments_outcome[of t st mmap h] assms by (auto dest: same_outcomeD)
  have "\<exists>t'. phys_manager_new emit st h mmap t = Inr (m, mmap', t') \<and> ready t'" if c: "countable_lists (pm_state m)"
  proof -
    obtain t4 where t4: "log_counts emit (pm_state m) t3 = Inr t4" "ready t4"
      using log_counts_ready[OF c t3(2)] by blast
    show ?thesis
      using log_ready[OF t4(2), of "''PhysManager''" "[chars ''Initialized'']" Info] t3(1) t4(1)
      by (auto simp: phys_manager_new_split)
  qed
  with q show ?thesis by simp
qed

end

section \<open>The kernel's backend\<close>

lemma take_storage_limits:
  assumes "take_storage k mmap = Inr mmap'" "\<forall>e\<in>set mmap. segment_limit e < 2 ^ 64"
  shows "\<forall>e\<in>set mmap'. segment_limit e < 2 ^ 64"
  using assms
proof (cases "find (holds_bitmap (unat k)) mmap")
  case None
  then show ?thesis using take_storage_none assms(1) by simp
next
  case (Some e)
  from take_storage_some[OF this assms(2)] obtain xs ys e' where "mmap = xs @ e # ys" "mmap' = xs @ e' # ys"
      "unat (seg_start e') = unat (seg_start e) + 4096 * unat k" "unat (seg_page_count e') + unat k = unat (seg_page_count e)"
    using assms(1) by auto
  with assms(2) show ?thesis by (auto simp: segment_limit_def)
qed

lemma storage_limits:
  assumes "\<forall>e\<in>set mmap. segment_limit e < 2 ^ 64"
  shows "keeps_limits (inline_storage base) mmap" "keeps_limits (test_storage mem) mmap"
  using take_storage_limits[OF _ assms] assms unfolding keeps_limits_def
  by (auto simp: inline_storage_def inline_new_def test_storage_def test_new_def Let_def and_then_eq_Inr)

text \<open>
  The memory the counter can count: the bitmap has fewer than \<open>2 ^ 31\<close> bits, one per page, so that memory ends below 8 TiB.
\<close>

definition countable_memory :: "memory_segment list \<Rightarrow> bool" where
  "countable_memory mmap \<longleftrightarrow> 64 * bitmap_words mmap < 2 ^ 31"

context address_window
begin

lemma kernel_init_logged:
  assumes sink: "log_sink emit ready" "ready t" and "18 \<le> m" and fits: "\<forall>e\<in>set mmap. segment_limit e \<le> 2 ^ m"
    and "find (holds_bitmap (bitmap_pages mmap)) mmap = Some e"
    and "pairwise_disjoint (map segment_pages (free_segments mmap))" and "countable_memory mmap"
  shows "phys_manager_new emit (inline_storage base) h mmap t = Inl IndexOutOfBounds \<and>
      (\<exists>e\<in>set (free_segments mmap). uncovered (bitmap_words mmap) e) \<or>
    (\<exists>M mmap' t'. phys_manager_new emit (inline_storage base) h mmap t = Inr (M, mmap', t') \<and> ready t' \<and>
           manager_inv (inline_storage base) (2 ^ (m - 12)) M \<and>
           available (inline_storage base) M = \<Union> (segment_pages ` set (free_segments mmap)) -
             {unat (seg_start e) div 4096..<unat (seg_start e) div 4096 + bitmap_pages mmap})"
proof -
  have "(2::nat) ^ m < 2 ^ 64" using m_less by (intro power_strict_increasing) simp_all
  with fits have fits64: "\<forall>e\<in>set mmap. segment_limit e < 2 ^ 64" by (meson le_less_trans)
  note out = log_sink.phys_manager_new_outcome[OF sink storage_limits(1)[OF fits64], of base h]
  have "countable_lists (pm_state M)" if "manager_inv (inline_storage base) (2 ^ (m - 12)) M"
      "length (buddy_map (pm_state M)) = bitmap_words mmap" for M
    using inline.phys_inv_countable[OF manager_invD(2)[OF that(1)]] that(2) assms(7) by (simp add: countable_memory_def)
  then show ?thesis using kernel_init_outcome[OF assms(3-6), of h] out by auto
qed

end

text \<open>Without messages, on the backend of the unit tests.\<close>

lemma test_new_silent:
  assumes "mmap \<noteq> []" "\<forall>e\<in>set mmap. segment_limit e < 2 ^ 64" "unat a = Max (segment_limit ` set mmap)"
    and "test_new (drop_bit 12 a) mmap = Inr (replicate w 0, mmap)" "64 * w \<le> 2 ^ 20"
    and "pairwise_disjoint (map segment_pages (free_segments mmap))"
    and "\<forall>e\<in>set (free_segments mmap). unat (seg_start e) div 4096 + unat (seg_page_count e) \<le> 64 * w"
  shows "phys_manager_new silent (test_storage 0x10000000) h mmap t =
    and_then (manager_new (test_storage 0x10000000) h mmap) (\<lambda>(m, mmap'). Inr (m, mmap', ()))"
proof -
  let ?st = "test_storage 0x10000000"
  have st: "storage_new ?st (drop_bit 12 b) mmap = Inr (replicate w 0, mmap)" if "unat b = Max (segment_limit ` set mmap)" for b
    using that assms(3,4) by (metis (no_types, lifting) test_storage_def storage.select_convs(1) unat_eq_unat)
  have "countable_lists (pm_state m)" if "manager_inv ?st (2 ^ 20) m" "length (buddy_map (pm_state m)) = w" for m
    using test_backend.phys_inv_countable[OF manager_invD(2)[OF that(1)]] that(2) assms(5) by simp
  then show ?thesis
    using test_backend.manager_new_outcome[OF assms(2,1) st assms(5-7), of h]
      quiet.phys_manager_new_outcome[OF TrueI storage_limits(2)[OF assms(2)], of "0x10000000" h t] by auto
qed

end
