(* ===== verification/Terminal_Properties.thy ===== *)
theory Terminal_Properties
  imports Log_Sink
begin


definition demo_font :: font where
  "demo_font c = (if c < 128 then Some [1, 0, 0, 0, 0, 0, 0, 0] else None)"

definition demo_terminal :: terminal where
  "demo_terminal = \<lparr>t_lock = spin_new, framebuffer = 0xFFFFFF80E0000000, fb = (\<lambda>_. 7), scan_width = 50,
     t_height = 40, t_format = BGR, rows = 1, columns = 2, cursor_x = 0, cursor_y = 0,
     color_r = 255, color_g = 255, color_b = 255, t_mode = Print\<rparr>"

lemma demo_font_ok: "font_ok demo_font"
  by (auto simp: font_ok_def demo_font_def)

interpretation demo_font: complete_font demo_font
  by unfold_locales (rule demo_font_ok)

lemma demo_terminal_inv: "term_inv demo_terminal" "geometry demo_terminal" "cursor_ok demo_terminal"
  by (simp_all add: term_inv_def geometry_def cursor_ok_def demo_terminal_def spin_new_def)

lemma demo_terminal_white: "white_terminal demo_terminal"
  using demo_terminal_inv(1) by (simp add: white_terminal_def style_of_def demo_terminal_def)



text \<open>
  C27: Printing never panics. Under the invariant, printing any string of any characters returns
  normally: no index leaves the framebuffer and no 32-bit computation overflows. The invariant is
  kept, the lock is free again, and outside the three colour bytes of the text area's pixels
  (margins, padding at the end of scanlines, fourth bytes) no byte changes.
\<close>

theorem print_never_panics:
  assumes "font_ok font" "term_inv t"
  shows "\<exists>t'. print font msg t = Inr t' \<and> term_inv t' \<and> config t' = config t \<and>
           (\<forall>i. \<not> in_text_area t i \<longrightarrow> fb t' i = fb t i)"
  using print_good[OF assms] unfolding good_after_def by blast

theorem print_never_panics_witness:
  "\<exists>t'. print demo_font [0x41, 0x0A, 0x1F600, 0x1B, 1, 2, 3, 0x42] demo_terminal = Inr t' \<and> term_inv t' \<and> fb t' 3 = 7"
proof -
  have "\<not> in_text_area demo_terminal 3" by (simp add: in_text_area_def)
  then show ?thesis
    using print_never_panics[OF demo_font_ok demo_terminal_inv(1), of "[0x41, 0x0A, 0x1F600, 0x1B, 1, 2, 3, 0x42]"]
    by (auto simp: demo_terminal_def)
qed



text \<open>
  C29: Escape sequences. The mode and the colour after a print are the fold of the escape state
  machine over the characters: drawing, line breaks and wrapping do not influence it, and an escape
  character with its three arguments sets the colour whatever the arguments are.
\<close>

theorem print_refines_escape_machine:
  assumes "\<not> locked (t_lock t)" "print font msg t = Inr t'"
  shows "style_of t' = fold style_step msg (style_of t)"
  by (rule print_style(1)[OF assms])

theorem print_refines_escape_machine_witness:
  "\<exists>t'. print demo_font [0x41, 0x1B, 0x0A, 0x1B, 3, 0x42] demo_terminal = Inr t' \<and> style_of t' = (Print, 10, 27, 3)"
proof -
  obtain t' where t': "print demo_font [0x41, 0x1B, 0x0A, 0x1B, 3, 0x42] demo_terminal = Inr t'"
    using print_good[OF demo_font_ok demo_terminal_inv(1)] by blast
  have "\<not> locked (t_lock demo_terminal)" by (simp add: demo_terminal_def spin_new_def)
  from print_refines_escape_machine[OF this t'] t' show ?thesis
    by (simp add: style_of_def demo_terminal_def)
qed

text \<open>
  The logging macros restore the terminal. Started in print mode with context and message free of
  escape characters, each of the four macros returns normally and leaves the terminal in print
  mode with the colour white, whatever the colour was before.
\<close>

theorem macros_restore_white:
  assumes "font_ok font" "term_inv t" "t_mode t = Print" "plain ctx" "plain (concat body)"
    and "f \<in> {info_macro, verbose_macro, warning_macro, error_macro}"
  shows "\<exists>t'. f font ctx body t = Inr t' \<and> term_inv t' \<and> style_of t' = (Print, 255, 255, 255)"
  by (rule macro_restores[OF assms])

theorem macros_restore_white_witness:
  "\<exists>t'. error_macro demo_font [0x54] [[0x45], [0x72]] demo_terminal = Inr t' \<and> style_of t' = (Print, 255, 255, 255)"
  using macros_restore_white[OF demo_font_ok demo_terminal_inv(1), of "[0x54]" "[[0x45], [0x72]]" error_macro]
  by (auto simp: demo_terminal_def)

end
