(* ===== verification/Phys_Tests.thy ===== *)
theory Phys_Tests
  imports Phys_Log Terminal_Properties
begin
















section \<open>Outcome of the tests\<close>










end
