(* ===== verification/Gdt.thy ===== *)
theory Gdt
  imports Byte_Memory Phys_Methods
begin

text \<open>
  \<^verbatim>\<open>kernel/src/arch/x86_64/gdt.rs\<close>: the Global Descriptor Table and the Task State Segments.

  The state of the platform code is the record \<open>platform\<close>: the physical memory manager it allocates
  from, memory by byte, the statics \<open>TSS\<close>, \<open>GDT\<close> and \<open>IDT\<close>, and the registers of the executing core that
  the inline assembly loads. \<open>usize\<close> is 64 bits. Every packed structure is written as its bytes.
\<close>

section \<open>State\<close>

record cpu =
  gdtr :: "u16 \<times> u64"
  idtr :: "u16 \<times> u64"
  cs :: u16
  ds :: u16
  es :: u16
  ss :: u16
  tr :: u16
  cr3 :: u64

record platform =
  plat_pm :: phys_manager
  plat_mem :: bytes
  TSS :: u64
  GDT :: u64
  IDT :: u64
  plat_cpu :: cpu

section \<open>Descriptors\<close>

definition SELECTOR_NULL :: u16 where "SELECTOR_NULL = 0"

definition SELECTOR_KERNEL_CODE :: u16 where "SELECTOR_KERNEL_CODE = 8"

definition SELECTOR_USER_CODE :: u16 where "SELECTOR_USER_CODE = 16 OR 3"

definition DESC_CODE_BASE :: u64 where
  "DESC_CODE_BASE = push_bit 43 1 OR push_bit 44 1 OR push_bit 47 1 OR push_bit 53 1"

definition DESC_USER_DPL :: u64 where
  "DESC_USER_DPL = push_bit 45 3"

definition gdt_entry_new_code :: "bool \<Rightarrow> u64" where
  "gdt_entry_new_code user_mode = (if user_mode then DESC_CODE_BASE OR DESC_USER_DPL else DESC_CODE_BASE)"

definition gdt_entry_null :: u64 where
  "gdt_entry_null = 0"

record gdt_entry_tss =
  limit0 :: u16
  base0 :: u16
  base1 :: u8
  type_dpl_p :: u8
  limi1 :: u8
  base2 :: u8
  base3 :: u32
  ge_reserved :: u32

definition gdt_entry_tss_bytes :: "gdt_entry_tss \<Rightarrow> u8 list" where
  "gdt_entry_tss_bytes e =
     le_bytes 2 (limit0 e) @ le_bytes 2 (base0 e) @ le_bytes 1 (base1 e) @ le_bytes 1 (type_dpl_p e) @
     le_bytes 1 (limi1 e) @ le_bytes 1 (base2 e) @ le_bytes 4 (base3 e) @ le_bytes 4 (ge_reserved e)"

record tss =
  reserved0 :: u32
  rsp0 :: u64
  rsp1 :: u64
  rsp2 :: u64
  reserved1 :: u64
  ist1 :: u64
  ist2 :: u64
  ist3 :: u64
  ist4 :: u64
  ist5 :: u64
  ist6 :: u64
  ist7 :: u64
  reserved2 :: u64
  reserved3 :: u32

definition tss_bytes :: "tss \<Rightarrow> u8 list" where
  "tss_bytes t =
     le_bytes 4 (reserved0 t) @ le_bytes 8 (rsp0 t) @ le_bytes 8 (rsp1 t) @ le_bytes 8 (rsp2 t) @
     le_bytes 8 (reserved1 t) @ le_bytes 8 (ist1 t) @ le_bytes 8 (ist2 t) @ le_bytes 8 (ist3 t) @
     le_bytes 8 (ist4 t) @ le_bytes 8 (ist5 t) @ le_bytes 8 (ist6 t) @ le_bytes 8 (ist7 t) @
     le_bytes 8 (reserved2 t) @ le_bytes 4 (reserved3 t)"

definition empty_tss :: tss where
  "empty_tss = \<lparr>reserved0 = 0, rsp0 = 0, rsp1 = 0, rsp2 = 0, reserved1 = 0, ist1 = 0, ist2 = 0, ist3 = 0,
     ist4 = 0, ist5 = 0, ist6 = 0, ist7 = 0, reserved2 = 0, reserved3 = 0\<rparr>"

definition SIZE_GDT_ENTRY :: u64 where "SIZE_GDT_ENTRY = 8"

definition SIZE_TSS :: u64 where "SIZE_TSS = 104"

lemma struct_sizes [simp]:
  "length (gdt_entry_tss_bytes e) = 16" "length (tss_bytes t) = unat SIZE_TSS"
  by (simp_all add: gdt_entry_tss_bytes_def tss_bytes_def SIZE_TSS_def)

section \<open>Operations\<close>

definition tss_descriptor :: "u64 \<Rightarrow> gdt_entry_tss" where
  "tss_descriptor tss_ptr =
     \<lparr>limit0 = ucast SIZE_TSS - 1, base0 = ucast tss_ptr, base1 = ucast (drop_bit 16 tss_ptr),
      type_dpl_p = 0b10001001, limi1 = 0, base2 = ucast (drop_bit 24 tss_ptr),
      base3 = ucast (drop_bit 32 tss_ptr), ge_reserved = 0\<rparr>"

text \<open>One round of the loop over the cores; note that the second write goes to \<open>tss_mem\<close> itself.\<close>

definition gdt_init_tss :: "u64 \<Rightarrow> u64 \<Rightarrow> nat \<Rightarrow> bytes \<Rightarrow> bytes" where
  "gdt_init_tss gdt_mem tss_mem i m =
     (let tss_ptr = tss_mem + of_nat i * SIZE_TSS;
          m1 = store m (gdt_mem + (3 + of_nat i) * SIZE_GDT_ENTRY) (gdt_entry_tss_bytes (tss_descriptor tss_ptr))
      in store m1 tss_mem (tss_bytes empty_tss))"

definition gdt_fill :: "u64 \<Rightarrow> u64 \<Rightarrow> nat \<Rightarrow> bytes \<Rightarrow> bytes" where
  "gdt_fill gdt_mem tss_mem num_cores m =
     (let m1 = store m gdt_mem (le_bytes 8 gdt_entry_null);
          m2 = store m1 (gdt_mem + SIZE_GDT_ENTRY) (le_bytes 8 (gdt_entry_new_code False));
          m3 = store m2 (gdt_mem + 2 * SIZE_GDT_ENTRY) (le_bytes 8 (gdt_entry_new_code True))
      in fold (gdt_init_tss gdt_mem tss_mem) [0..<num_cores] m3)"

definition gdt_pages :: "u64 \<Rightarrow> u64 res" where
  "gdt_pages num_tss_entries =
     and_then (checked_mul num_tss_entries 2) (\<lambda>a.
     and_then (checked_add 3 a) (\<lambda>b.
     and_then (checked_mul b SIZE_GDT_ENTRY) (\<lambda>c.
     and_then (checked_add c 4095) (\<lambda>d. Inr (d div 4096)))))"

definition tss_pages :: "u64 \<Rightarrow> u64 res" where
  "tss_pages num_tss_entries =
     and_then (checked_mul num_tss_entries SIZE_TSS) (\<lambda>a.
     and_then (checked_add a 4095) (\<lambda>b. Inr (b div 4096)))"

definition gdt_init :: "'t logger \<Rightarrow> u64 \<Rightarrow> u64 \<Rightarrow> platform \<Rightarrow> 't \<Rightarrow> (platform \<times> 't) res" where
  "gdt_init emit high_mem_base num_cores p t =
     (let st = inline_storage high_mem_base; num_tss_entries = num_cores in
      and_then (emit Info ''GDT'' [chars ''Initializing...''] t) (\<lambda>t1.
      and_then (gdt_pages num_tss_entries) (\<lambda>num_gdt_pages.
      and_then (alloc_linear_pages st num_gdt_pages (plat_pm p)) (\<lambda>(a, pm1).
      let mem = phys_to_virt high_mem_base a in
      and_then (checked_add 3 num_tss_entries) (\<lambda>entries.
      and_then (emit Verbose ''GDT'' (chars ''GDT at '' # hex016 mem @
         [chars '' ('', dec_digits (unat entries), chars '' entries, '', dec_digits (unat num_gdt_pages), chars '' pages)'']) t1) (\<lambda>t2.
      and_then (tss_pages num_tss_entries) (\<lambda>num_tss_pages.
      and_then (alloc_linear_pages st num_tss_pages pm1) (\<lambda>(b, pm2).
      let tss_mem = phys_to_virt high_mem_base b;
          p' = p\<lparr>plat_pm := pm2, plat_mem := gdt_fill mem tss_mem (unat num_cores) (plat_mem p), TSS := tss_mem, GDT := mem\<rparr> in
      and_then (emit Info ''GDT'' [chars ''Initialized''] t2) (\<lambda>t3. Inr (p', t3))))))))))"

text \<open>The same without the messages, as the reference for the proofs about the table.\<close>

definition gdt_setup :: "u64 \<Rightarrow> u64 \<Rightarrow> platform \<Rightarrow> platform res" where
  "gdt_setup high_mem_base num_cores p =
     (let st = inline_storage high_mem_base; num_tss_entries = num_cores in
      and_then (gdt_pages num_tss_entries) (\<lambda>num_gdt_pages.
      and_then (alloc_linear_pages st num_gdt_pages (plat_pm p)) (\<lambda>(a, pm1).
      let mem = phys_to_virt high_mem_base a in
      and_then (tss_pages num_tss_entries) (\<lambda>num_tss_pages.
      and_then (alloc_linear_pages st num_tss_pages pm1) (\<lambda>(b, pm2).
      let tss_mem = phys_to_virt high_mem_base b in
        Inr (p\<lparr>plat_pm := pm2, plat_mem := gdt_fill mem tss_mem (unat num_cores) (plat_mem p),
               TSS := tss_mem, GDT := mem\<rparr>))))))"

text \<open>
  \<open>init_core\<close> computes the limit in \<open>u16\<close>, loads the GDTR, the null selector into the data segment
  registers, the kernel code selector through the far return, and the task register.
\<close>

definition gdt_init_core :: "u64 \<Rightarrow> platform \<Rightarrow> platform res" where
  "gdt_init_core core_id p =
     and_then (checked_mul 2 (ucast core_id :: u16)) (\<lambda>a.
     and_then (checked_add 5 a) (\<lambda>b.
     and_then (checked_mul b 8) (\<lambda>c.
     and_then (checked_sub c 1) (\<lambda>limit.
     and_then (checked_mul core_id 2) (\<lambda>d.
     and_then (checked_add 3 d) (\<lambda>e.
     and_then (checked_mul e 8) (\<lambda>sel.
       Inr (p\<lparr>plat_cpu := (plat_cpu p)\<lparr>gdtr := (limit, GDT p), ds := SELECTOR_NULL, es := SELECTOR_NULL,
                ss := SELECTOR_NULL, cs := SELECTOR_KERNEL_CODE, tr := ucast sel\<rparr>\<rparr>))))))))"

definition set_ist1 :: "u64 \<Rightarrow> u64 \<Rightarrow> platform \<Rightarrow> platform" where
  "set_ist1 core_id val p =
     p\<lparr>plat_mem := store (plat_mem p) (TSS p + core_id * SIZE_TSS + 36) (le_bytes 8 val)\<rparr>"

section \<open>Reading the tables\<close>

text \<open>What the processor reads from a descriptor: base, limit and type byte of a system descriptor.\<close>

definition descriptor_base :: "u8 list \<Rightarrow> u64" where
  "descriptor_base d =
     le_word (take 2 (drop 2 d) @ [d ! 4] @ [d ! 7] @ take 4 (drop 8 d))"

definition descriptor_limit :: "u8 list \<Rightarrow> u64" where
  "descriptor_limit d = le_word (take 2 d) OR push_bit 16 (ucast (d ! 6) AND 0xF)"

definition descriptor_type :: "u8 list \<Rightarrow> u8" where
  "descriptor_type d = d ! 5"

lemma tss_descriptor_decodes:
  fixes p :: u64
  defines "d \<equiv> gdt_entry_tss_bytes (tss_descriptor p)"
  shows "descriptor_base d = p" "descriptor_limit d = 103" "descriptor_type d = 0x89"
proof -
  have bytes: "d = [103, 0] @ le_bytes 2 (ucast p :: u16) @ [ucast (drop_bit 16 p)] @ [0x89, 0] @ [ucast (drop_bit 24 p)] @
      le_bytes 4 (ucast (drop_bit 32 p) :: u32) @ [0, 0, 0, 0]"
    by (simp add: d_def gdt_entry_tss_bytes_def tss_descriptor_def SIZE_TSS_def)
  have "descriptor_base d = le_word (le_bytes 2 (ucast p :: u16) @ [ucast (drop_bit 16 p)] @ [ucast (drop_bit 24 p)] @
      le_bytes 4 (ucast (drop_bit 32 p) :: u32))"
    unfolding bytes descriptor_base_def by simp
  also have "\<dots> = le_word (le_bytes 8 p)"
  proof -
    have "le_bytes 2 (ucast p :: u16) @ [ucast (drop_bit 16 p)] @ [ucast (drop_bit 24 p)] @
        le_bytes 4 (ucast (drop_bit 32 p) :: u32) = le_bytes 8 p"
      by simp (auto intro!: bit_word_eqI simp: bit_ucast_iff bit_drop_bit_eq)
    then show ?thesis by simp
  qed
  also have "\<dots> = p" by (rule le_word_le_bytes_full) simp
  finally show "descriptor_base d = p" .
  show "descriptor_limit d = 103" "descriptor_type d = 0x89"
    unfolding bytes descriptor_limit_def descriptor_type_def by simp_all
qed

section \<open>One core\<close>

text \<open>The contents of both tables when they do not overlap.\<close>

lemma gdt_fill_one_core:
  fixes m :: bytes
  assumes sep: "disjoint_regions g 40 t 104"
  defines "m' \<equiv> gdt_fill g t 1 m"
  shows "load m' g 8 = le_bytes 8 gdt_entry_null"
    "load m' (g + 8) 8 = le_bytes 8 (gdt_entry_new_code False)"
    "load m' (g + 16) 8 = le_bytes 8 (gdt_entry_new_code True)"
    "load m' (g + 24) 16 = gdt_entry_tss_bytes (tss_descriptor t)"
    "load m' t 104 = tss_bytes empty_tss"
proof -
  define m1 where "m1 = store m g (le_bytes 8 gdt_entry_null)"
  define m2 where "m2 = store m1 (g + 8) (le_bytes 8 (gdt_entry_new_code False))"
  define m3 where "m3 = store m2 (g + 16) (le_bytes 8 (gdt_entry_new_code True))"
  define m4 where "m4 = store m3 (g + 24) (gdt_entry_tss_bytes (tss_descriptor t))"
  have m': "m' = store m4 t (tss_bytes empty_tss)"
    by (simp add: m'_def gdt_fill_def gdt_init_tss_def m1_def m2_def m3_def m4_def SIZE_GDT_ENTRY_def Let_def
        del: le_bytes_numeral)
  have t: "load m' (g + of_nat i) n = load m4 (g + of_nat i) n" if "i + n \<le> 40" for i n
    unfolding m'
  proof (rule load_store_other)
    have "disjoint_regions (g + of_nat i) n t 104"
      using sep that by (auto simp: disjoint_regions_def add.assoc simp flip: of_nat_add)
    then show "disjoint_regions (g + of_nat i) n t (length (tss_bytes empty_tss))" by (simp add: SIZE_TSS_def)
  qed (simp add: SIZE_TSS_def)
  have sep4: "load m4 (g + of_nat i) n = load m3 (g + of_nat i) n" if "i + n \<le> 24" for i n
    unfolding m4_def using disjoint_offsets[of i n 24 16 g] that by (intro load_store_other) simp_all
  have sep3: "load m3 (g + of_nat i) n = load m2 (g + of_nat i) n" if "i + n \<le> 16" for i n
    unfolding m3_def using disjoint_offsets[of i n 16 8 g] that by (intro load_store_other) (simp_all del: le_bytes_numeral)
  have sep2: "load m2 (g + of_nat i) n = load m1 (g + of_nat i) n" if "i + n \<le> 8" for i n
    unfolding m2_def using disjoint_offsets[of i n 8 8 g] that by (intro load_store_other) (simp_all del: le_bytes_numeral)
  show "load m' g 8 = le_bytes 8 gdt_entry_null"
    using t[of 0 8] sep4[of 0 8] sep3[of 0 8] sep2[of 0 8] by (simp add: m1_def del: le_bytes_numeral)
  show "load m' (g + 8) 8 = le_bytes 8 (gdt_entry_new_code False)"
    using t[of 8 8] sep4[of 8 8] sep3[of 8 8] by (simp add: m2_def del: le_bytes_numeral)
  show "load m' (g + 16) 8 = le_bytes 8 (gdt_entry_new_code True)"
    using t[of 16 8] sep4[of 16 8] by (simp add: m3_def del: le_bytes_numeral)
  show "load m' (g + 24) 16 = gdt_entry_tss_bytes (tss_descriptor t)"
    using t[of 24 16] by (simp add: m4_def)
  show "load m' t 104 = tss_bytes empty_tss" by (simp add: m' SIZE_TSS_def)
qed

text \<open>
  With two cores the second descriptor starts in the middle of the first: slot 3 holds the lower half
  of the first and slot 4 the lower half of the second, whose upper half is in slot 5.
\<close>

lemma gdt_fill_two_cores:
  fixes m :: bytes
  assumes sep: "disjoint_regions g 48 t 104"
  defines "m' \<equiv> gdt_fill g t 2 m" and "D \<equiv> \<lambda>i. gdt_entry_tss_bytes (tss_descriptor (t + i * 104))"
  shows "load m' (g + 24) 16 = take 8 (D 0) @ take 8 (D 1)" "load m' (g + 40) 8 = drop 8 (D 1)"
proof -
  define m3 where "m3 = gdt_fill g t 0 m"
  define m4 where "m4 = store m3 (g + 24) (D 0)"
  define m5 where "m5 = store m4 t (tss_bytes empty_tss)"
  define m6 where "m6 = store m5 (g + 32) (D 1)"
  have m': "m' = store m6 t (tss_bytes empty_tss)"
    by (simp add: m'_def gdt_fill_def gdt_init_tss_def m3_def m4_def m5_def m6_def D_def SIZE_GDT_ENTRY_def SIZE_TSS_def
        Let_def numeral_2_eq_2 del: le_bytes_numeral)
  have len: "length (D i) = 16" for i by (simp add: D_def)
  have t: "load (store x t (tss_bytes empty_tss)) (g + of_nat i) n = load x (g + of_nat i) n" if "i + n \<le> 48" for x i n
  proof (rule load_store_other)
    have "disjoint_regions (g + of_nat i) n t 104"
      using sep that by (auto simp: disjoint_regions_def add.assoc simp flip: of_nat_add)
    then show "disjoint_regions (g + of_nat i) n t (length (tss_bytes empty_tss))" by (simp add: SIZE_TSS_def)
  qed (simp add: SIZE_TSS_def)
  have low: "load m6 (g + 24) 8 = take 8 (D 0)"
  proof -
    have "load m6 (g + of_nat 24) 8 = load m5 (g + of_nat 24) 8"
      unfolding m6_def using disjoint_offsets[of 24 8 32 16 g] by (intro load_store_other) (simp_all add: len)
    also have "\<dots> = load m4 (g + of_nat 24) 8" unfolding m5_def by (rule t) simp
    also have "\<dots> = take 8 (D 0)" using load_store_same[of "D 0" 0 8 m3 "g + 24"] by (simp add: m4_def len)
    finally show ?thesis by simp
  qed
  have mid: "load m6 (g + 32) 8 = take 8 (D 1)"
    using load_store_same[of "D 1" 0 8 m5 "g + 32"] by (simp add: m6_def len)
  have high: "load m6 (g + 40) 8 = drop 8 (D 1)"
    using load_store_same[of "D 1" 8 8 m5 "g + 32"] by (simp add: m6_def len add.assoc)
  show "load m' (g + 24) 16 = take 8 (D 0) @ take 8 (D 1)"
    using t[of 24 16 m6] load_add[of m6 "g + 24" 8 8] low mid by (simp add: m' add.assoc)
  show "load m' (g + 40) 8 = drop 8 (D 1)"
    using t[of 40 8 m6] high by (simp add: m')
qed

context address_window
begin

text \<open>Disjoint ranges of physical memory have disjoint mirrors.\<close>

lemma mirror_disjoint:
  assumes "unat a + n \<le> unat b \<or> unat b + k \<le> unat a" "unat a + n \<le> 2 ^ m" "unat b + k \<le> 2 ^ m" "0 < n" "0 < k"
  shows "disjoint_regions (phys_to_virt base a) n (phys_to_virt base b) k"
proof -
  have "unat a < 2 ^ m" "unat b < 2 ^ m" using assms(2-5) by simp_all
  then have eq: "phys_to_virt base a = base + of_nat (unat a)" "phys_to_virt base b = base + of_nat (unat b)"
    by (simp_all add: phys_to_virt_add)
  have "(2::nat) ^ m \<le> 2 ^ 63" using m_less by (intro power_increasing) simp_all
  then show ?thesis unfolding eq using assms(1-3) by (intro disjoint_offsets) simp_all
qed

lemma alloc_one_page:
  assumes inv: "manager_inv (inline_storage base) (2 ^ (m - 12)) pm" and m12: "12 \<le> m"
    and ne: "available (inline_storage base) pm \<noteq> {}"
  shows "\<exists>a pm'. alloc_linear_pages (inline_storage base) 1 pm = Inr (a, pm') \<and>
           manager_inv (inline_storage base) (2 ^ (m - 12)) pm' \<and>
           unat a = 4096 * unat (drop_bit 12 a) \<and> unat a + 4096 \<le> 2 ^ m \<and>
           unat (drop_bit 12 a) \<in> available (inline_storage base) pm \<and>
           available (inline_storage base) pm' = available (inline_storage base) pm - {unat (drop_bit 12 a)}"
proof -
  let ?st = "inline_storage base"
  from ne obtain i where "i \<in> available ?st pm" by blast
  then have "\<exists>i. 2 ^ 0 dvd i \<and> block_pages i 0 \<subseteq> available ?st pm"
    by (intro exI[of _ i]) (auto simp: block_pages_def)
  then obtain a pm' where res: "alloc_linear_pages ?st 1 pm = Inr (a, pm')"
    using inline.alloc_linear_pages_succeeds[OF inv get_size_order_one] by auto
  have pages: "allocation_pages a 1 = {unat (drop_bit 12 a)}"
    by (auto simp: allocation_pages_def block_pages_def)
  note c = inline.alloc_linear_pages_correct[OF inv res, unfolded pages]
  have in_av: "unat (drop_bit 12 a) \<in> available ?st pm" using c by blast
  note p = phys_invD[OF manager_invD(2)[OF inv]]
  have "available ?st pm \<subseteq> {..<64 * length (buddy_map (pm_state pm))}"
    unfolding available_def free_page_set_def by (rule free_pages_of_bound[OF p(1)])
  then have "unat (drop_bit 12 a) < 2 ^ (m - 12)" using in_av p(3) by fastforce
  then have "(unat (drop_bit 12 a) + 1) * 2 ^ 12 \<le> 2 ^ (m - 12) * 2 ^ 12" by (intro mult_le_mono1) simp
  also have "\<dots> = 2 ^ m" using m12 by (metis le_add_diff_inverse2 power_add)
  finally have "unat a + 4096 \<le> 2 ^ m" using c by simp
  with res c in_av show ?thesis by blast
qed

lemma alloc_page_one: "\<not> locked (pm_lock pm) \<Longrightarrow> alloc_page (inline_storage base) pm = alloc_linear_pages (inline_storage base) 1 pm"
  by (rule inline.alloc_page_linear)

text \<open>Two pages taken one after the other have mirrors that do not overlap.\<close>

lemma pages_apart:
  assumes "unat a = 4096 * unat (drop_bit 12 a)" "unat a + 4096 \<le> 2 ^ m"
    and "unat b = 4096 * unat (drop_bit 12 b)" "unat b + 4096 \<le> 2 ^ m"
    and "unat (drop_bit 12 a) \<noteq> unat (drop_bit 12 b)" "0 < n" "n \<le> 4096" "0 < k" "k \<le> 4096"
  shows "disjoint_regions (phys_to_virt base a) n (phys_to_virt base b) k"
proof (rule mirror_disjoint)
  have "unat (drop_bit 12 a) < unat (drop_bit 12 b) \<or> unat (drop_bit 12 b) < unat (drop_bit 12 a)"
    using assms(5) by linarith
  then show "unat a + n \<le> unat b \<or> unat b + k \<le> unat a" using assms(1,3,7,9) by linarith
qed (use assms in simp_all)

lemma gdt_init_one_core:
  assumes inv: "manager_inv (inline_storage base) (2 ^ (m - 12)) (plat_pm p)" and m12: "12 \<le> m"
    and two: "i \<in> available (inline_storage base) (plat_pm p)" "j \<in> available (inline_storage base) (plat_pm p)" "i \<noteq> j"
  shows "\<exists>p' a b. gdt_setup base 1 p = Inr p' \<and> manager_inv (inline_storage base) (2 ^ (m - 12)) (plat_pm p') \<and>
      available (inline_storage base) (plat_pm p') = available (inline_storage base) (plat_pm p) - {unat (drop_bit 12 a), unat (drop_bit 12 b)} \<and>
      {unat (drop_bit 12 a), unat (drop_bit 12 b)} \<subseteq> available (inline_storage base) (plat_pm p) \<and>
      unat a = 4096 * unat (drop_bit 12 a) \<and> unat a + 4096 \<le> 2 ^ m \<and> unat b = 4096 * unat (drop_bit 12 b) \<and> unat b + 4096 \<le> 2 ^ m \<and>
      unat (drop_bit 12 a) \<noteq> unat (drop_bit 12 b) \<and>
      GDT p' = phys_to_virt base a \<and> TSS p' = phys_to_virt base b \<and>
      plat_mem p' = gdt_fill (GDT p') (TSS p') 1 (plat_mem p) \<and> plat_cpu p' = plat_cpu p"
proof -
  let ?st = "inline_storage base" and ?n = "(2::nat) ^ (m - 12)"
  have pages: "gdt_pages 1 = Inr 1" "tss_pages 1 = Inr 1" by code_simp+
  have ne: "available ?st (plat_pm p) \<noteq> {}" using two(1) by blast
  obtain a pm1 where a: "alloc_linear_pages ?st 1 (plat_pm p) = Inr (a, pm1)" "manager_inv ?st ?n pm1"
      "unat a = 4096 * unat (drop_bit 12 a)" "unat a + 4096 \<le> 2 ^ m" "unat (drop_bit 12 a) \<in> available ?st (plat_pm p)"
      "available ?st pm1 = available ?st (plat_pm p) - {unat (drop_bit 12 a)}"
    using alloc_one_page[OF inv m12 ne] by blast
  have ne1: "available ?st pm1 \<noteq> {}" unfolding a(6) using two by (metis Diff_eq_empty_iff singletonD subsetD)
  obtain b pm2 where b: "alloc_linear_pages ?st 1 pm1 = Inr (b, pm2)" "manager_inv ?st ?n pm2"
      "unat b = 4096 * unat (drop_bit 12 b)" "unat b + 4096 \<le> 2 ^ m" "unat (drop_bit 12 b) \<in> available ?st pm1"
      "available ?st pm2 = available ?st pm1 - {unat (drop_bit 12 b)}"
    using alloc_one_page[OF a(2) m12 ne1] by blast
  let ?g = "phys_to_virt base a" and ?t = "phys_to_virt base b"
  let ?p = "p\<lparr>plat_pm := pm2, plat_mem := gdt_fill ?g ?t 1 (plat_mem p), TSS := ?t, GDT := ?g\<rparr>"
  have "gdt_setup base 1 p = Inr ?p"
    unfolding gdt_setup_def Let_def pages and_then_Inr a(1) b(1) split_conv unsigned_1 by (rule refl)
  moreover have "unat (drop_bit 12 a) \<noteq> unat (drop_bit 12 b)" "unat (drop_bit 12 b) \<in> available ?st (plat_pm p)"
    using b(5)[unfolded a(6) Diff_iff singleton_iff] by metis+
  moreover have "available ?st pm2 = available ?st (plat_pm p) - {unat (drop_bit 12 a), unat (drop_bit 12 b)}"
    unfolding b(6) a(6) by (rule Diff_insert2[symmetric])
  ultimately show ?thesis using a(3-5) b(2-4) by (intro exI[of _ ?p] exI[of _ a] exI[of _ b]) simp
qed

end

end
