(* ===== verification/Interrupt_Stubs.thy ===== *)
theory Interrupt_Stubs
  imports Logging
begin

text \<open>
  The low-level interrupt stubs of \<^verbatim>\<open>kernel/src/arch/x86_64/interrupt\<close>: the two tables of \<^verbatim>\<open>isr!\<close>
  invocations (\<^verbatim>\<open>isrs.rs\<close>, which generates the stubs, and \<^verbatim>\<open>set_isrs.rs\<close>, which registers them),
  the instructions of the stubs and of \<open>isr_common_stub\<close>, and \<open>InterruptInfo\<close> with its layout.

  The machine that runs them has the general registers, the stack pointer, a memory of
  64-bit words by address and the state that an interrupt saves. The delivery of an interrupt and the
  instructions follow the AMD64 manual. A call to the Rust handler may change every register
  except the stack pointer and every word of memory except its argument; what it leaves there is
  the argument \<open>env\<close>. A handler also works on the state of the kernel, of type \<open>'t\<close>; the default handler logs, so that
  for it this is the state of the terminal.
\<close>

section \<open>The tables\<close>

text \<open>\<open>Isr name number\<close> is \<^verbatim>\<open>isr!(isr_stub_<name>, <number>)\<close>, \<open>IsrError\<close> the form with \<open>error\<close>.\<close>

datatype isr_decl = Isr nat nat | IsrError nat nat

definition isrs_low :: "isr_decl list" where
  "isrs_low = [
    Isr 0 0, Isr 1 1, Isr 2 2, Isr 3 3, Isr 4 4, Isr 5 5, Isr 6 6, Isr 7 7, IsrError 8 8, Isr 9 9,
    IsrError 10 10, IsrError 11 11, IsrError 12 12, IsrError 13 13, IsrError 14 14, Isr 15 15,
    Isr 16 16, IsrError 17 17, Isr 18 18, Isr 19 19, Isr 20 20, Isr 21 21, Isr 22 22, Isr 23 23,
    Isr 24 24, Isr 25 25, Isr 26 26, Isr 27 27, Isr 28 28, Isr 29 29, Isr 30 30, Isr 31 31,
    Isr 32 32, Isr 33 33, Isr 34 34, Isr 35 35, Isr 36 36, Isr 37 37, Isr 38 38, Isr 39 39,
    Isr 40 40, Isr 41 41, Isr 42 42, Isr 43 43, Isr 44 44, Isr 45 45, Isr 46 46, Isr 47 47,
    Isr 48 48, Isr 49 49, Isr 50 50, Isr 51 51, Isr 52 52, Isr 53 53, Isr 54 54, Isr 55 55,
    Isr 56 56, Isr 57 57, Isr 58 58, Isr 59 59, Isr 60 60, Isr 61 61, Isr 62 62, Isr 63 63,
    Isr 64 64, Isr 65 65, Isr 66 66, Isr 67 67, Isr 68 68, Isr 69 69, Isr 70 70, Isr 71 71,
    Isr 72 72, Isr 73 73, Isr 74 74, Isr 75 75, Isr 76 76, Isr 77 77, Isr 78 78, Isr 79 79,
    Isr 80 80, Isr 81 81, Isr 82 82, Isr 83 83, Isr 84 84, Isr 85 85, Isr 86 86, Isr 87 87,
    Isr 88 88, Isr 89 89, Isr 90 90, Isr 91 91, Isr 92 92, Isr 93 93, Isr 94 94, Isr 95 95,
    Isr 96 96, Isr 97 97, Isr 98 98, Isr 99 99, Isr 100 100, Isr 101 101, Isr 102 102, Isr 103 103,
    Isr 104 104, Isr 105 105, Isr 106 106, Isr 107 107, Isr 108 108, Isr 109 109, Isr 110 110,
    Isr 111 111, Isr 112 112, Isr 113 113, Isr 114 114, Isr 115 115, Isr 116 116, Isr 117 117,
    Isr 118 118, Isr 119 119, Isr 120 120, Isr 121 121, Isr 122 122, Isr 123 123, Isr 124 124,
    Isr 125 125, Isr 126 126, Isr 127 127]"

definition isrs_high :: "isr_decl list" where
  "isrs_high = [
    Isr 128 128, Isr 129 129, Isr 130 130, Isr 131 131, Isr 132 132, Isr 133 133, Isr 134 134,
    Isr 135 135, Isr 136 136, Isr 137 137, Isr 138 138, Isr 139 139, Isr 140 140, Isr 141 141,
    Isr 142 142, Isr 143 143, Isr 144 144, Isr 145 145, Isr 146 146, Isr 147 147, Isr 148 148,
    Isr 149 149, Isr 150 150, Isr 151 151, Isr 152 152, Isr 153 153, Isr 154 154, Isr 155 155,
    Isr 156 156, Isr 157 157, Isr 158 158, Isr 159 159, Isr 160 160, Isr 161 161, Isr 162 162,
    Isr 163 163, Isr 164 164, Isr 165 165, Isr 166 166, Isr 167 167, Isr 168 168, Isr 169 169,
    Isr 170 170, Isr 171 171, Isr 172 172, Isr 173 173, Isr 174 174, Isr 175 175, Isr 176 176,
    Isr 177 177, Isr 178 178, Isr 179 179, Isr 180 180, Isr 181 181, Isr 182 182, Isr 183 183,
    Isr 184 184, Isr 185 185, Isr 186 186, Isr 187 187, Isr 188 188, Isr 189 189, Isr 190 190,
    Isr 191 191, Isr 192 192, Isr 193 193, Isr 194 194, Isr 195 195, Isr 196 196, Isr 197 197,
    Isr 198 198, Isr 199 199, Isr 200 200, Isr 201 201, Isr 202 202, Isr 203 203, Isr 204 204,
    Isr 205 205, Isr 206 206, Isr 207 207, Isr 208 208, Isr 209 209, Isr 210 210, Isr 211 211,
    Isr 212 212, Isr 213 213, Isr 214 214, Isr 215 215, Isr 216 216, Isr 217 217, Isr 218 218,
    Isr 219 219, Isr 220 220, Isr 221 221, Isr 222 222, Isr 223 223, Isr 224 224, Isr 225 225,
    Isr 226 226, Isr 227 227, Isr 228 228, Isr 229 229, Isr 230 230, Isr 231 231, Isr 232 232,
    Isr 233 233, Isr 234 234, Isr 235 235, Isr 236 236, Isr 237 237, Isr 238 238, Isr 239 239,
    Isr 240 240, Isr 241 241, Isr 242 242, Isr 243 243, Isr 244 244, Isr 245 245, Isr 246 246,
    Isr 247 247, Isr 248 248, Isr 249 249, Isr 250 250, Isr 251 251, Isr 252 252, Isr 253 253,
    Isr 254 254, Isr 255 255]"

definition isrs :: "isr_decl list" where
  "isrs = isrs_low @ isrs_high"

definition set_isrs_low :: "isr_decl list" where
  "set_isrs_low = [
    Isr 0 0, Isr 1 1, Isr 2 2, Isr 3 3, Isr 4 4, Isr 5 5, Isr 6 6, Isr 7 7, IsrError 8 8, Isr 9 9,
    IsrError 10 10, IsrError 11 11, IsrError 12 12, IsrError 13 13, IsrError 14 14, Isr 15 15,
    Isr 16 16, IsrError 17 17, Isr 18 18, Isr 19 19, Isr 20 20, Isr 21 21, Isr 22 22, Isr 23 23,
    Isr 24 24, Isr 25 25, Isr 26 26, Isr 27 27, Isr 28 28, Isr 29 29, Isr 30 30, Isr 31 31,
    Isr 32 32, Isr 33 33, Isr 34 34, Isr 35 35, Isr 36 36, Isr 37 37, Isr 38 38, Isr 39 39,
    Isr 40 40, Isr 41 41, Isr 42 42, Isr 43 43, Isr 44 44, Isr 45 45, Isr 46 46, Isr 47 47,
    Isr 48 48, Isr 49 49, Isr 50 50, Isr 51 51, Isr 52 52, Isr 53 53, Isr 54 54, Isr 55 55,
    Isr 56 56, Isr 57 57, Isr 58 58, Isr 59 59, Isr 60 60, Isr 61 61, Isr 62 62, Isr 63 63,
    Isr 64 64, Isr 65 65, Isr 66 66, Isr 67 67, Isr 68 68, Isr 69 69, Isr 70 70, Isr 71 71,
    Isr 72 72, Isr 73 73, Isr 74 74, Isr 75 75, Isr 76 76, Isr 77 77, Isr 78 78, Isr 79 79,
    Isr 80 80, Isr 81 81, Isr 82 82, Isr 83 83, Isr 84 84, Isr 85 85, Isr 86 86, Isr 87 87,
    Isr 88 88, Isr 89 89, Isr 90 90, Isr 91 91, Isr 92 92, Isr 93 93, Isr 94 94, Isr 95 95,
    Isr 96 96, Isr 97 97, Isr 98 98, Isr 99 99, Isr 100 100, Isr 101 101, Isr 102 102, Isr 103 103,
    Isr 104 104, Isr 105 105, Isr 106 106, Isr 107 107, Isr 108 108, Isr 109 109, Isr 110 110,
    Isr 111 111, Isr 112 112, Isr 113 113, Isr 114 114, Isr 115 115, Isr 116 116, Isr 117 117,
    Isr 118 118, Isr 119 119, Isr 120 120, Isr 121 121, Isr 122 122, Isr 123 123, Isr 124 124,
    Isr 125 125, Isr 126 126, Isr 127 127]"

definition set_isrs_high :: "isr_decl list" where
  "set_isrs_high = [
    Isr 128 128, Isr 129 129, Isr 130 130, Isr 131 131, Isr 132 132, Isr 133 133, Isr 134 134,
    Isr 135 135, Isr 136 136, Isr 137 137, Isr 138 138, Isr 139 139, Isr 140 140, Isr 141 141,
    Isr 142 142, Isr 143 143, Isr 144 144, Isr 145 145, Isr 146 146, Isr 147 147, Isr 148 148,
    Isr 149 149, Isr 150 150, Isr 151 151, Isr 152 152, Isr 153 153, Isr 154 154, Isr 155 155,
    Isr 156 156, Isr 157 157, Isr 158 158, Isr 159 159, Isr 160 160, Isr 161 161, Isr 162 162,
    Isr 163 163, Isr 164 164, Isr 165 165, Isr 166 166, Isr 167 167, Isr 168 168, Isr 169 169,
    Isr 170 170, Isr 171 171, Isr 172 172, Isr 173 173, Isr 174 174, Isr 175 175, Isr 176 176,
    Isr 177 177, Isr 178 178, Isr 179 179, Isr 180 180, Isr 181 181, Isr 182 182, Isr 183 183,
    Isr 184 184, Isr 185 185, Isr 186 186, Isr 187 187, Isr 188 188, Isr 189 189, Isr 190 190,
    Isr 191 191, Isr 192 192, Isr 193 193, Isr 194 194, Isr 195 195, Isr 196 196, Isr 197 197,
    Isr 198 198, Isr 199 199, Isr 200 200, Isr 201 201, Isr 202 202, Isr 203 203, Isr 204 204,
    Isr 205 205, Isr 206 206, Isr 207 207, Isr 208 208, Isr 209 209, Isr 210 210, Isr 211 211,
    Isr 212 212, Isr 213 213, Isr 214 214, Isr 215 215, Isr 216 216, Isr 217 217, Isr 218 218,
    Isr 219 219, Isr 220 220, Isr 221 221, Isr 222 222, Isr 223 223, Isr 224 224, Isr 225 225,
    Isr 226 226, Isr 227 227, Isr 228 228, Isr 229 229, Isr 230 230, Isr 231 231, Isr 232 232,
    Isr 233 233, Isr 234 234, Isr 235 235, Isr 236 236, Isr 237 237, Isr 238 238, Isr 239 239,
    Isr 240 240, Isr 241 241, Isr 242 242, Isr 243 243, Isr 244 244, Isr 245 245, Isr 246 246,
    Isr 247 247, Isr 248 248, Isr 249 249, Isr 250 250, Isr 251 251, Isr 252 252, Isr 253 253,
    Isr 254 254, Isr 255 255]"

definition set_isrs :: "isr_decl list" where
  "set_isrs = set_isrs_low @ set_isrs_high"

fun isr_name :: "isr_decl \<Rightarrow> nat" where
  "isr_name (Isr name number) = name"
| "isr_name (IsrError name number) = name"

fun isr_number :: "isr_decl \<Rightarrow> nat" where
  "isr_number (Isr name number) = number"
| "isr_number (IsrError name number) = number"

fun isr_has_error :: "isr_decl \<Rightarrow> bool" where
  "isr_has_error (Isr name number) = False"
| "isr_has_error (IsrError name number) = True"

lemma isr_tables:
  "map isr_number isrs = [0..<256]" "map isr_name isrs = [0..<256]"
  "set_isrs = isrs"
  "filter isr_has_error isrs = map (\<lambda>n. IsrError n n) [8, 10, 11, 12, 13, 14, 17]"
  by code_simp+

section \<open>The machine\<close>

datatype reg = RAX | RBX | RCX | RDX | RSI | RDI | RBP | R8 | R9 | R10 | R11 | R12 | R13 | R14 | R15

record machine =
  regs :: "reg \<Rightarrow> u64"
  m_rsp :: u64
  memory :: "u64 \<Rightarrow> u64"
  m_rip :: u64
  m_cs :: u64
  m_rflags :: u64
  m_ss :: u64

datatype instr =
    Push reg | PushImm u64 | Pop reg | MovRdiRsp | SubRsp u64 | AddRsp u64
  | CallCommonHandler | JmpCommonStub | Iretq

record interrupt_info =
  i_r15 :: u64
  i_r14 :: u64
  i_r13 :: u64
  i_r12 :: u64
  i_r11 :: u64
  i_r10 :: u64
  i_r9 :: u64
  i_r8 :: u64
  i_rbp :: u64
  i_rdi :: u64
  i_rsi :: u64
  i_rdx :: u64
  i_rcx :: u64
  i_rbx :: u64
  i_rax :: u64
  i_int_number :: u64
  i_error_code :: u64
  i_rip :: u64
  i_cs :: u64
  i_rflags :: u64
  i_rsp :: u64
  i_ss :: u64

text \<open>The structure in memory, and the memory after a handler has run on it.\<close>

definition info_words :: "interrupt_info \<Rightarrow> u64 list" where
  "info_words i = [i_r15 i, i_r14 i, i_r13 i, i_r12 i, i_r11 i, i_r10 i, i_r9 i, i_r8 i, i_rbp i, i_rdi i,
     i_rsi i, i_rdx i, i_rcx i, i_rbx i, i_rax i, i_int_number i, i_error_code i, i_rip i, i_cs i,
     i_rflags i, i_rsp i, i_ss i]"

definition read_info :: "(u64 \<Rightarrow> u64) \<Rightarrow> u64 \<Rightarrow> interrupt_info" where
  "read_info m a = \<lparr>i_r15 = m a, i_r14 = m (a + 8), i_r13 = m (a + 16), i_r12 = m (a + 24), i_r11 = m (a + 32),
     i_r10 = m (a + 40), i_r9 = m (a + 48), i_r8 = m (a + 56), i_rbp = m (a + 64), i_rdi = m (a + 72),
     i_rsi = m (a + 80), i_rdx = m (a + 88), i_rcx = m (a + 96), i_rbx = m (a + 104), i_rax = m (a + 112),
     i_int_number = m (a + 120), i_error_code = m (a + 128), i_rip = m (a + 136), i_cs = m (a + 144),
     i_rflags = m (a + 152), i_rsp = m (a + 160), i_ss = m (a + 168)\<rparr>"

definition write_info :: "(u64 \<Rightarrow> u64) \<Rightarrow> u64 \<Rightarrow> interrupt_info \<Rightarrow> u64 \<Rightarrow> u64" where
  "write_info m a i x =
     (let d = unat (x - a) in if d < 176 \<and> d mod 8 = 0 then info_words i ! (d div 8) else m x)"

section \<open>Handlers\<close>

type_synonym 't handler = "interrupt_info \<Rightarrow> 't \<Rightarrow> (interrupt_info \<times> 't) res"

definition set_isr_handler :: "'t handler list \<Rightarrow> u8 \<Rightarrow> 't handler \<Rightarrow> 't handler list res" where
  "set_isr_handler handlers index handler = slice_set handlers (unat index) handler"

definition isr_default_handler :: "'t logger \<Rightarrow> 't handler" where
  "isr_default_handler emit info t =
     and_then (emit Warning ''IDT'' ([chars ''Interrupt ''] @ hex02 (i_int_number info) @
        [chars '' occured and no handler installed'']) t) (\<lambda>t'. Inr (info, t'))"

definition HANDLERS :: "'t logger \<Rightarrow> 't handler list" where
  "HANDLERS emit = replicate 256 (isr_default_handler emit)"

definition isr_common_handler :: "'t handler list \<Rightarrow> 't handler" where
  "isr_common_handler handlers info t =
     and_then (slice_get handlers (unat (i_int_number info))) (\<lambda>h. h info t)"

section \<open>The stubs\<close>

definition isr_common_stub :: "instr list" where
  "isr_common_stub =
     [Push RAX, Push RBX, Push RCX, Push RDX, Push RSI, Push RDI, Push RBP, Push R8, Push R9, Push R10,
      Push R11, Push R12, Push R13, Push R14, Push R15,
      MovRdiRsp, SubRsp 8, CallCommonHandler, AddRsp 8,
      Pop R15, Pop R14, Pop R13, Pop R12, Pop R11, Pop R10, Pop R9, Pop R8, Pop RBP, Pop RDI, Pop RSI,
      Pop RDX, Pop RCX, Pop RBX, Pop RAX, AddRsp 16, Iretq]"

fun isr_stub :: "isr_decl \<Rightarrow> instr list" where
  "isr_stub (Isr name number) = [PushImm 0, PushImm (of_nat number), JmpCommonStub]"
| "isr_stub (IsrError name number) = [PushImm (of_nat number), JmpCommonStub]"

definition push_word :: "u64 \<Rightarrow> machine \<Rightarrow> machine" where
  "push_word v m = m\<lparr>m_rsp := m_rsp m - 8, memory := (memory m)(m_rsp m - 8 := v)\<rparr>"

text \<open>What a call leaves: registers and the memory outside the argument.\<close>

type_synonym env = "(reg \<Rightarrow> u64) \<times> (u64 \<Rightarrow> u64)"

definition call_common :: "'t handler list \<Rightarrow> env \<Rightarrow> machine \<times> 't \<Rightarrow> (machine \<times> 't) res" where
  "call_common handlers env = (\<lambda>(m, t).
     let a = regs m RDI in
      and_then (isr_common_handler handlers (read_info (memory m) a) t) (\<lambda>(info', t').
        Inr (m\<lparr>regs := fst env, memory := write_info (snd env) a info'\<rparr>, t')))"

fun step_instr :: "'t handler list \<Rightarrow> env \<Rightarrow> instr \<Rightarrow> machine \<times> 't \<Rightarrow> (machine \<times> 't) res" where
  "step_instr hs env (Push r) (m, t) = Inr (push_word (regs m r) m, t)"
| "step_instr hs env (PushImm v) (m, t) = Inr (push_word v m, t)"
| "step_instr hs env (Pop r) (m, t) = Inr (m\<lparr>regs := (regs m)(r := memory m (m_rsp m)), m_rsp := m_rsp m + 8\<rparr>, t)"
| "step_instr hs env MovRdiRsp (m, t) = Inr (m\<lparr>regs := (regs m)(RDI := m_rsp m)\<rparr>, t)"
| "step_instr hs env (SubRsp k) (m, t) = Inr (m\<lparr>m_rsp := m_rsp m - k\<rparr>, t)"
| "step_instr hs env (AddRsp k) (m, t) = Inr (m\<lparr>m_rsp := m_rsp m + k\<rparr>, t)"
| "step_instr hs env CallCommonHandler (m, t) = call_common hs env (m, t)"
| "step_instr hs env JmpCommonStub (m, t) = Inr (m, t)"
| "step_instr hs env Iretq (m, t) =
     Inr (m\<lparr>m_rip := memory m (m_rsp m), m_cs := memory m (m_rsp m + 8), m_rflags := memory m (m_rsp m + 16),
            m_ss := memory m (m_rsp m + 32), m_rsp := memory m (m_rsp m + 24)\<rparr>, t)"

fun exec :: "'t handler list \<Rightarrow> env \<Rightarrow> instr list \<Rightarrow> machine \<times> 't \<Rightarrow> (machine \<times> 't) res" where
  "exec hs env [] c = Inr c"
| "exec hs env (i # is) c = and_then (step_instr hs env i c) (exec hs env is)"

text \<open>
  Delivery of an interrupt through a gate with an interrupt stack: the stack pointer is loaded from
  the TSS and aligned, the interrupted state is pushed, with an error code for some exceptions.
\<close>

definition deliver :: "u64 \<Rightarrow> u64 option \<Rightarrow> machine \<Rightarrow> machine" where
  "deliver ist error m =
     fold push_word ([m_ss m, m_rsp m, m_rflags m, m_cs m, m_rip m] @ (case error of None \<Rightarrow> [] | Some e \<Rightarrow> [e]))
       (m\<lparr>m_rsp := ist AND NOT 15\<rparr>)"

definition interrupt :: "'t handler list \<Rightarrow> env \<Rightarrow> isr_decl \<Rightarrow> u64 \<Rightarrow> u64 \<Rightarrow> machine \<times> 't \<Rightarrow> (machine \<times> 't) res" where
  "interrupt hs env d ist error = (\<lambda>(m, t).
     exec hs env (isr_stub d @ isr_common_stub)
       (deliver ist (if isr_has_error d then Some error else None) m, t))"

end
