(* ===== verification/Idt.thy ===== *)
theory Idt
  imports Gdt Interrupt_Stubs
begin

text \<open>
  The Interrupt Descriptor Table: \<open>init\<close>, \<open>init_core\<close> and \<open>set_idt_entry\<close> of
  \<^verbatim>\<open>kernel/src/arch/x86_64/interrupt/mod.rs\<close>, and the platform initialization of
  \<^verbatim>\<open>kernel/src/arch/x86_64/mod.rs\<close> that runs them after the GDT's.

  The addresses of the generated stubs are the argument \<open>stub\<close>. \<open>write_bytes\<close> counts in elements of
  the pointed-to type, so clearing the table with a count of 4096 writes 4096 entries of 16
  bytes; the \<open>FreeEntry\<close> structures of the physical memory manager that lie in the cleared range are
  cleared with it.
\<close>

section \<open>Entries\<close>

record idt_entry =
  offset_low :: u16
  target_selector :: u16
  ist_index :: u8
  gate_type_dpl_p :: u8
  offset_mid :: u16
  offset_high :: u32
  ie_reserved :: u32

definition idt_entry_bytes :: "idt_entry \<Rightarrow> u8 list" where
  "idt_entry_bytes e =
     le_bytes 2 (offset_low e) @ le_bytes 2 (target_selector e) @ le_bytes 1 (ist_index e) @
     le_bytes 1 (gate_type_dpl_p e) @ le_bytes 2 (offset_mid e) @ le_bytes 4 (offset_high e) @
     le_bytes 4 (ie_reserved e)"

definition SIZE_IDT_ENTRY :: u64 where "SIZE_IDT_ENTRY = 16"

lemma length_idt_entry_bytes [simp]: "length (idt_entry_bytes e) = 16"
  by (simp add: idt_entry_bytes_def)

definition gate_for :: "u64 \<Rightarrow> idt_entry" where
  "gate_for handler =
     \<lparr>offset_low = ucast handler, target_selector = SELECTOR_KERNEL_CODE, ist_index = 1,
      gate_type_dpl_p = 0b10001110, offset_mid = ucast (drop_bit 16 handler),
      offset_high = ucast (drop_bit 32 handler), ie_reserved = 0\<rparr>"

definition set_idt_entry :: "u8 \<Rightarrow> u64 \<Rightarrow> platform \<Rightarrow> platform" where
  "set_idt_entry index handler p =
     p\<lparr>plat_mem := store (plat_mem p) (IDT p + ucast index * SIZE_IDT_ENTRY) (idt_entry_bytes (gate_for handler))\<rparr>"

section \<open>Operations\<close>

text \<open>Zeroing a range of memory, with the allocator's structures that lie in it.\<close>

definition wipe_manager :: "u64 \<Rightarrow> nat \<Rightarrow> phys_manager \<Rightarrow> phys_manager" where
  "wipe_manager a n pm =
     (let h = heap (pm_state pm);
          h' = (\<lambda>x. if unat (x - a) < n then \<lparr>fe_order = 0, fe_next = 0, fe_prev = 0\<rparr> else h x)
      in pm\<lparr>pm_state := (pm_state pm)\<lparr>heap := h'\<rparr>\<rparr>)"

definition wipe :: "u64 \<Rightarrow> nat \<Rightarrow> platform \<Rightarrow> platform" where
  "wipe a n p = p\<lparr>plat_mem := fill_bytes (plat_mem p) a n 0, plat_pm := wipe_manager a n (plat_pm p)\<rparr>"

definition register_stubs :: "(nat \<Rightarrow> u64) \<Rightarrow> isr_decl list \<Rightarrow> platform \<Rightarrow> platform" where
  "register_stubs stub decls p =
     fold (\<lambda>d. set_idt_entry (of_nat (isr_number d)) (stub (isr_name d))) decls p"

definition idt_init :: "'t logger \<Rightarrow> u64 \<Rightarrow> (nat \<Rightarrow> u64) \<Rightarrow> platform \<Rightarrow> 't \<Rightarrow> (platform \<times> 't) res" where
  "idt_init emit high_mem_base stub p t =
     and_then (emit Info ''IDT'' [chars ''Initializing...''] t) (\<lambda>t1.
     and_then (alloc_page (inline_storage high_mem_base) (plat_pm p)) (\<lambda>(a, pm).
     let idt = phys_to_virt high_mem_base a;
         p1 = wipe idt (4096 * unat SIZE_IDT_ENTRY) (p\<lparr>plat_pm := pm\<rparr>);
         p2 = p1\<lparr>IDT := idt\<rparr> in
     and_then (emit Verbose ''IDT'' (chars ''IDT at '' # hex016 idt) t1) (\<lambda>t2.
     let p3 = register_stubs stub set_isrs p2 in
     and_then (emit Info ''IDT'' [chars ''Initialized...''] t2) (\<lambda>t3. Inr (p3, t3)))))"

text \<open>The same without the messages, as the reference for the proofs about the table.\<close>

definition idt_setup :: "u64 \<Rightarrow> (nat \<Rightarrow> u64) \<Rightarrow> platform \<Rightarrow> platform res" where
  "idt_setup high_mem_base stub p =
     and_then (alloc_page (inline_storage high_mem_base) (plat_pm p)) (\<lambda>(a, pm).
     let idt = phys_to_virt high_mem_base a;
         p1 = wipe idt (4096 * unat SIZE_IDT_ENTRY) (p\<lparr>plat_pm := pm\<rparr>)
     in Inr (register_stubs stub set_isrs (p1\<lparr>IDT := idt\<rparr>)))"

definition idt_init_core :: "u64 \<Rightarrow> u64 \<Rightarrow> platform \<Rightarrow> platform res" where
  "idt_init_core high_mem_base core_id p =
     and_then (alloc_linear_pages (inline_storage high_mem_base) 4 (plat_pm p)) (\<lambda>(a, pm).
     let int_stack = phys_to_virt high_mem_base a in
     and_then (checked_add int_stack (4 * 4096)) (\<lambda>stack_end.
     let p1 = set_ist1 core_id stack_end (p\<lparr>plat_pm := pm\<rparr>)
     in Inr (p1\<lparr>plat_cpu := (plat_cpu p1)\<lparr>idtr := (4095, IDT p1)\<rparr>\<rparr>)))"

definition init_platform :: "'t logger \<Rightarrow> u64 \<Rightarrow> (nat \<Rightarrow> u64) \<Rightarrow> platform \<Rightarrow> 't \<Rightarrow> (platform \<times> 't) res" where
  "init_platform emit high_mem_base stub p t =
     and_then (gdt_init emit high_mem_base 1 p t) (\<lambda>(p1, t1).
     and_then (gdt_init_core 0 p1) (\<lambda>p2.
     and_then (idt_init emit high_mem_base stub p2 t1) (\<lambda>(p3, t2).
     and_then (idt_init_core high_mem_base 0 p3) (\<lambda>p4. Inr (p4, t2)))))"

definition platform_setup :: "u64 \<Rightarrow> (nat \<Rightarrow> u64) \<Rightarrow> platform \<Rightarrow> platform res" where
  "platform_setup high_mem_base stub p =
     and_then (gdt_setup high_mem_base 1 p) (\<lambda>p1.
     and_then (gdt_init_core 0 p1) (\<lambda>p2.
     and_then (idt_setup high_mem_base stub p2) (idt_init_core high_mem_base 0)))"

definition init_secondary_core :: "u64 \<Rightarrow> u64 \<Rightarrow> platform \<Rightarrow> platform res" where
  "init_secondary_core high_mem_base core_id p =
     and_then (gdt_init_core core_id p) (idt_init_core high_mem_base core_id)"

section \<open>The contents of the table\<close>

text \<open>What the processor reads from a gate: target address, selector, stack index and type.\<close>

definition gate_offset :: "u8 list \<Rightarrow> u64" where
  "gate_offset g = le_word (take 2 g @ take 2 (drop 6 g) @ take 4 (drop 8 g))"

lemma gate_decodes:
  fixes h :: u64
  defines "g \<equiv> idt_entry_bytes (gate_for h)"
  shows "gate_offset g = h" "take 2 (drop 2 g) = le_bytes 2 SELECTOR_KERNEL_CODE" "g ! 4 = 1" "g ! 5 = 0x8E"
proof -
  have bytes: "g = le_bytes 2 (ucast h :: u16) @ le_bytes 2 SELECTOR_KERNEL_CODE @ [1, 0x8E] @
      le_bytes 2 (ucast (drop_bit 16 h) :: u16) @ le_bytes 4 (ucast (drop_bit 32 h) :: u32) @ [0, 0, 0, 0]"
    by (simp add: g_def idt_entry_bytes_def gate_for_def)
  have "gate_offset g = le_word (le_bytes 8 h)"
  proof -
    have "take 2 g @ take 2 (drop 6 g) @ take 4 (drop 8 g) = le_bytes 8 h"
      unfolding bytes by simp (auto intro!: bit_word_eqI simp: bit_ucast_iff bit_drop_bit_eq)
    then show ?thesis by (simp only: gate_offset_def)
  qed
  also have "\<dots> = h" by (rule le_word_le_bytes_full) simp
  finally show "gate_offset g = h" .
  show "take 2 (drop 2 g) = le_bytes 2 SELECTOR_KERNEL_CODE" "g ! 4 = 1" "g ! 5 = 0x8E"
    unfolding bytes by simp_all
qed

lemma register_stubs_fields:
  "IDT (register_stubs stub decls p) = IDT p" "GDT (register_stubs stub decls p) = GDT p"
  "TSS (register_stubs stub decls p) = TSS p" "plat_pm (register_stubs stub decls p) = plat_pm p"
  "plat_cpu (register_stubs stub decls p) = plat_cpu p"
  unfolding register_stubs_def by (induction decls arbitrary: p) (simp_all add: set_idt_entry_def)

lemma entry_address:
  assumes "k < 256"
  shows "ucast (of_nat k :: u8) * SIZE_IDT_ENTRY = (of_nat (16 * k) :: u64)"
proof -
  have "take_bit 8 k = k" using assms by (simp add: take_bit_nat_eq_self_iff)
  then have "(ucast (of_nat k :: u8) :: u64) = of_nat k" by (simp add: unsigned_of_nat)
  then show ?thesis by (simp add: SIZE_IDT_ENTRY_def mult.commute)
qed

lemma register_stubs_snoc:
  "register_stubs stub (decls @ [d]) p =
     set_idt_entry (of_nat (isr_number d)) (stub (isr_name d)) (register_stubs stub decls p)"
  by (simp add: register_stubs_def)

text \<open>Registering stubs writes to the page of the table only.\<close>

lemma set_idt_entry_frame:
  assumes "4096 \<le> unat (x - IDT p)" "k < 256"
  shows "plat_mem (set_idt_entry (of_nat k) h p) x = plat_mem p x"
proof -
  have u: "unat (of_nat (16 * k) :: u64) = 16 * k" using assms(2) by (intro unat_of_nat_small) simp
  have le: "of_nat (16 * k) \<le> x - IDT p" using assms u by (simp add: word_le_nat_alt del: of_nat_mult)
  have "unat (x - (IDT p + of_nat (16 * k))) = unat (x - IDT p - of_nat (16 * k))" by (simp add: diff_diff_add)
  also have "\<dots> = unat (x - IDT p) - 16 * k" using unat_sub_checked[OF le] u by simp
  finally have "\<not> unat (x - (IDT p + of_nat (16 * k))) < 16" using assms by linarith
  then show ?thesis unfolding set_idt_entry_def entry_address[OF assms(2)] by (simp add: store_other del: of_nat_mult)
qed

lemma register_decls_frame:
  assumes "4096 \<le> unat (x - IDT p)" "\<forall>d\<in>set decls. isr_number d < 256"
  shows "plat_mem (register_stubs stub decls p) x = plat_mem p x"
  using assms
proof (induction decls rule: rev_induct)
  case (snoc d decls)
  then show ?case
    using set_idt_entry_frame[of x "register_stubs stub decls p" "isr_number d" "stub (isr_name d)"]
    by (simp add: register_stubs_snoc register_stubs_fields)
qed (simp add: register_stubs_def)

lemma isrs_in_range: "d \<in> set isrs \<Longrightarrow> isr_number d < 256"
proof -
  assume "d \<in> set isrs"
  then have "isr_number d \<in> set (map isr_number isrs)" by simp
  then show ?thesis unfolding isr_tables(1) by simp
qed

lemma register_stubs_frame:
  "4096 \<le> unat (x - IDT p) \<Longrightarrow> plat_mem (register_stubs stub set_isrs p) x = plat_mem p x"
  by (rule register_decls_frame) (simp_all add: isr_tables(3) isrs_in_range)

lemma load_other_entry:
  assumes "j < 256" "k < 256" "j \<noteq> k"
  shows "load (plat_mem (set_idt_entry (of_nat j) h p)) (IDT p + of_nat (16 * k)) 16 = load (plat_mem p) (IDT p + of_nat (16 * k)) 16"
proof -
  have "16 * k + 16 \<le> 16 * j \<or> 16 * j + 16 \<le> 16 * k" using assms(3) by linarith
  then have "disjoint_regions (IDT p + of_nat (16 * k)) 16 (IDT p + of_nat (16 * j)) 16"
    using assms(1,2) by (intro disjoint_offsets) simp_all
  then show ?thesis unfolding set_idt_entry_def entry_address[OF assms(1)]
    by (simp del: of_nat_mult add: load_store_other)
qed

lemma load_registered:
  assumes "distinct (map isr_number decls)" "\<forall>d\<in>set decls. isr_number d < 256" "d \<in> set decls"
  shows "load (plat_mem (register_stubs stub decls p)) (IDT p + of_nat (16 * isr_number d)) 16 =
           idt_entry_bytes (gate_for (stub (isr_name d)))"
  using assms
proof (induction decls rule: rev_induct)
  case Nil
  then show ?case by simp
next
  case (snoc c decls)
  let ?p = "register_stubs stub decls p"
  have idt: "IDT p = IDT ?p" by (simp add: register_stubs_fields)
  show ?case
  proof (cases "d \<in> set decls")
    case True
    then have ne: "isr_number c \<noteq> isr_number d" using snoc.prems(1) by auto
    from load_other_entry[OF _ _ ne, of "stub (isr_name c)" ?p] True snoc
    show ?thesis unfolding register_stubs_snoc idt by (auto simp: register_stubs_fields)
  next
    case False
    then have "d = c" using snoc.prems(3) by simp
    moreover have c: "isr_number c < 256" using snoc.prems(2) by simp
    ultimately show ?thesis
      unfolding register_stubs_snoc idt set_idt_entry_def entry_address[OF c] by (simp del: of_nat_mult)
  qed
qed

lemma idt_contents:
  assumes "k < 256"
  shows "load (plat_mem (register_stubs stub set_isrs p)) (IDT p + of_nat (16 * k)) 16 = idt_entry_bytes (gate_for (stub k))"
proof -
  have len: "length isrs = 256" using arg_cong[OF isr_tables(1), of length] by simp
  have nth: "isr_number (isrs ! i) = i" "isr_name (isrs ! i) = i" if "i < 256" for i
    using arg_cong[OF isr_tables(1), of "\<lambda>xs. xs ! i"] arg_cong[OF isr_tables(2), of "\<lambda>xs. xs ! i"] that len
    by simp_all
  have "load (plat_mem (register_stubs stub isrs p)) (IDT p + of_nat (16 * isr_number (isrs ! k))) 16 =
      idt_entry_bytes (gate_for (stub (isr_name (isrs ! k))))"
    using assms len by (intro load_registered) (simp_all add: isr_tables isrs_in_range)
  then show ?thesis unfolding isr_tables(3) nth[OF assms] .
qed

end
