(* ===== verification/Platform_Boot.thy ===== *)
theory Platform_Boot
  imports Idt Phys_Init
begin

text \<open>
  The platform initialization as a whole. The clearing of the IDT damages free-list entries
  (see the properties of the IDT), and the interrupt stack is allocated after it; the block that
  \<open>alloc_block\<close> returns depends only on the list heads and the bitmap, so that allocation is
  the one the undamaged manager would make.
\<close>

section \<open>Allocation does not depend on the links\<close>

lemma push_block_heads:
  assumes "push_block st s i k = Inr t" "buddy_map s' = buddy_map s" "length (free_lists s') = length (free_lists s)"
  shows "\<exists>t'. push_block st s' i k = Inr t' \<and> buddy_map t' = buddy_map t \<and> length (free_lists t') = length (free_lists t)"
  using assms by (auto simp: push_block_def sum_simps slice_get_Inr slice_set_Inr Let_def split_beta)

lemma alloc_block_head:
  assumes "k < length (free_lists s)" "free_lists s ! k \<noteq> 0"
  shows "alloc_block st s k =
    (let index = get_index st (free_lists s ! k); (h, n, e) = pop_buddy_list_entry (heap s) (free_lists s ! k) in
     and_then (slice_modify (buddy_map s) (unat (index div 64)) (\<lambda>w. w AND NOT (push_bit (unat (index mod 64)) 1))) (\<lambda>bm.
       Inr (index, s\<lparr>free_lists := (free_lists s)[k := n], heap := h, buddy_map := bm\<rparr>)))"
  using assms by (subst alloc_block.simps) (simp add: pop_buddy_list_entry_def Let_def split: if_splits)

lemma alloc_block_heads:
  assumes len: "length (free_lists s) = MAX_ORDER + 1" and al: "alloc_block st s k = Inr (i, t)"
    and eq: "free_lists s' = free_lists s" "buddy_map s' = buddy_map s"
  shows "\<exists>t'. alloc_block st s' k = Inr (i, t') \<and> buddy_map t' = buddy_map t \<and>
    length (free_lists t') = length (free_lists t)"
  using al
proof (induction "MAX_ORDER - k" arbitrary: k i t)
  case 0
  then have k: "k \<ge> MAX_ORDER" by simp
  have k': "k < length (free_lists s)"
    using "0.prems" by (subst (asm) alloc_block.simps) (auto simp: sum_simps slice_get_Inr)
  have ne: "free_lists s ! k \<noteq> 0"
  proof
    assume z: "free_lists s ! k = 0"
    have "k = MAX_ORDER" using k k' len by simp
    then have "alloc_block st s k = Inl (Message ''Out of physical memory'')"
      using k' z by (subst alloc_block.simps) (simp add: pop_buddy_list_entry_def Let_def)
    with "0.prems" show False by simp
  qed
  from "0.prems" show ?case using ne k' eq
    by (auto simp: alloc_block_head sum_simps Let_def split_beta)
next
  case (Suc d)
  then have k: "k < MAX_ORDER" by simp
  show ?case
  proof (cases "free_lists s ! k = 0")
    case False
    from Suc.prems show ?thesis using False k len eq
      by (auto simp: alloc_block_head sum_simps Let_def split_beta)
  next
    case True
    from Suc.prems obtain t1 b where t1: "alloc_block st s (k + 1) = Inr (i, t1)" "get_buddy_index i k = Inr b" "push_block st t1 b k = Inr t"
      by (auto simp: alloc_block_split[OF len k True] sum_simps)
    have "d = MAX_ORDER - (k + 1)" using Suc.hyps(2) by simp
    from Suc.hyps(1)[OF this t1(1)] obtain t1' where t1': "alloc_block st s' (k + 1) = Inr (i, t1')"
        "buddy_map t1' = buddy_map t1" "length (free_lists t1') = length (free_lists t1)" by blast
    from push_block_heads[OF t1(3) t1'(2,3)] t1(2) t1'(1) show ?thesis
      using alloc_block_split[of s' k st] len k True eq by auto
  qed
qed

lemma wipe_manager_fields [simp]:
  "free_lists (pm_state (wipe_manager a n pm)) = free_lists (pm_state pm)"
  "buddy_map (pm_state (wipe_manager a n pm)) = buddy_map (pm_state pm)"
  "pm_lock (wipe_manager a n pm) = pm_lock pm"
  by (simp_all add: wipe_manager_def Let_def)

lemma alloc_after_wipe:
  assumes inv: "manager_inv st N pm" and al: "alloc_linear_pages st count pm = Inr (a, pm')"
  shows "\<exists>pm''. alloc_linear_pages st count (wipe_manager x n pm) = Inr (a, pm'')"
proof -
  have lock: "\<not> locked (pm_lock pm)" by (rule manager_invD(1)[OF inv])
  from al obtain k i s' where k: "get_size_order count = Inr k"
    and b: "alloc_block st (pm_state pm) k = Inr (i, s')" and a: "a = push_bit 12 i"
    by (auto simp: alloc_linear_pages_def guarded_free[OF lock] sum_simps)
  have "length (free_lists (pm_state pm)) = MAX_ORDER + 1"
    using phys_invD(5)[OF manager_invD(2)[OF inv]] .
  from alloc_block_heads[OF this b, of "pm_state (wipe_manager x n pm)"]
  obtain t where "alloc_block st (pm_state (wipe_manager x n pm)) k = Inr (i, t)" by auto
  moreover have "\<not> locked (pm_lock (wipe_manager x n pm))" using lock by simp
  ultimately show ?thesis by (simp add: alloc_linear_pages_def guarded_free k a)
qed

section \<open>The four steps\<close>

text \<open>Three pages are taken before the interrupt stack; they touch at most three of four runs of four pages.\<close>

lemma run_of_four:
  fixes q :: nat
  assumes "16 dvd q" "{q..<q + 16} \<subseteq> A"
  shows "\<exists>i. 2 ^ 2 dvd i \<and> block_pages i 2 \<subseteq> A - {x, y, z}"
proof (rule ccontr)
  assume no: "\<not> ?thesis"
  have hit: "x \<in> block_pages (q + 4 * j) 2 \<or> y \<in> block_pages (q + 4 * j) 2 \<or> z \<in> block_pages (q + 4 * j) 2" if "j < 4" for j
  proof -
    have "4 dvd q" using assms(1) by presburger
    then have "2 ^ 2 dvd q + 4 * j" by simp
    moreover have "block_pages (q + 4 * j) 2 \<subseteq> A" using assms(2) that by (auto simp: block_pages_def)
    ultimately show ?thesis using no by blast
  qed
  from hit[of 0] hit[of 1] hit[of 2] hit[of 3] show False by (auto simp: block_pages_def)
qed

lemma get_size_order_four: "get_size_order 4 = Inr 2"
  by code_simp

lemma gdt_init_core_zero:
  "gdt_init_core 0 p = Inr (p\<lparr>plat_cpu := (plat_cpu p)\<lparr>gdtr := (39, GDT p), ds := SELECTOR_NULL, es := SELECTOR_NULL,
      ss := SELECTOR_NULL, cs := SELECTOR_KERNEL_CODE, tr := 24\<rparr>\<rparr>)"
  by (simp add: gdt_init_core_def checked_mul_def checked_add_def checked_sub_def)

lemma sub_regions:
  assumes "disjoint_regions a 4096 b 4096" "i + n \<le> 4096" "36 + 8 \<le> (4096 :: nat)"
  shows "disjoint_regions (a + of_nat i) n (b + 36) 8"
  unfolding disjoint_regions_def
proof (intro allI impI)
  fix j assume "j < n"
  then have "4096 \<le> unat (a + of_nat (i + j) - b)" using assms(1,2) unfolding disjoint_regions_def by (metis add_less_cancel_left order_less_le_trans)
  then have le: "4096 \<le> unat (a + of_nat i + of_nat j - b)" by (simp add: add.assoc)
  then have "36 \<le> a + of_nat i + of_nat j - b" by (simp add: word_le_nat_alt)
  from unat_sub_checked[OF this] have "unat (a + of_nat i + of_nat j - (b + 36)) = unat (a + of_nat i + of_nat j - b) - 36"
    by (simp add: diff_diff_add)
  with le show "8 \<le> unat (a + of_nat i + of_nat j - (b + 36))" by simp
qed

text \<open>What the later steps leave of the GDT: all of it, when it is not in the pages that are cleared for the IDT.\<close>

lemma gdt_survives:
  fixes p :: platform and pm :: phys_manager and stub :: "nat \<Rightarrow> u64"
  assumes tss: "disjoint_regions (GDT p) 40 (TSS p) 104" and idt: "disjoint_regions (GDT p) 40 idt 0x10000"
    and n: "i + n \<le> 40" and len: "length bs = 8"
  defines "p' \<equiv> register_stubs stub set_isrs ((wipe idt (4096 * unat SIZE_IDT_ENTRY) (p\<lparr>plat_pm := pm\<rparr>))\<lparr>IDT := idt\<rparr>)"
  shows "load (store (plat_mem p') (TSS p + 36) bs) (GDT p + of_nat i) n = load (plat_mem p) (GDT p + of_nat i) n"
proof (rule load_eqI)
  fix j assume "j < n"
  then have j: "i + j < 40" using n by simp
  let ?x = "GDT p + of_nat (i + j)"
  have "65536 \<le> unat (?x - idt)" using idt j unfolding disjoint_regions_def by blast
  then have "plat_mem p' ?x = plat_mem p ?x"
    unfolding p'_def by (subst register_stubs_frame) (simp_all add: wipe_def fill_bytes_def SIZE_IDT_ENTRY_def)
  moreover have "8 \<le> unat (?x - (TSS p + 36))"
  proof -
    have "104 \<le> unat (?x - TSS p)" using tss j by (simp only: disjoint_regions_def)
    moreover have "?x - (TSS p + 36) = (?x - TSS p) - 36" by simp
    ultimately show ?thesis by (simp only: unat_sub_if_size) simp
  qed
  then have "store (plat_mem p') (TSS p + 36) bs ?x = plat_mem p' ?x" using len by (simp add: store_nth)
  ultimately show "store (plat_mem p') (TSS p + 36) bs (GDT p + of_nat i + of_nat j) = plat_mem p (GDT p + of_nat i + of_nat j)"
    by (simp only: of_nat_add add.assoc)
qed

context address_window
begin

lemma idt_init_step:
  assumes inv: "manager_inv (inline_storage base) (2 ^ (m - 12)) (plat_pm p)" and m12: "12 \<le> m"
    and ne: "available (inline_storage base) (plat_pm p) \<noteq> {}"
  shows "\<exists>a pm. idt_setup base stub p = Inr (register_stubs stub set_isrs
        ((wipe (phys_to_virt base a) (4096 * unat SIZE_IDT_ENTRY) (p\<lparr>plat_pm := pm\<rparr>))\<lparr>IDT := phys_to_virt base a\<rparr>)) \<and>
      manager_inv (inline_storage base) (2 ^ (m - 12)) pm \<and>
      unat a = 4096 * unat (drop_bit 12 a) \<and> unat a + 4096 \<le> 2 ^ m \<and>
      unat (drop_bit 12 a) \<in> available (inline_storage base) (plat_pm p) \<and>
      available (inline_storage base) pm = available (inline_storage base) (plat_pm p) - {unat (drop_bit 12 a)}"
proof -
  obtain a pm where a: "alloc_linear_pages (inline_storage base) 1 (plat_pm p) = Inr (a, pm)"
      "manager_inv (inline_storage base) (2 ^ (m - 12)) pm" "unat a = 4096 * unat (drop_bit 12 a)" "unat a + 4096 \<le> 2 ^ m"
      "unat (drop_bit 12 a) \<in> available (inline_storage base) (plat_pm p)"
      "available (inline_storage base) pm = available (inline_storage base) (plat_pm p) - {unat (drop_bit 12 a)}"
    using alloc_one_page[OF inv m12 ne] by blast
  then have "alloc_page (inline_storage base) (plat_pm p) = Inr (a, pm)"
    using alloc_page_one[OF manager_invD(1)[OF inv]] by simp
  then have "idt_setup base stub p = Inr (register_stubs stub set_isrs
        ((wipe (phys_to_virt base a) (4096 * unat SIZE_IDT_ENTRY) (p\<lparr>plat_pm := pm\<rparr>))\<lparr>IDT := phys_to_virt base a\<rparr>))"
    unfolding idt_setup_def by (simp add: Let_def)
  with a(2-6) show ?thesis by blast
qed

lemma stack_end:
  assumes "unat a + 16384 < 2 ^ m"
  shows "checked_add (phys_to_virt base a) (4 * 4096) = Inr (phys_to_virt base a + 16384)"
proof -
  have "unat a < 2 ^ m" using assms by simp
  then have eq: "phys_to_virt base a = base + a" by (rule phys_to_virt_add)
  have "base = - 1 - mask m" by (simp add: base_mask not_eq_complement)
  moreover have "unat (mask m :: u64) = 2 ^ m - 1"
  proof -
    have "(1 :: u64) \<le> 2 ^ m" using m_less by (simp add: word_le_nat_alt unat_power2)
    from unat_sub_checked[OF this] show ?thesis using m_less by (simp add: mask_eq_exp_minus_1 unat_power2)
  qed
  moreover have "unat (- 1 :: u64) = 2 ^ 64 - 1" by (simp add: unsigned_minus_1_eq_mask mask_eq_exp_minus_1)
  moreover have "mask m \<le> (- 1 :: u64)" by simp
  ultimately have b: "unat base = (2 ^ 64 - 1) - (2 ^ m - 1)" by (simp only: unat_sub_checked)
  moreover have "(2 :: nat) ^ m \<le> 2 ^ 63" using m_less by (intro power_increasing) simp_all
  ultimately have lt: "unat base + unat a + 16384 < 2 ^ 64" using assms by simp
  then have "unat (base + a) = unat base + unat a" by (intro unat_add_checked) simp
  with lt show ?thesis by (simp add: eq checked_add_def)
qed

text \<open>The interrupt stack: four pages that were free, below the end of the window.\<close>

lemma alloc_stack:
  assumes inv: "manager_inv (inline_storage base) (2 ^ (m - 12)) pm" and m12: "12 \<le> m"
    and run: "2 ^ 2 dvd i" "block_pages i 2 \<subseteq> available (inline_storage base) pm"
    and top: "2 ^ (m - 12) - 1 \<notin> available (inline_storage base) pm"
  shows "\<exists>a pm'. alloc_linear_pages (inline_storage base) 4 pm = Inr (a, pm') \<and> unat a + 16384 < 2 ^ m \<and>
      block_pages (unat (drop_bit 12 a)) 2 \<subseteq> available (inline_storage base) pm"
proof -
  let ?st = "inline_storage base" and ?i = "\<lambda>a. unat (drop_bit 12 a)"
  obtain a pm' where al: "alloc_linear_pages ?st 4 pm = Inr (a, pm')"
    using inline.alloc_linear_pages_succeeds[OF inv get_size_order_four] run by (auto simp: MAX_ORDER_def)
  note c = inline.alloc_linear_pages_correct[OF inv al]
  have sub: "block_pages (?i a) 2 \<subseteq> available ?st pm" using c by (simp add: allocation_pages_def get_size_order_four)
  have "available ?st pm \<subseteq> {..<64 * length (buddy_map (pm_state pm))}"
    unfolding available_def free_page_set_def by (rule free_pages_of_bound[OF phys_invD(1)[OF manager_invD(2)[OF inv]]])
  then have av: "available ?st pm \<subseteq> {..<2 ^ (m - 12)}" using phys_invD(3)[OF manager_invD(2)[OF inv]] by fastforce
  have "?i a + 3 \<in> block_pages (?i a) 2" by (simp add: block_pages_def)
  then have "?i a + 3 < 2 ^ (m - 12)" "?i a + 3 \<noteq> 2 ^ (m - 12) - 1" using sub av top by auto
  then have "?i a + 4 < 2 ^ (m - 12)" by linarith
  then have "(?i a + 4) * 2 ^ 12 < 2 ^ (m - 12) * 2 ^ 12" by simp
  also have "\<dots> = 2 ^ m" using m12 by (metis le_add_diff_inverse2 power_add)
  finally have "unat a + 16384 < 2 ^ m" using c by simp
  with al sub show ?thesis by blast
qed

lemma init_platform_steps:
  assumes inv: "manager_inv (inline_storage base) (2 ^ (m - 12)) (plat_pm p)" and m12: "12 \<le> m"
    and run: "16 dvd q" "{q..<q + 16} \<subseteq> available (inline_storage base) (plat_pm p)"
    and top: "2 ^ (m - 12) - 1 \<notin> available (inline_storage base) (plat_pm p)"
  shows "\<exists>p' a. platform_setup base stub p = Inr p' \<and>
      gdtr (plat_cpu p') = (39, GDT p') \<and> idtr (plat_cpu p') = (4095, IDT p') \<and>
      cs (plat_cpu p') = SELECTOR_KERNEL_CODE \<and> tr (plat_cpu p') = 24 \<and>
      (\<forall>k<256. load (plat_mem p') (IDT p' + of_nat (16 * k)) 16 = idt_entry_bytes (gate_for (stub k))) \<and>
      load (plat_mem p') (TSS p' + 36) 8 = le_bytes 8 (phys_to_virt base a + 16384) \<and>
      block_pages (unat (drop_bit 12 a)) 2 \<subseteq> available (inline_storage base) (plat_pm p) \<and>
      (disjoint_regions (GDT p') 40 (IDT p') 0x10000 \<longrightarrow>
         load (plat_mem p') (GDT p' + 8) 8 = le_bytes 8 (gdt_entry_new_code False) \<and>
         load (plat_mem p') (GDT p' + 24) 16 = gdt_entry_tss_bytes (tss_descriptor (TSS p')))"
proof -
  let ?st = "inline_storage base" and ?A = "available (inline_storage base) (plat_pm p)"
  have two: "q \<in> ?A" "q + 1 \<in> ?A" "q \<noteq> q + 1" using run(2) by auto
  obtain p1 g t where p1: "gdt_setup base 1 p = Inr p1" "manager_inv ?st (2 ^ (m - 12)) (plat_pm p1)"
      "available ?st (plat_pm p1) = ?A - {unat (drop_bit 12 g), unat (drop_bit 12 t)}"
      "GDT p1 = phys_to_virt base g" "TSS p1 = phys_to_virt base t" "plat_mem p1 = gdt_fill (GDT p1) (TSS p1) 1 (plat_mem p)"
    and g: "unat g = 4096 * unat (drop_bit 12 g)" "unat g + 4096 \<le> 2 ^ m" "unat (drop_bit 12 g) \<noteq> unat (drop_bit 12 t)"
    and t: "unat t = 4096 * unat (drop_bit 12 t)" "unat t + 4096 \<le> 2 ^ m"
    using gdt_init_one_core[OF inv m12 two] by (elim exE conjE) (rule that; assumption)
  define p2 where "p2 = p1\<lparr>plat_cpu := (plat_cpu p1)\<lparr>gdtr := (39, GDT p1), ds := SELECTOR_NULL, es := SELECTOR_NULL,
      ss := SELECTOR_NULL, cs := SELECTOR_KERNEL_CODE, tr := 24\<rparr>\<rparr>"
  have p2: "gdt_init_core 0 p1 = Inr p2" "plat_pm p2 = plat_pm p1" "TSS p2 = TSS p1" "GDT p2 = GDT p1"
      "gdtr (plat_cpu p2) = (39, GDT p1)" "cs (plat_cpu p2) = SELECTOR_KERNEL_CODE" "tr (plat_cpu p2) = 24"
    by (simp_all add: p2_def gdt_init_core_zero)
  have inv2: "manager_inv ?st (2 ^ (m - 12)) (plat_pm p2)" using p1(2) p2(2) by simp
  note four = run_of_four[OF run, where x = "unat (drop_bit 12 g)" and y = "unat (drop_bit 12 t)"]
  obtain i where i: "block_pages i 2 \<subseteq> ?A - {unat (drop_bit 12 g), unat (drop_bit 12 t), 0}"
    using four[where z = 0] by blast
  have "i \<in> block_pages i 2" by (simp add: block_pages_def)
  then have "available ?st (plat_pm p2) \<noteq> {}" using i unfolding p2(2) p1(3) by blast
  from idt_init_step[OF inv2 m12 this] obtain c pm where
      p3: "idt_setup base stub p2 = Inr (register_stubs stub set_isrs
        ((wipe (phys_to_virt base c) (4096 * unat SIZE_IDT_ENTRY) (p2\<lparr>plat_pm := pm\<rparr>))\<lparr>IDT := phys_to_virt base c\<rparr>))"
        (is "_ = Inr (register_stubs stub set_isrs ?w)")
    and pm: "manager_inv ?st (2 ^ (m - 12)) pm" "available ?st pm = available ?st (plat_pm p2) - {unat (drop_bit 12 c)}"
    and c: "unat c = 4096 * unat (drop_bit 12 c)" "unat c + 4096 \<le> 2 ^ m" "unat (drop_bit 12 c) \<in> available ?st (plat_pm p2)"
    by blast
  define p3 where "p3 = register_stubs stub set_isrs ?w"
  have p3f: "IDT p3 = phys_to_virt base c" "TSS p3 = TSS p1" "GDT p3 = GDT p1" "plat_cpu p3 = plat_cpu p2"
      "plat_pm p3 = wipe_manager (phys_to_virt base c) (4096 * unat SIZE_IDT_ENTRY) pm"
    by (simp_all add: p3_def register_stubs_fields wipe_def p2)
  have av: "available ?st pm = ?A - {unat (drop_bit 12 g), unat (drop_bit 12 t), unat (drop_bit 12 c)}"
    unfolding pm(2) p2(2) p1(3) by blast
  obtain j where j: "2 ^ 2 dvd j" "block_pages j 2 \<subseteq> available ?st pm" unfolding av using four[where z = "unat (drop_bit 12 c)"] by blast
  have "2 ^ (m - 12) - 1 \<notin> available ?st pm" using top unfolding av by blast
  from alloc_stack[OF pm(1) m12 j this] obtain a pm' where a: "alloc_linear_pages ?st 4 pm = Inr (a, pm')"
      "unat a + 16384 < 2 ^ m" "block_pages (unat (drop_bit 12 a)) 2 \<subseteq> available ?st pm" by blast
  from alloc_after_wipe[OF pm(1) a(1)] obtain pm4 where
      a4: "alloc_linear_pages ?st 4 (plat_pm p3) = Inr (a, pm4)" unfolding p3f by blast
  define p4 where "p4 = (set_ist1 0 (phys_to_virt base a + 16384) (p3\<lparr>plat_pm := pm4\<rparr>))"
  have "idt_init_core base 0 p3 = Inr (p4\<lparr>plat_cpu := (plat_cpu p4)\<lparr>idtr := (4095, IDT p4)\<rparr>\<rparr>)" (is "_ = Inr ?p5")
    unfolding idt_init_core_def a4 using stack_end[OF a(2)] by (simp add: Let_def p4_def)
  then have init: "platform_setup base stub p = Inr ?p5"
    unfolding platform_setup_def p1(1) and_then_Inr p2(1) p3 p3_def[symmetric] by simp
  have p4f: "IDT p4 = IDT p3" "TSS p4 = TSS p3" "GDT p4 = GDT p3" "plat_cpu p4 = plat_cpu p3"
      "plat_mem p4 = store (plat_mem p3) (TSS p3 + 36) (le_bytes 8 (phys_to_virt base a + 16384))"
    by (simp_all add: p4_def set_ist1_def del: le_bytes_numeral)
  have apart: "unat (drop_bit 12 c) \<noteq> unat (drop_bit 12 t)" using c(3) unfolding p2(2) p1(3) by blast
  have gates: "load (plat_mem p4) (IDT p4 + of_nat (16 * k)) 16 = idt_entry_bytes (gate_for (stub k))" if "k < 256" for k
  proof -
    have "disjoint_regions (IDT p3) 4096 (TSS p3) 4096"
      unfolding p3f p1(5) by (rule pages_apart[OF c(1,2) t(1,2) apart]) simp_all
    then have d: "disjoint_regions (IDT p3 + of_nat (16 * k)) 16 (TSS p3 + 36) 8"
      by (rule sub_regions) (use that in simp_all)
    have "load (plat_mem p4) (IDT p4 + of_nat (16 * k)) 16 = load (plat_mem p3) (IDT p3 + of_nat (16 * k)) 16"
      unfolding p4f by (rule load_store_other) (use d in \<open>simp_all only: length_le_bytes, simp\<close>)
    then show ?thesis using idt_contents[OF that, of stub ?w] by (simp add: p3_def register_stubs_fields)
  qed
  have ist: "load (plat_mem p4) (TSS p4 + 36) 8 = le_bytes 8 (phys_to_virt base a + 16384)"
    unfolding p4f by (rule load_store) simp_all
  have sep: "disjoint_regions (GDT p1) 40 (TSS p1) 104" unfolding p1(4,5) by (rule pages_apart[OF g(1,2) t g(3)]) simp_all
  note tab = gdt_fill_one_core(2,4)[OF sep, of "plat_mem p", folded p1(6)]
  have gdt: "load (plat_mem p4) (GDT p4 + 8) 8 = le_bytes 8 (gdt_entry_new_code False) \<and>
      load (plat_mem p4) (GDT p4 + 24) 16 = gdt_entry_tss_bytes (tss_descriptor (TSS p4))"
    if "disjoint_regions (GDT p4) 40 (IDT p4) 0x10000"
  proof -
    have "disjoint_regions (GDT p2) 40 (TSS p2) 104" "disjoint_regions (GDT p2) 40 (phys_to_virt base c) 0x10000"
      using sep that by (simp_all add: p2 p3f p4f)
    note sv = gdt_survives[OF this _ length_le_bytes[of 8 "phys_to_virt base a + 16384"], where stub = stub and pm = pm, folded p3_def]
    show ?thesis using sv[of 8 8] sv[of 24 16] tab unfolding p4f p3f(2,3) by (simp add: p2(3,4) p2_def del: load.simps le_bytes_numeral)
  qed
  have "block_pages (unat (drop_bit 12 a)) 2 \<subseteq> ?A" using a(3) av by blast
  with init gates ist gdt p2(5-7) show ?thesis
    by (intro exI[of _ ?p5] exI[of _ a]) (simp add: p4f p3f del: le_bytes_numeral load.simps)
qed

end

end
