(* ===== verification/Platform_Log.thy ===== *)
theory Platform_Log
  imports Idt Paging Log_Sink
begin

text \<open>
  The messages of the platform code: with a working sink, the initializations of GDT, IDT and page table have the outcome
  of their references without messages.
\<close>

lemma gdt_entries_fit: "gdt_pages n = Inr k \<Longrightarrow> checked_add 3 n = Inr (3 + n)"
proof -
  assume "gdt_pages n = Inr k"
  then obtain a b where "checked_mul n 2 = Inr a" "checked_add 3 a = Inr b" by (auto simp: gdt_pages_def and_then_eq_Inr)
  then have "unat n * 2 < 2 ^ 64" "3 + unat n * 2 < 2 ^ 64"
    by (auto simp: checked_mul_def checked_add_def unat_mul_checked split: if_splits)
  then show ?thesis by (simp add: checked_add_def)
qed

context log_sink
begin

lemmas logged_steps = log_then[where P = "\<lambda>r. same_outcome ready r u" for u] same_outcome_pure same_outcome_bind

lemma gdt_init_outcome:
  assumes "ready t"
  shows "same_outcome ready (gdt_init emit base n p t) (gdt_setup base n p)"
  unfolding gdt_init_def gdt_setup_def Let_def
  using assms by (auto intro!: logged_steps simp: gdt_entries_fit)

lemma idt_init_outcome:
  assumes "ready t"
  shows "same_outcome ready (idt_init emit base stub p t) (idt_setup base stub p)"
  unfolding idt_init_def idt_setup_def Let_def
  using assms by (auto intro!: logged_steps)

lemma init_platform_outcome:
  assumes "ready t"
  shows "same_outcome ready (init_platform emit base stub p t) (platform_setup base stub p)"
  unfolding init_platform_def platform_setup_def
  using assms by (auto intro!: logged_steps gdt_init_outcome idt_init_outcome same_outcome_return)

lemma init_platform_after:
  assumes "and_then r (platform_setup base stub) = Inr p'" "ready t"
  shows "\<exists>t'. and_then r (\<lambda>p. init_platform emit base stub p t) = Inr (p', t') \<and> ready t'"
proof (cases r)
  case (Inr p)
  then show ?thesis using init_platform_outcome[OF assms(2), of base stub p] assms(1) by (auto dest: same_outcomeD)
qed (use assms(1) in simp)

lemma virt_manager_init_outcome:
  assumes "ready t"
  shows "same_outcome ready (virt_manager_init emit base pt t) (Inr (switch_tables base pt))"
  unfolding virt_manager_init_def switch_tables_def Let_def
  using assms by (auto intro!: logged_steps)

end

end
