(* ===== verification/Phys_Clients.thy ===== *)
theory Phys_Clients
  imports Phys_Init
begin

text \<open>
  Users of the allocator over time. A client holds a list of allocations; it may allocate, and it
  may free any allocation it holds, in any order. From a well-formed manager every reachable state
  keeps the allocations disjoint and loses no page, freeing never panics, and when everything has
  been given back the free blocks are exactly those of the start.
\<close>

section \<open>Merging stays inside what was free at the start\<close>

lemma merge_in_map_within:
  assumes "blocks_wf (64 * w) B0" "merged B0" "buddies_in_map w B0"
    and "k \<le> MAX_ORDER" "2 ^ k dvd i" "block_pages i k \<subseteq> free_pages_of B0" "free_pages_of B \<subseteq> free_pages_of B0"
  shows "merge_in_map w B i k"
  using assms
proof (induction w B i k rule: merge_in_map.induct)
  case (1 w B i k)
  have "merge_in_map w B i k" if k: "k < MAX_ORDER"
  proof -
    obtain j l where jl: "(j, l) \<in> B0" "k \<le> l" "block_pages i k \<subseteq> block_pages j l"
      using merged_complete[OF "1.prems"(1,2,4-6)] by blast
    note wf = blocks_wfD[OF "1.prems"(1) jl(1)]
    have bud: "buddy_of i k div 64 < w"
    proof (cases "l = k")
      case True
      then have "i = j" using aligned_nested_eq[of k i j] "1.prems"(5) wf(2) jl(3) block_pages_nonempty by blast
      with True jl(1) "1.prems"(3) k show ?thesis by (auto simp: buddies_in_map_def)
    next
      case False
      have "block_pages (parent_of i k) (Suc k) \<subseteq> block_pages j l"
      proof (rule aligned_nested)
        show "2 ^ Suc k dvd parent_of i k" using parent_aligned "1.prems"(5) by blast
        show "2 ^ l dvd j" by (rule wf(2))
        show "Suc k \<le> l" using False jl(2) by simp
        show "block_pages (parent_of i k) (Suc k) \<inter> block_pages j l \<noteq> {}"
          using parent_halves(1)[OF "1.prems"(5)] jl(3) block_pages_nonempty[of i k] by blast
      qed
      then have "buddy_of i k \<in> block_pages j l"
        using parent_halves(1)[OF "1.prems"(5)] block_pages_nonempty[of "buddy_of i k" k] by blast
      then have "buddy_of i k < 64 * w" using wf(3) by (simp add: block_pages_def)
      then show ?thesis by (simp add: less_mult_imp_div_less mult.commute)
    qed
    have "merge_in_map w (B - {(buddy_of i k, k)}) (parent_of i k) (Suc k)" if b: "(buddy_of i k, k) \<in> B"
    proof (rule "1.IH"[OF k b "1.prems"(1-3)])
      show "Suc k \<le> MAX_ORDER" using k by simp
      show "2 ^ Suc k dvd parent_of i k" using parent_aligned "1.prems"(5) by blast
      show "block_pages (parent_of i k) (Suc k) \<subseteq> free_pages_of B0"
        using parent_halves(1)[OF "1.prems"(5)] "1.prems"(6,7) block_in_free_pages[OF b] by blast
      show "free_pages_of (B - {(buddy_of i k, k)}) \<subseteq> free_pages_of B0"
        using "1.prems"(7) by (auto simp: free_pages_of_def)
    qed
    with bud show ?thesis by (subst merge_in_map.simps) simp
  qed
  then show ?case by (cases "k < MAX_ORDER") (auto simp: merge_in_map.simps[of w B i k])
qed

section \<open>Client traces\<close>

type_synonym allocation = "u64 \<times> u64"

fun pages_of :: "allocation \<Rightarrow> nat set" where
  "pages_of (a, count) = allocation_pages a count"

inductive client_step ::
    "storage \<Rightarrow> phys_manager \<times> allocation list \<Rightarrow> phys_manager \<times> allocation list \<Rightarrow> bool" for st where
  alloc: "alloc_linear_pages st count m = Inr (a, m') \<Longrightarrow> client_step st (m, own) (m', (a, count) # own)"
| free: "(a, count) \<in> set own \<Longrightarrow> free_linear_pages st a count m = Inr ((), m') \<Longrightarrow>
     client_step st (m, own) (m', remove1 (a, count) own)"

inductive client_run ::
    "storage \<Rightarrow> phys_manager \<Rightarrow> phys_manager \<times> allocation list \<Rightarrow> bool" for st m0 where
  start: "client_run st m0 (m0, [])"
| step: "client_run st m0 c \<Longrightarrow> client_step st c c' \<Longrightarrow> client_run st m0 c'"

definition good_allocation :: "allocation \<Rightarrow> bool" where
  "good_allocation x \<longleftrightarrow> (\<exists>k\<le>MAX_ORDER. get_size_order (snd x) = Inr k \<and> 2 ^ k dvd unat (drop_bit 12 (fst x)))"

definition client_inv :: "storage \<Rightarrow> nat \<Rightarrow> phys_manager \<Rightarrow> phys_manager \<times> allocation list \<Rightarrow> bool" where
  "client_inv st n m0 c \<longleftrightarrow>
     (let (m, own) = c in
      manager_inv st n m \<and> length (buddy_map (pm_state m)) = length (buddy_map (pm_state m0)) \<and>
      (\<forall>x\<in>set own. good_allocation x) \<and> pairwise_disjoint (map pages_of own) \<and>
      \<Union> (set (map pages_of own)) \<inter> available st m = {} \<and>
      \<Union> (set (map pages_of own)) \<union> available st m = available st m0)"

lemma pairwise_disjoint_remove1:
  assumes "pairwise_disjoint (map f xs)" "x \<in> set xs"
  shows "pairwise_disjoint (map f (remove1 x xs))" "f x \<inter> \<Union> (set (map f (remove1 x xs))) = {}"
    "\<Union> (set (map f xs)) = f x \<union> \<Union> (set (map f (remove1 x xs)))"
proof -
  show "pairwise_disjoint (map f (remove1 x xs))"
    using assms(1) by (induction xs) (auto dest: notin_set_remove1)
  show "f x \<inter> \<Union> (set (map f (remove1 x xs))) = {}"
    using assms by (induction xs) (auto dest: notin_set_remove1)
  show "\<Union> (set (map f xs)) = f x \<union> \<Union> (set (map f (remove1 x xs)))"
    using assms(2) by (induction xs) auto
qed

lemma give_back:
  assumes "Q = F \<union> P" "F \<inter> P = {}" "Q \<inter> A = {}" "Q \<union> A = A0"
  shows "P \<inter> (A \<union> F) = {} \<and> P \<union> (A \<union> F) = A0"
  using assms by auto

lemma give_back_unique:
  assumes "Q = F \<union> P" "F \<inter> P = {}" "Q \<inter> A = {}" "Q \<union> A = A0" "P \<inter> A' = {}" "P \<union> A' = A0"
  shows "A' = A \<union> F"
  using assms by auto

context phys_storage
begin

text \<open>An allocation inside the pages that were free at the start can be freed.\<close>

lemma free_owned:
  assumes inv0: "manager_inv st n m0" and c: "client_inv st n m0 (m, own)" and x: "(a, count) \<in> set own"
  shows "\<exists>m'. free_linear_pages st a count m = Inr ((), m') \<and> client_inv st n m0 (m', remove1 (a, count) own)"
proof -
  let ?w = "length (buddy_map (pm_state m0))" and ?i = "unat (drop_bit 12 a)" and ?P = "\<Union> (set (map pages_of (remove1 (a, count) own)))"
  have inv: "manager_inv st n m" and w: "length (buddy_map (pm_state m)) = ?w"
    and good: "\<forall>x\<in>set own. good_allocation x" and disj: "pairwise_disjoint (map pages_of own)"
    and sep: "\<Union> (set (map pages_of own)) \<inter> available st m = {}"
    and all: "\<Union> (set (map pages_of own)) \<union> available st m = available st m0"
    using c by (auto simp: client_inv_def)
  obtain k where k: "k \<le> MAX_ORDER" "get_size_order count = Inr k" "2 ^ k dvd ?i"
    using good x by (auto simp: good_allocation_def)
  have pages: "pages_of (a, count) = block_pages ?i k" by (simp add: allocation_pages_def k(2))
  note rem = pairwise_disjoint_remove1[OF disj x]
  note p0 = phys_invD[OF manager_invD(2)[OF inv0]] and lock = manager_invD(1)[OF inv] and pinv = manager_invD(2)[OF inv]
  have sub: "block_pages ?i k \<subseteq> available st m0" using all rem(3) pages by blast
  have "?i + 2 ^ k - 1 \<in> block_pages ?i k" 
    unfolding block_pages_def atLeastLessThan_iff using zero_less_power[of "2::nat" k] by linarith
  then have "?i + 2 ^ k - 1 < 64 * ?w"
    using sub free_pages_of_bound[OF p0(1)] by (auto simp: available_def free_page_set_def)
  then have range: "?i + 2 ^ k \<le> 64 * length (buddy_map (pm_state m))" using w by simp
  have "merge_in_map ?w (free_blocks st (pm_state m)) ?i k"
    using merge_in_map_within[OF p0(1,2,4) k(1,3)] sub all by (auto simp: available_def free_page_set_def)
  moreover have "block_pages ?i k \<inter> free_page_set st (pm_state m) = {}"
    using sep rem(3) pages by (auto simp: available_def)
  ultimately obtain s' where s': "free_block st (pm_state m) (drop_bit 12 a) k = Inr s'" "phys_inv st n s'"
      "free_page_set st s' = free_page_set st (pm_state m) \<union> block_pages ?i k" "length (buddy_map s') = ?w"
    using free_block_correct[OF pinv k(1,3) range] w by metis
  let ?m = "m\<lparr>pm_state := s'\<rparr>"
  have run: "free_linear_pages st a count m = Inr ((), ?m)"
    using s'(1) by (simp add: free_linear_pages_def guarded_free[OF lock] k(2) ret_unit_def)
  have av: "available st ?m = available st m \<union> pages_of (a, count)"
    using s'(3) pages by (simp add: available_def)
  have "?P \<inter> available st ?m = {}" "?P \<union> available st ?m = available st m0"
    using give_back[OF rem(3,2) sep all] unfolding av by blast+
  moreover have "\<forall>x\<in>set (remove1 (a, count) own). good_allocation x"
    using good set_remove1_subset by fast
  ultimately have "client_inv st n m0 (?m, remove1 (a, count) own)"
    unfolding client_inv_def Let_def split_conv using manager_inv_update[OF inv s'(2)] s'(4) rem(1)
    by (intro conjI) simp_all
  with run show ?thesis by blast
qed

lemma alloc_client:
  assumes c: "client_inv st n m0 (m, own)" and res: "alloc_linear_pages st count m = Inr (a, m')"
  shows "client_inv st n m0 (m', (a, count) # own)"
proof -
  have inv: "manager_inv st n m" using c by (simp add: client_inv_def)
  obtain k i s' where k: "get_size_order count = Inr k" "k \<le> MAX_ORDER"
    and al: "alloc_block st (pm_state m) k = Inr (i, s')" and a: "a = push_bit 12 i" and m': "m' = m\<lparr>pm_state := s'\<rparr>"
    using alloc_linear_pagesE[OF inv res] by metis
  note b = alloc_block_correct[OF manager_invD(2)[OF inv] k(2) al]
  have "drop_bit 12 a = i" using block_address(1)[OF manager_invD(2)[OF inv] b(5)] a by simp
  then have "good_allocation (a, count)" using k b(4) by (auto simp: good_allocation_def)
  moreover note alloc_linear_pages_correct[OF inv res]
  moreover have "length (buddy_map (pm_state m')) = length (buddy_map (pm_state m))" using b(3) m' by simp
  ultimately show ?thesis using c by (auto simp: client_inv_def)
qed

lemma client_run_inv:
  assumes inv0: "manager_inv st n m0" and run: "client_run st m0 c"
  shows "client_inv st n m0 c"
  using run
proof (induction rule: client_run.induct)
  case start
  then show ?case using inv0 by (simp add: client_inv_def)
next
  case (step c c')
  obtain m own where c: "c = (m, own)" by (cases c)
  from step.hyps(2)[unfolded c] show ?case
  proof cases
    case (alloc count a m')
    then show ?thesis using alloc_client step.IH c by blast
  next
    case (free a count m')
    then show ?thesis using free_owned[OF inv0 step.IH[unfolded c] free(2)] by auto
  qed
qed

text \<open>When every allocation is given back, the free blocks are exactly those of the start.\<close>

lemma client_run_returned:
  assumes inv0: "manager_inv st n m0" and run: "client_run st m0 (m, [])"
  shows "free_blocks st (pm_state m) = free_blocks st (pm_state m0)"
proof -
  have c: "client_inv st n m0 (m, [])" by (rule client_run_inv[OF assms])
  then have inv: "manager_inv st n m" and av: "available st m = available st m0" by (simp_all add: client_inv_def)
  note p = phys_invD[OF manager_invD(2)[OF inv]] and p0 = phys_invD[OF manager_invD(2)[OF inv0]]
  show ?thesis
    using merged_canonical[OF p(1,2) p0(1,2)] av by (simp add: available_def free_page_set_def)
qed

end

end
