(* ===== verification/Phys_Properties.thy ===== *)
theory Phys_Properties
  imports Phys_Clients Phys_Log Terminal_Properties
begin

text \<open>
  The properties of the physical memory manager, stated for every storage backend that satisfies
  the trait's contract (\<open>phys_storage\<close>) and, for initialization, for the kernel's backend. The
  witnesses run on the unit tests' backend with its buffer at \<^verbatim>\<open>0x10000000\<close>, and on a memory map
  of one free segment of 256 pages.
\<close>

section \<open>A concrete machine\<close>

definition demo_heap :: heap where
  "demo_heap = (\<lambda>_. \<lparr>fe_order = 0, fe_next = 0, fe_prev = 0\<rparr>)"

definition demo_map :: "memory_segment list" where
  "demo_map = [\<lparr>seg_start = 0, seg_page_count = 256, seg_state = Free\<rparr>]"

lemma demo_map_facts:
  "Max (segment_limit ` set demo_map) = 1048576" "bitmap_words demo_map = 4" "bitmap_pages demo_map = 1"
  "segment_pages (hd demo_map) = {0..<256}" "free_segments demo_map = demo_map"
  by (simp_all add: demo_map_def segment_limit_def bitmap_words_def bitmap_pages_def segment_pages_def
      free_segments_def)

lemma demo_covered: "\<forall>e\<in>set (free_segments demo_map). \<forall>p\<in>segment_pages e. covered 4 p"
  by (simp add: demo_map_facts) (simp add: demo_map_def segment_pages_def covered_def)

lemma demo_machine:
  "\<exists>m. manager_new (test_storage 0x10000000) demo_heap demo_map = Inr (m, demo_map) \<and>
       manager_inv (test_storage 0x10000000) (2 ^ 20) m \<and> available (test_storage 0x10000000) m = {0..<256}"
proof -
  have "\<exists>m. manager_new (test_storage 0x10000000) demo_heap demo_map = Inr (m, demo_map) \<and>
      manager_inv (test_storage 0x10000000) (2 ^ 20) m \<and>
      available (test_storage 0x10000000) m = \<Union> (segment_pages ` set (free_segments demo_map))"
  proof (rule test_backend.manager_new_correct[where w = 4])
    show "\<forall>e\<in>set demo_map. segment_limit e < 2 ^ 64" "demo_map \<noteq> []" "64 * 4 \<le> (2::nat) ^ 20"
      by (simp_all add: demo_map_def segment_limit_def)
    show "pairwise_disjoint (map segment_pages (free_segments demo_map))"
      "\<forall>e\<in>set (free_segments demo_map). unat (seg_start e) div 4096 + unat (seg_page_count e) \<le> 64 * 4"
      by (simp_all add: demo_map_facts) (simp_all add: demo_map_def)
    show "\<forall>e\<in>set (free_segments demo_map). \<forall>p\<in>segment_pages e. covered 4 p" by (rule demo_covered)
    fix a :: u64 assume "unat a = Max (segment_limit ` set demo_map)"
    then have "unat a = unat (1048576 :: u64)" by (simp add: demo_map_facts)
    then have "a = 1048576" by (simp only: unat_eq_unat)
    then show "storage_new (test_storage 0x10000000) (drop_bit 12 a) demo_map = Inr (replicate 4 0, demo_map)"
      by (simp add: test_storage_def) code_simp
  qed
  then show ?thesis by (simp add: demo_map_facts) (simp add: demo_map_def segment_pages_def)
qed

lemma demo_allocation:
  "\<exists>m0 a m. manager_new (test_storage 0x10000000) demo_heap demo_map = Inr (m0, demo_map) \<and>
     manager_inv (test_storage 0x10000000) (2 ^ 20) m0 \<and> available (test_storage 0x10000000) m0 = {0..<256} \<and>
     alloc_linear_pages (test_storage 0x10000000) 3 m0 = Inr (a, m) \<and>
     client_run (test_storage 0x10000000) m0 (m, [(a, 3)])"
proof -
  let ?st = "test_storage 0x10000000"
  obtain m0 where m0: "manager_new ?st demo_heap demo_map = Inr (m0, demo_map)"
      "manager_inv ?st (2 ^ 20) m0" "available ?st m0 = {0..<256}" using demo_machine by blast
  have "2 ^ 2 dvd (0::nat) \<and> block_pages 0 2 \<subseteq> available ?st m0" using m0(3) by (auto simp: block_pages_def)
  moreover have "get_size_order 3 = Inr 2" by code_simp
  ultimately obtain a m where a: "alloc_linear_pages ?st 3 m0 = Inr (a, m)"
    using test_backend.alloc_linear_pages_succeeds[OF m0(2), of 3 2] unfolding MAX_ORDER_def by auto
  have "client_run ?st m0 (m, [(a, 3)])"
    using client_run.step[OF client_run.start client_step.alloc[OF a]] .
  with m0 a show ?thesis by blast
qed

section \<open>Blocks\<close>



text \<open>
  The panic in \<open>free_block\<close>. The look-up of the buddy's bit happens before it is known that the
  buddy exists; when some buddy on the way up lies beyond the bitmap, the call panics with an
  index out of bounds.
\<close>

lemma free_block_panics_beyond_bitmap:
  assumes "phys_storage st n" "phys_inv st n s" "k \<le> MAX_ORDER"
    and "\<not> merge_in_map (length (buddy_map s)) (free_blocks st s) (unat i) k"
  shows "free_block st s i k = Inl IndexOutOfBounds"
  by (rule phys_storage.free_block_out_of_bitmap[OF assms])

lemma free_block_panics_beyond_bitmap_example:
  "free_block (test_storage 0x10000000) (empty_state 1 demo_heap) 0 6 = Inl IndexOutOfBounds"
proof -
  have st: "phys_storage (test_storage 0x10000000) (2 ^ 20)" by unfold_locales
  have w: "64 * 1 \<le> (2::nat) ^ 20" by simp
  note e = empty_state_ok[OF w, where st = "test_storage 0x10000000" and h = demo_heap]
  have "\<not> merge_in_map 1 {} 0 6" by (subst merge_in_map.simps) (simp add: MAX_ORDER_def buddy_of_def)
  then show ?thesis
    using free_block_panics_beyond_bitmap[OF st e(1), of 6 0] e by (simp add: MAX_ORDER_def)
qed

text \<open>
  C7: Allocating a block. \<open>alloc_block\<close> succeeds exactly when an aligned run of the requested size is
  free; otherwise it panics with ``Out of physical memory''. The block it returns is aligned and
  was free, and exactly its pages stop being free.
\<close>

theorem alloc_block_sound_complete:
  assumes "phys_storage st n" "phys_inv st n s" "k \<le> MAX_ORDER"
  shows "if \<exists>i. 2 ^ k dvd i \<and> block_pages i k \<subseteq> free_page_set st s
         then \<exists>i s'. alloc_block st s k = Inr (i, s') \<and> phys_inv st n s' \<and> 2 ^ k dvd unat i \<and>
                block_pages (unat i) k \<subseteq> free_page_set st s \<and>
                free_page_set st s' = free_page_set st s - block_pages (unat i) k
         else alloc_block st s k = Inl (Message ''Out of physical memory'')"
proof (cases "\<exists>i. 2 ^ k dvd i \<and> block_pages i k \<subseteq> free_page_set st s")
  case True
  then obtain i s' where "alloc_block st s k = Inr (i, s')"
    using phys_storage.alloc_block_succeeds_iff(1)[OF assms] by blast
  with phys_storage.alloc_block_correct[OF assms] True show ?thesis by auto
next
  case False
  then show ?thesis using phys_storage.alloc_block_succeeds_iff(2)[OF assms] by simp
qed

theorem alloc_block_sound_complete_witness:
  "alloc_block (test_storage 0x10000000) (empty_state 4 demo_heap) 0 = Inl (Message ''Out of physical memory'') \<and>
   (\<exists>m i s'. manager_new (test_storage 0x10000000) demo_heap demo_map = Inr (m, demo_map) \<and>
      alloc_block (test_storage 0x10000000) (pm_state m) 3 = Inr (i, s'))"
proof
  have st: "phys_storage (test_storage 0x10000000) (2 ^ 20)" by unfold_locales
  have w: "64 * 4 \<le> (2::nat) ^ 20" by simp
  note e = empty_state_ok[OF w, where st = "test_storage 0x10000000" and h = demo_heap]
  show "alloc_block (test_storage 0x10000000) (empty_state 4 demo_heap) 0 = Inl (Message ''Out of physical memory'')"
    using alloc_block_sound_complete[OF st e(1), of 0] e(2) by (simp add: free_page_set_def block_pages_def)
  obtain m where m: "manager_new (test_storage 0x10000000) demo_heap demo_map = Inr (m, demo_map)"
      "manager_inv (test_storage 0x10000000) (2 ^ 20) m" "available (test_storage 0x10000000) m = {0..<256}"
    using demo_machine by blast
  have "2 ^ 3 dvd (0::nat) \<and> block_pages 0 3 \<subseteq> free_page_set (test_storage 0x10000000) (pm_state m)"
    using m(3) by (auto simp: available_def block_pages_def)
  then have "\<exists>i. 2 ^ 3 dvd i \<and> block_pages i 3 \<subseteq> free_page_set (test_storage 0x10000000) (pm_state m)" by blast
  then have "\<exists>i s'. alloc_block (test_storage 0x10000000) (pm_state m) 3 = Inr (i, s')"
    using alloc_block_sound_complete[OF st manager_invD(2)[OF m(2)], of 3] by (auto simp: MAX_ORDER_def)
  with m(1) show "\<exists>m i s'. manager_new (test_storage 0x10000000) demo_heap demo_map = Inr (m, demo_map) \<and>
      alloc_block (test_storage 0x10000000) (pm_state m) 3 = Inr (i, s')" by blast
qed

section \<open>Sizes and regions\<close>

text \<open>
  C13: \<open>get_size_order\<close> returns the least order whose block holds \<open>count\<close> pages: the block is large
  enough and less than twice as large. A count of zero overflows.
\<close>

theorem get_size_order_least:
  "(count = 0 \<longrightarrow> get_size_order count = Inl Overflow) \<and>
   (count \<noteq> 0 \<longrightarrow> (\<exists>k. get_size_order count = Inr k \<and> unat count \<le> 2 ^ k \<and> (\<forall>j. unat count \<le> 2 ^ j \<longrightarrow> k \<le> j)))"
proof (intro conjI impI)
  show "count = 0 \<Longrightarrow> get_size_order count = Inl Overflow" by (simp add: get_size_order_zero)
  assume "count \<noteq> 0"
  then obtain k where k: "get_size_order count = Inr k" "unat count \<le> 2 ^ k" "2 ^ k < 2 * unat count"
    by (rule get_size_order_correct)
  have "k \<le> j" if "unat count \<le> 2 ^ j" for j
  proof -
    have "(2::nat) ^ k < 2 ^ Suc j" using k(3) that by simp
    then have "k < Suc j" by (rule power_less_imp_less_exp[rotated]) simp
    then show ?thesis by simp
  qed
  with k(1,2) show "\<exists>k. get_size_order count = Inr k \<and> unat count \<le> 2 ^ k \<and> (\<forall>j. unat count \<le> 2 ^ j \<longrightarrow> k \<le> j)"
    by (intro exI[of _ k]) simp
qed

theorem get_size_order_least_witness:
  "get_size_order 0 = Inl Overflow \<and>
   (\<exists>k. get_size_order 13 = Inr k \<and> (13::nat) \<le> 2 ^ k \<and> (\<forall>j. (13::nat) \<le> 2 ^ j \<longrightarrow> k \<le> j))"
  using get_size_order_least[of 0] get_size_order_least[of 13] by simp

text \<open>
  C10: \<open>add_region\<close> on a region of any position and length none of whose pages is free: it terminates, and either
  exactly the pages of the region become available, or it panics with an index out of bounds, the latter only when the
  bitmap does not cover the superblock of some page of the region.
\<close>

theorem add_region_frees_region:
  assumes "phys_storage st n" and "manager_inv st n m" "length (buddy_map (pm_state m)) = w"
    and "unat index + unat count \<le> 64 * w"
    and "{unat index..<unat index + unat count} \<inter> available st m = {}"
  shows "add_region st index count m = Inl IndexOutOfBounds \<and> (\<exists>p\<in>{unat index..<unat index + unat count}. \<not> covered w p) \<or>
    (\<exists>m'. add_region st index count m = Inr ((), m') \<and> manager_inv st n m' \<and>
           available st m' = available st m \<union> {unat index..<unat index + unat count})"
  using phys_storage.add_region_outcome[OF assms] by blast

theorem add_region_frees_region_witness:
  "\<exists>m'. add_region (test_storage 0x10000000) 68 100 \<lparr>pm_lock = spin_new, pm_state = empty_state 4 demo_heap\<rparr> = Inr ((), m') \<and>
     available (test_storage 0x10000000) m' = {68..<168}"
proof -
  let ?st = "test_storage 0x10000000" and ?m = "\<lparr>pm_lock = spin_new, pm_state = empty_state 4 demo_heap\<rparr>"
  have st: "phys_storage ?st (2 ^ 20)" by unfold_locales
  have w: "64 * 4 \<le> (2::nat) ^ 20" by simp
  note e = empty_state_ok[OF w, where st = ?st and h = demo_heap]
  have m: "manager_inv ?st (2 ^ 20) ?m" "available ?st ?m = {}" "length (buddy_map (pm_state ?m)) = 4"
    using e by (simp_all add: manager_inv_def spin_new_def available_def free_page_set_def)
  show ?thesis
    using add_region_frees_region[OF st m(1,3), of 68 100] m(2) by (auto simp: covered_def)
qed

section \<open>Clients\<close>

text \<open>
  C5: Safety of every client. From a well-formed manager, after any sequence of allocations and
  frees of held allocations, in any order, the held allocations are pairwise disjoint, none of
  their pages is available, and no page is lost: held and available pages together are the pages
  available at the start.
\<close>

theorem client_safety:
  assumes "phys_storage st n" "manager_inv st n m0" "client_run st m0 (m, own)"
  shows "pairwise_disjoint (map pages_of own) \<and> \<Union> (set (map pages_of own)) \<inter> available st m = {} \<and>
         \<Union> (set (map pages_of own)) \<union> available st m = available st m0"
  using phys_storage.client_run_inv[OF assms] by (simp add: client_inv_def)

theorem client_safety_witness:
  "\<exists>m0 a m. manager_new (test_storage 0x10000000) demo_heap demo_map = Inr (m0, demo_map) \<and>
     client_run (test_storage 0x10000000) m0 (m, [(a, 3)]) \<and>
     allocation_pages a 3 \<inter> available (test_storage 0x10000000) m = {} \<and>
     allocation_pages a 3 \<union> available (test_storage 0x10000000) m = {0..<256}"
proof -
  obtain m0 a m where m: "manager_new (test_storage 0x10000000) demo_heap demo_map = Inr (m0, demo_map)"
      "manager_inv (test_storage 0x10000000) (2 ^ 20) m0" "available (test_storage 0x10000000) m0 = {0..<256}"
      "client_run (test_storage 0x10000000) m0 (m, [(a, 3)])"
    using demo_allocation by blast
  show ?thesis using client_safety[OF test_backend.phys_storage_axioms m(2,4)] m by auto
qed

text \<open>
  C9: Freeing never panics. In every state a client can reach, freeing any held allocation returns
  normally, with the pages of the allocation available again, whatever the order of the calls.
\<close>

theorem client_free_never_panics:
  assumes "phys_storage st n" "manager_inv st n m0" "client_run st m0 (m, own)" "(a, count) \<in> set own"
  shows "\<exists>m'. free_linear_pages st a count m = Inr ((), m') \<and> client_run st m0 (m', remove1 (a, count) own) \<and>
           available st m' = available st m \<union> allocation_pages a count"
proof -
  note inv = phys_storage.client_run_inv[OF assms(1-3)]
  obtain m' where m': "free_linear_pages st a count m = Inr ((), m')"
      "client_inv st n m0 (m', remove1 (a, count) own)"
    using phys_storage.free_owned[OF assms(1,2) inv assms(4)] by blast
  have disj: "pairwise_disjoint (map pages_of own)" using inv by (simp add: client_inv_def)
  note rem = pairwise_disjoint_remove1[OF disj assms(4)]
  have "client_run st m0 (m', remove1 (a, count) own)"
    using client_run.step[OF assms(3) client_step.free[OF assms(4) m'(1)]] .
  moreover have "available st m' = available st m \<union> pages_of (a, count)"
    by (rule give_back_unique[OF rem(3,2)]) (use inv m'(2) in \<open>simp_all add: client_inv_def\<close>)
  ultimately show ?thesis using m'(1) by simp
qed

theorem client_free_never_panics_witness:
  "\<exists>m0 a m m'. manager_new (test_storage 0x10000000) demo_heap demo_map = Inr (m0, demo_map) \<and>
     alloc_linear_pages (test_storage 0x10000000) 3 m0 = Inr (a, m) \<and>
     free_linear_pages (test_storage 0x10000000) a 3 m = Inr ((), m')"
proof -
  obtain m0 a m where m: "manager_new (test_storage 0x10000000) demo_heap demo_map = Inr (m0, demo_map)"
      "manager_inv (test_storage 0x10000000) (2 ^ 20) m0"
      "alloc_linear_pages (test_storage 0x10000000) 3 m0 = Inr (a, m)" "client_run (test_storage 0x10000000) m0 (m, [(a, 3)])"
    using demo_allocation by blast
  from client_free_never_panics[OF test_backend.phys_storage_axioms m(2,4), of a 3] m show ?thesis by auto
qed

text \<open>
  C8: Nothing is left behind. When a client has given back everything it allocated, whatever the
  order of its calls, the set of free blocks is the one it started from: all splits are undone.
\<close>

theorem client_returns_everything:
  assumes "phys_storage st n" "manager_inv st n m0" "client_run st m0 (m, [])"
  shows "free_blocks st (pm_state m) = free_blocks st (pm_state m0)"
  by (rule phys_storage.client_run_returned[OF assms])

theorem client_returns_everything_witness:
  "\<exists>m0 a m m'. alloc_linear_pages (test_storage 0x10000000) 3 m0 = Inr (a, m) \<and>
     free_linear_pages (test_storage 0x10000000) a 3 m = Inr ((), m') \<and>
     free_blocks (test_storage 0x10000000) (pm_state m') = free_blocks (test_storage 0x10000000) (pm_state m0)"
proof -
  let ?st = "test_storage 0x10000000"
  note st = test_backend.phys_storage_axioms
  obtain m0 a m where m: "manager_inv ?st (2 ^ 20) m0"
      "alloc_linear_pages ?st 3 m0 = Inr (a, m)" "client_run ?st m0 (m, [(a, 3)])"
    using demo_allocation by blast
  obtain m' where m': "free_linear_pages ?st a 3 m = Inr ((), m')"
    using test_backend.alloc_free_linear_pages[OF m(1,2)] by blast
  have run: "client_run ?st m0 (m', [])"
    using client_run.step[OF m(3) client_step.free[OF _ m', of "[(a, 3)]"]] by simp
  show ?thesis using client_returns_everything[OF st m(1) run] m(2) m' by blast
qed



text \<open>
  C37: The methods for single pages and for slices of pages are the linear ones. On a manager whose lock is free, \<open>alloc_page\<close> and
  \<open>free_page\<close> do what \<open>alloc_linear_pages\<close> and \<open>free_linear_pages\<close> do for one page, and \<open>alloc_pages\<close> and \<open>free_pages\<close>
  do what the same calls one after the other do, errors included. What is proved of clients of the linear methods
  therefore holds for all of them.
\<close>

theorem page_methods_are_linear:
  assumes "phys_storage st n" "\<not> locked (pm_lock m)"
  shows "alloc_page st m = alloc_linear_pages st 1 m \<and> free_page st a m = free_linear_pages st a 1 m \<and>
    alloc_pages st len m = alloc_seq (alloc_linear_pages st) (replicate len 1) m \<and>
    free_pages st as m = and_then (for_each as (\<lambda>a m. and_then (free_linear_pages st a 1 m) (\<lambda>(_, m'). Inr m')) m) (\<lambda>m'. Inr ((), m'))"
  by (intro conjI phys_storage.alloc_page_linear[OF assms] phys_storage.free_page_linear[OF assms]
    phys_storage.alloc_pages_seq[OF assms] phys_storage.free_pages_seq[OF assms])

theorem page_methods_are_linear_witness:
  "alloc_pages (test_storage 0x10000000) 2 \<lparr>pm_lock = spin_new, pm_state = empty_state 4 demo_heap\<rparr> =
     Inl (Message ''Out of physical memory'')"
proof -
  let ?st = "test_storage 0x10000000" and ?m = "\<lparr>pm_lock = spin_new, pm_state = empty_state 4 demo_heap\<rparr>"
  have "alloc_linear_pages ?st 1 ?m = Inl (Message ''Out of physical memory'')" by code_simp
  with page_methods_are_linear[OF test_backend.phys_storage_axioms, of ?m _ 2] show ?thesis
    by (simp add: spin_new_def numeral_2_eq_2)
qed

section \<open>Initialization\<close>

text \<open>
  C11: Initialization with the kernel's backend, printing its messages on a working terminal, for every memory map.
  An empty map, a segment whose end does not fit into 64 bits, and a map without a free segment that can hold the bitmap each
  end in the corresponding panic. Otherwise, for a base address of
  the form the bootloader computes and a memory map inside the window and below 8 TiB whose free segments are disjoint,
  \<open>new\<close> either returns normally, with a well-formed manager, or panics with an index out of bounds,
  and the latter only when the 256-page superblock of some free page leaves the bitmap. When it returns, exactly the pages of the
  free segments are available, less those of the bitmap, which come from the front of the first free segment
  that is large enough, and the terminal is usable.
\<close>

theorem kernel_init_exact:
  fixes t :: terminal
  assumes "address_window base m" "18 \<le> m" "font_ok font" "white_terminal t"
  defines "run \<equiv> \<lambda>h mmap. phys_manager_new (terminal_log font) (inline_storage base) h mmap t"
  shows "if mmap = [] then run h mmap = Inl (Message ''Memory Map is empty'')
    else if \<exists>e\<in>set mmap. 2 ^ 64 \<le> segment_limit e then run h mmap = Inl Overflow
    else case find (holds_bitmap (bitmap_pages mmap)) mmap of
      None \<Rightarrow> run h mmap = Inl (Message ''No suitable memory location found for buddy map'')
    | Some e \<Rightarrow>
        (\<forall>e\<in>set mmap. segment_limit e \<le> 2 ^ m) \<and> pairwise_disjoint (map segment_pages (free_segments mmap)) \<and> countable_memory mmap \<longrightarrow>
        run h mmap = Inl IndexOutOfBounds \<and> (\<exists>e\<in>set (free_segments mmap). uncovered (bitmap_words mmap) e) \<or>
        (\<exists>M mmap' t'. run h mmap = Inr (M, mmap', t') \<and> white_terminal t' \<and> manager_inv (inline_storage base) (2 ^ (m - 12)) M \<and>
           available (inline_storage base) M = \<Union> (segment_pages ` set (free_segments mmap)) -
             {unat (seg_start e) div 4096..<unat (seg_start e) div 4096 + bitmap_pages mmap})"
proof -
  note sink = terminal_is_sink[OF assms(3)] assms(4)
  consider "mmap = []" | "\<exists>e\<in>set mmap. 2 ^ 64 \<le> segment_limit e"
    | "mmap \<noteq> []" "\<forall>e\<in>set mmap. segment_limit e < 2 ^ 64" by fastforce
  then show ?thesis
  proof cases
    case 1
    then show ?thesis using log_sink.new_empty_map[OF sink] by (simp add: run_def)
  next
    case 2
    then show ?thesis using log_sink.new_overflow[OF sink] by (auto simp: run_def)
  next
    case 3
    then have fits: "\<not> (\<exists>e\<in>set mmap. 2 ^ 64 \<le> segment_limit e)" by auto
    show ?thesis
    proof (cases "find (holds_bitmap (bitmap_pages mmap)) mmap")
      case None
      then show ?thesis using 3 fits manager_new_no_storage[OF 3 None, of base h]
        log_sink.phys_manager_new_outcome[OF sink storage_limits(1)[OF 3(2)], of base h] by (simp add: run_def)
    next
      case (Some e)
      then show ?thesis using 3 fits address_window.kernel_init_logged[OF assms(1) sink assms(2) _ Some, of h] by (simp add: run_def)
    qed
  qed
qed

lemma demo_map_usable:
  "\<forall>e\<in>set demo_map. segment_limit e \<le> 2 ^ 39" "find (holds_bitmap (bitmap_pages demo_map)) demo_map = Some (hd demo_map)"
  "pairwise_disjoint (map segment_pages (free_segments demo_map))" "countable_memory demo_map"
  "\<not> (\<exists>e\<in>set (free_segments demo_map). uncovered (bitmap_words demo_map) e)"
  using demo_covered unfolding countable_memory_def uncovered_def demo_map_facts
  by (simp_all add: demo_map_def segment_limit_def holds_bitmap_def)

lemma demo_map_available:
  "\<Union> (segment_pages ` set (free_segments demo_map)) -
     {unat (seg_start (hd demo_map)) div 4096..<unat (seg_start (hd demo_map)) div 4096 + bitmap_pages demo_map} = {1..<256}"
  unfolding demo_map_facts by (auto simp: demo_map_def segment_pages_def)

theorem kernel_init_exact_witness:
  "\<exists>M mmap' t'. phys_manager_new (terminal_log demo_font) (inline_storage 0xFFFFFF8000000000) demo_heap demo_map demo_terminal =
       Inr (M, mmap', t') \<and> white_terminal t' \<and>
     available (inline_storage 0xFFFFFF8000000000) M = {1..<256}"
proof -
  have "demo_map \<noteq> []" "\<not> (\<exists>e\<in>set demo_map. 2 ^ 64 \<le> segment_limit e)" by (simp_all add: demo_map_def segment_limit_def)
  with kernel_init_exact[OF win512.address_window_axioms _ demo_font_ok demo_terminal_white, of demo_map demo_heap] demo_map_usable
  show ?thesis unfolding demo_map_available[symmetric] by auto
qed

text \<open>
  A memory map whose end is not a multiple of the superblock size can make initialization
  panic: with one free segment of 64 pages at address 0, the order-6 block's buddy is page 64,
  whose word is not in the bitmap. The same map with one page fewer initializes.
\<close>

lemma init_panics_on_64_pages:
  "manager_new (test_storage 0x10000000) demo_heap [\<lparr>seg_start = 0, seg_page_count = 64, seg_state = Free\<rparr>] =
     Inl IndexOutOfBounds \<and>
   (\<exists>r. manager_new (test_storage 0x10000000) demo_heap [\<lparr>seg_start = 0, seg_page_count = 63, seg_state = Free\<rparr>] = Inr r)"
proof
  show "manager_new (test_storage 0x10000000) demo_heap [\<lparr>seg_start = 0, seg_page_count = 64, seg_state = Free\<rparr>] =
      Inl IndexOutOfBounds" by code_simp
  have "isl (manager_new (test_storage 0x10000000) demo_heap [\<lparr>seg_start = 0, seg_page_count = 63, seg_state = Free\<rparr>]) = False"
    by code_simp
  then show "\<exists>r. manager_new (test_storage 0x10000000) demo_heap [\<lparr>seg_start = 0, seg_page_count = 63, seg_state = Free\<rparr>] = Inr r"
    by (metis isl_def sum.exhaust)
qed

end
