(* ===== verification/Platform_Properties.thy ===== *)
theory Platform_Properties
  imports Platform_Boot Platform_Log Phys_Properties
begin

text \<open>
  The properties of the platform code: the descriptor tables that GDT and IDT initialization leave in
  memory, read back the way the processor reads them.
\<close>

section \<open>The Global Descriptor Table\<close>


definition demo_cpu :: cpu where
  "demo_cpu = \<lparr>gdtr = (0, 0), idtr = (0, 0), cs = 56, ds = 48, es = 48, ss = 48, tr = 0, cr3 = 0\<rparr>"



text \<open>
  C39: The GDT on two cores is wrong. The descriptor of core 1 is written one slot after that of core
  0 although each takes two slots: it overwrites the upper half of core 0's, whose base is then
  no longer the TSS, and the slot that core 1 selects holds an upper half, which the processor
  reads as a descriptor that is not present.
\<close>

theorem gdt_two_cores_overlap:
  assumes "disjoint_regions g 48 t 104"
  shows "load (gdt_fill g t 2 m) (g + 24) 16 =
           take 8 (gdt_entry_tss_bytes (tss_descriptor t)) @ take 8 (gdt_entry_tss_bytes (tss_descriptor (t + 104))) \<and>
         descriptor_type (load (gdt_fill g t 2 m) (g + 40) 8) = 0"
  using gdt_fill_two_cores[OF assms, of m]
  by (simp add: descriptor_type_def) (simp add: gdt_entry_tss_bytes_def tss_descriptor_def)

theorem gdt_two_cores_overlap_witness:
  "descriptor_base (load (gdt_fill 0xFFFFFF8000001000 0xFFFFFF8000002000 2 (\<lambda>_. 0)) (0xFFFFFF8000001000 + 24) 16)
     = 0x2068006700002000"
proof -
  have "disjoint_regions (0xFFFFFF8000001000 + of_nat 0) 48 (0xFFFFFF8000001000 + of_nat 4096) 104"
    by (rule disjoint_offsets) simp_all
  then have "disjoint_regions 0xFFFFFF8000001000 48 0xFFFFFF8000002000 104" by simp
  from gdt_two_cores_overlap[OF this, of "\<lambda>_. 0"] show ?thesis
    by (simp add: gdt_entry_tss_bytes_def tss_descriptor_def descriptor_base_def SIZE_TSS_def)
qed

section \<open>The Interrupt Descriptor Table\<close>




definition sparse_map :: "memory_segment list" where
  "sparse_map = map (\<lambda>i. \<lparr>seg_start = 4096 * i, seg_page_count = 1, seg_state = Free\<rparr>) [0, 7, 5, 3]"

definition sparse_manager :: "phys_manager res" where
  "sparse_manager =
     and_then (manager_new (inline_storage 0xFFFFFF8000000000) demo_heap sparse_map) (\<lambda>(m, _). Inr m)"

definition three_pages :: "u64 list res" where
  "three_pages =
     and_then sparse_manager (\<lambda>m.
     and_then (alloc_pages (inline_storage 0xFFFFFF8000000000) 3 m) (\<lambda>(as, _). Inr as))"

definition two_pages_after_idt :: "(nat \<Rightarrow> u64) \<Rightarrow> u64 list res" where
  "two_pages_after_idt stub =
     and_then sparse_manager (\<lambda>m.
     and_then (idt_setup 0xFFFFFF8000000000 stub
        \<lparr>plat_pm = m, plat_mem = (\<lambda>_. 0), TSS = 0, GDT = 0, IDT = 0, plat_cpu = demo_cpu\<rparr>) (\<lambda>p.
     and_then (alloc_pages (inline_storage 0xFFFFFF8000000000) 2 (plat_pm p)) (\<lambda>(as, _). Inr as)))"

definition wipe_words :: "u64 \<Rightarrow> u64 \<Rightarrow> phys_manager \<Rightarrow> phys_manager" where
  "wipe_words a n pm =
     pm\<lparr>pm_state := (pm_state pm)\<lparr>heap := (\<lambda>x. if x - a < n then \<lparr>fe_order = 0, fe_next = 0, fe_prev = 0\<rparr>
        else heap (pm_state pm) x)\<rparr>\<rparr>"

lemma wipe_table: "wipe_manager a (4096 * unat SIZE_IDT_ENTRY) pm = wipe_words a 0x10000 pm"
  by (simp add: wipe_manager_def wipe_words_def Let_def word_less_nat_alt SIZE_IDT_ENTRY_def)

text \<open>
  The cleared pages lose memory. On a machine whose free pages are 3, 5 and 7 (and page 0 for the
  bitmap), three single pages can be allocated after initialization of the manager; but after
  the initialization of the IDT, which takes the first, only one more can: the list entry of the next
  page has been zeroed and with it the link to the last, so the second request panics with
  ``Out of physical memory'' although a page is free.
\<close>

lemma idt_init_loses_memory:
  "three_pages = Inr [0x3000, 0x5000, 0x7000] \<and>
   two_pages_after_idt stub = Inl (Message ''Out of physical memory'')"
proof
  show "three_pages = Inr [0x3000, 0x5000, 0x7000]" by code_simp
  have "two_pages_after_idt stub =
      and_then sparse_manager (\<lambda>m.
      and_then (alloc_page (inline_storage 0xFFFFFF8000000000) m) (\<lambda>(a, pm).
      and_then (alloc_pages (inline_storage 0xFFFFFF8000000000) 2
          (wipe_words (phys_to_virt 0xFFFFFF8000000000 a) 0x10000 pm)) (\<lambda>(as, _). Inr as)))"
    by (simp add: two_pages_after_idt_def idt_setup_def and_then_assoc Let_def register_stubs_fields wipe_def
        wipe_table case_prod_unfold cong: and_then_cong)
  also have "\<dots> = Inl (Message ''Out of physical memory'')" by code_simp
  finally show "two_pages_after_idt stub = Inl (Message ''Out of physical memory'')" .
qed






end
