(* ===== verification/Interrupt_Correct.thy ===== *)
theory Interrupt_Correct
  imports Interrupt_Stubs Terminal_Properties
begin

text \<open>
  Correctness of the interrupt stubs: the structure that a handler receives describes the
  interrupted machine, and returning from the interrupt loads exactly what the handler left in it.
\<close>

section \<open>The stack\<close>

definition pushed :: "u64 \<Rightarrow> u64 list \<Rightarrow> (u64 \<Rightarrow> u64) \<Rightarrow> u64 \<Rightarrow> u64" where
  "pushed tos vs mem x =
     (let d = unat (tos - x) in
      if d mod 8 = 0 \<and> 0 < d \<and> d \<le> 8 * length vs then vs ! (d div 8 - 1) else mem x)"

lemma fold_push_word:
  assumes "length vs < 2 ^ 60"
  shows "fold push_word vs m =
    m\<lparr>m_rsp := m_rsp m - of_nat (8 * length vs), memory := pushed (m_rsp m) vs (memory m)\<rparr>"
  using assms
proof (induction vs rule: rev_induct)
  case Nil
  have "pushed (m_rsp m) [] (memory m) = memory m" by (auto simp: pushed_def Let_def fun_eq_iff)
  then show ?case by simp
next
  case (snoc v vs)
  let ?T = "m_rsp m" and ?n = "8 * length vs"
  let ?a = "?T - of_nat ?n - 8"
  have a: "?T - ?a = of_nat (?n + 8)" by simp
  have small: "unat (of_nat (?n + 8) :: u64) = ?n + 8" using snoc.prems by (intro unat_of_nat_small) simp
  have "(pushed ?T vs (memory m))(?a := v) = pushed ?T (vs @ [v]) (memory m)"
  proof
    fix x
    let ?d = "unat (?T - x)"
    have xa: "x = ?a \<longleftrightarrow> ?d = ?n + 8"
    proof
      assume "x = ?a"
      then show "?d = ?n + 8" by (simp only: a small)
    next
      assume "?d = ?n + 8"
      then have "?T - x = of_nat (?n + 8)" using small by (metis unat_eq_unat)
      then have "?T - x = ?T - ?a" by (simp only: a)
      then show "x = ?a" by (simp only: diff_left_imp_eq)
    qed
    show "((pushed ?T vs (memory m))(?a := v)) x = pushed ?T (vs @ [v]) (memory m) x"
    proof (cases "?d = ?n + 8")
      case True
      then have "?d div 8 - 1 = length vs" "?d mod 8 = 0" by simp_all
      with True xa show ?thesis by (simp add: pushed_def Let_def)
    next
      case False
      have "?d \<le> ?n" "?d div 8 - 1 < length vs" if d: "0 < ?d" "?d \<le> ?n + 8" "?d mod 8 = 0"
      proof -
        obtain q where q: "?d = 8 * q" using d(3) by (auto simp: mod_eq_0_iff_dvd dvd_def)
        with d False show "?d \<le> ?n" by simp
        with q d(1) show "?d div 8 - 1 < length vs" by simp
      qed
      with False xa show ?thesis by (auto simp: pushed_def Let_def nth_append)
    qed
  qed
  with snoc show ?case by (simp add: push_word_def algebra_simps)
qed

lemma exec_append: "exec hs env (is @ js) c = and_then (exec hs env is c) (exec hs env js)"
  by (induction "is" arbitrary: c) (simp_all add: and_then_assoc cong: and_then_cong)

lemma regs_push_word [simp]: "regs (push_word v m) = regs m"
  by (simp add: push_word_def)

lemma exec_pushes: "exec hs env (map Push rs) (m, t) = Inr (fold push_word (map (regs m) rs) m, t)"
  by (induction rs arbitrary: m) simp_all

lemma slots [simp]:
  "info_words i ! 0 = i_r15 i" "info_words i ! Suc 0 = i_r14 i" "info_words i ! 2 = i_r13 i" "info_words i ! 3 = i_r12 i"
  "info_words i ! 4 = i_r11 i" "info_words i ! 5 = i_r10 i" "info_words i ! 6 = i_r9 i" "info_words i ! 7 = i_r8 i"
  "info_words i ! 8 = i_rbp i" "info_words i ! 9 = i_rdi i" "info_words i ! 10 = i_rsi i" "info_words i ! 11 = i_rdx i"
  "info_words i ! 12 = i_rcx i" "info_words i ! 13 = i_rbx i" "info_words i ! 14 = i_rax i"
  "info_words i ! 17 = i_rip i" "info_words i ! 18 = i_cs i" "info_words i ! 19 = i_rflags i"
  "info_words i ! 20 = i_rsp i" "info_words i ! 21 = i_ss i"
  by (simp_all add: info_words_def)

lemma write_info_slot:
  assumes "k < 22"
  shows "write_info mem a i (a + of_nat (8 * k)) = info_words i ! k"
proof -
  have "unat (of_nat (8 * k) :: u64) = 8 * k" using assms by (intro unat_of_nat_small) simp
  then show ?thesis using assms by (simp add: write_info_def Let_def)
qed

lemma write_info_slots [simp]:
  "write_info mem a i a = i_r15 i" "write_info mem a i (a + 8) = i_r14 i" "write_info mem a i (a + 16) = i_r13 i"
  "write_info mem a i (a + 24) = i_r12 i" "write_info mem a i (a + 32) = i_r11 i" "write_info mem a i (a + 40) = i_r10 i"
  "write_info mem a i (a + 48) = i_r9 i" "write_info mem a i (a + 56) = i_r8 i" "write_info mem a i (a + 64) = i_rbp i"
  "write_info mem a i (a + 72) = i_rdi i" "write_info mem a i (a + 80) = i_rsi i" "write_info mem a i (a + 88) = i_rdx i"
  "write_info mem a i (a + 96) = i_rcx i" "write_info mem a i (a + 104) = i_rbx i" "write_info mem a i (a + 112) = i_rax i"
  "write_info mem a i (a + 136) = i_rip i" "write_info mem a i (a + 144) = i_cs i" "write_info mem a i (a + 152) = i_rflags i"
  "write_info mem a i (a + 160) = i_rsp i" "write_info mem a i (a + 168) = i_ss i"
  by (simp_all add: write_info_def Let_def)

lemma write_info_slots' [simp]:
  "write_info mem a i (8 + a) = i_r14 i" "write_info mem a i (16 + a) = i_r13 i"
  "write_info mem a i (24 + a) = i_r12 i" "write_info mem a i (32 + a) = i_r11 i" "write_info mem a i (40 + a) = i_r10 i"
  "write_info mem a i (48 + a) = i_r9 i" "write_info mem a i (56 + a) = i_r8 i" "write_info mem a i (64 + a) = i_rbp i"
  "write_info mem a i (72 + a) = i_rdi i" "write_info mem a i (80 + a) = i_rsi i" "write_info mem a i (88 + a) = i_rdx i"
  "write_info mem a i (96 + a) = i_rcx i" "write_info mem a i (104 + a) = i_rbx i" "write_info mem a i (112 + a) = i_rax i"
  "write_info mem a i (136 + a) = i_rip i" "write_info mem a i (144 + a) = i_cs i" "write_info mem a i (152 + a) = i_rflags i"
  "write_info mem a i (160 + a) = i_rsp i" "write_info mem a i (168 + a) = i_ss i"
  by (simp_all add: write_info_def Let_def)

section \<open>The parts of a stub\<close>

definition save_regs :: "instr list" where
  "save_regs = map Push [RAX, RBX, RCX, RDX, RSI, RDI, RBP, R8, R9, R10, R11, R12, R13, R14, R15]"

definition restore_regs :: "instr list" where
  "restore_regs = map Pop [R15, R14, R13, R12, R11, R10, R9, R8, RBP, RDI, RSI, RDX, RCX, RBX, RAX]"

lemma isr_common_stub_split:
  "isr_common_stub = save_regs @ [MovRdiRsp, SubRsp 8, CallCommonHandler, AddRsp 8] @ restore_regs @ [AddRsp 16, Iretq]"
  by (simp add: isr_common_stub_def save_regs_def restore_regs_def)

text \<open>The words on the interrupt stack when the registers have been saved, in the order of pushing.\<close>

definition frame :: "machine \<Rightarrow> u64 \<Rightarrow> u64 \<Rightarrow> u64 list" where
  "frame m n e = [m_ss m, m_rsp m, m_rflags m, m_cs m, m_rip m, e, n] @
     map (regs m) [RAX, RBX, RCX, RDX, RSI, RDI, RBP, R8, R9, R10, R11, R12, R13, R14, R15]"

lemma length_frame [simp]: "length (frame m n e) = 22"
  by (simp add: frame_def)

definition info_of :: "machine \<Rightarrow> u64 \<Rightarrow> u64 \<Rightarrow> interrupt_info" where
  "info_of m n e = \<lparr>i_r15 = regs m R15, i_r14 = regs m R14, i_r13 = regs m R13, i_r12 = regs m R12,
     i_r11 = regs m R11, i_r10 = regs m R10, i_r9 = regs m R9, i_r8 = regs m R8, i_rbp = regs m RBP,
     i_rdi = regs m RDI, i_rsi = regs m RSI, i_rdx = regs m RDX, i_rcx = regs m RCX, i_rbx = regs m RBX,
     i_rax = regs m RAX, i_int_number = n, i_error_code = e, i_rip = m_rip m, i_cs = m_cs m,
     i_rflags = m_rflags m, i_rsp = m_rsp m, i_ss = m_ss m\<rparr>"

lemma regs_fold_push [simp]: "regs (fold push_word vs m) = regs m"
  by (induction vs arbitrary: m) simp_all

lemma exec_entry:
  "exec hs env (isr_stub d @ save_regs) (deliver ist (if isr_has_error d then Some e else None) m, t) =
     Inr (fold push_word (frame m (of_nat (isr_number d)) (if isr_has_error d then e else 0)) (m\<lparr>m_rsp := ist AND NOT 15\<rparr>), t)"
  by (cases d) (simp_all add: exec_append exec_pushes save_regs_def deliver_def frame_def)

lemma read_frame:
  "read_info (pushed T (frame m n e) mem) (T - 176) = info_of m n e"
  by (simp add: read_info_def info_of_def pushed_def Let_def frame_def)

text \<open>The machine that a return from an interrupt with this structure gives.\<close>

definition resume :: "interrupt_info \<Rightarrow> machine \<Rightarrow> bool" where
  "resume i m \<longleftrightarrow> info_of m (i_int_number i) (i_error_code i) = i"

lemma exec_exit:
  "\<exists>m'. exec hs env (restore_regs @ [AddRsp 16, Iretq]) (m\<lparr>m_rsp := a, memory := write_info mem a i\<rparr>, t) = Inr (m', t) \<and>
     resume i m' \<and> memory m' = write_info mem a i"
  by (simp add: restore_regs_def resume_def info_of_def)

section \<open>Whole interrupts\<close>

lemma isr_number_small: "d \<in> set isrs \<Longrightarrow> isr_number d < 256"
proof -
  assume "d \<in> set isrs"
  then have "isr_number d \<in> set (map isr_number isrs)" by simp
  then show ?thesis unfolding isr_tables(1) by simp
qed

text \<open>The machine just before the call of the common handler.\<close>

definition at_call :: "isr_decl \<Rightarrow> u64 \<Rightarrow> u64 \<Rightarrow> machine \<Rightarrow> machine" where
  "at_call d ist e m =
     (let T = ist AND NOT 15 in
      m\<lparr>regs := (regs m)(RDI := T - 176), m_rsp := T - 184,
        memory := pushed T (frame m (of_nat (isr_number d)) (if isr_has_error d then e else 0)) (memory m)\<rparr>)"

lemma exec_to_call:
  "exec hs env (isr_stub d @ save_regs @ [MovRdiRsp, SubRsp 8])
      (deliver ist (if isr_has_error d then Some e else None) m, t) = Inr (at_call d ist e m, t)"
proof -
  let ?F = "frame m (of_nat (isr_number d)) (if isr_has_error d then e else 0)" and ?m = "m\<lparr>m_rsp := ist AND NOT 15\<rparr>"
  have "exec hs env ((isr_stub d @ save_regs) @ [MovRdiRsp, SubRsp 8])
      (deliver ist (if isr_has_error d then Some e else None) m, t) =
      exec hs env [MovRdiRsp, SubRsp 8] (fold push_word ?F ?m, t)"
    unfolding exec_append[of hs env "isr_stub d @ save_regs"] exec_entry and_then_Inr ..
  also have "fold push_word ?F ?m = ?m\<lparr>m_rsp := (ist AND NOT 15) - 176, memory := pushed (ist AND NOT 15) ?F (memory m)\<rparr>"
    by (subst fold_push_word) simp_all
  finally show ?thesis by (simp add: at_call_def Let_def)
qed

lemma interrupt_runs:
  fixes e :: u64 and m :: machine
  assumes n: "isr_number d < length hs" "isr_number d < 256"
  defines "i \<equiv> info_of m (of_nat (isr_number d)) (if isr_has_error d then e else 0)"
  shows "case (hs ! isr_number d) i t of
      Inl x \<Rightarrow> interrupt hs env d ist e (m, t) = Inl x
    | Inr (i', t') \<Rightarrow> \<exists>m'. interrupt hs env d ist e (m, t) = Inr (m', t') \<and> resume i' m'"
proof -
  let ?a = "(ist AND NOT 15) - 176"
  let ?call = "and_then ((hs ! isr_number d) i t) (\<lambda>(i', t').
    Inr (((at_call d ist e m)\<lparr>regs := fst env\<rparr>)\<lparr>m_rsp := ?a, memory := write_info (snd env) ?a i'\<rparr>, t'))"
  have num: "unat (of_nat (isr_number d) :: u64) = isr_number d" using n(2) by (intro unat_of_nat_small) simp
  have split: "isr_stub d @ isr_common_stub =
      (isr_stub d @ save_regs @ [MovRdiRsp, SubRsp 8]) @ [CallCommonHandler, AddRsp 8] @ (restore_regs @ [AddRsp 16, Iretq])"
    by (simp add: isr_common_stub_split)
  have "call_common hs env (at_call d ist e m, t) = and_then ((hs ! isr_number d) i t) (\<lambda>(i', t').
      Inr ((at_call d ist e m)\<lparr>regs := fst env, memory := write_info (snd env) ?a i'\<rparr>, t'))"
    using n(1) num by (simp add: call_common_def at_call_def Let_def read_frame isr_common_handler_def i_def)
      (simp add: info_of_def)
  then have "exec hs env [CallCommonHandler, AddRsp 8] (at_call d ist e m, t) = ?call"
    by (cases "(hs ! isr_number d) i t") (auto simp: at_call_def Let_def)
  then have run: "interrupt hs env d ist e (m, t) = and_then ?call (exec hs env (restore_regs @ [AddRsp 16, Iretq]))"
    unfolding interrupt_def split case_prod_conv exec_append[of _ _ "isr_stub d @ save_regs @ [MovRdiRsp, SubRsp 8]"]
      exec_append[of _ _ "[CallCommonHandler, AddRsp 8]"] exec_to_call and_then_Inr by (simp only:)
  show ?thesis
  proof (cases "(hs ! isr_number d) i t")
    case (Inl x)
    then show ?thesis by (simp add: run)
  next
    case (Inr r)
    then obtain i' t' where r: "(hs ! isr_number d) i t = Inr (i', t')" by (cases r) auto
    show ?thesis unfolding run r by (simp only: and_then_Inr case_prod_conv sum.case) (metis exec_exit)
  qed
qed

lemma aligned_minus_184: "((ist :: u64) AND NOT 15) - 184 AND 15 = 8"
proof -
  have "ist AND NOT (mask 4) = push_bit 4 (drop_bit 4 ist)"
    by (rule bit_word_eqI) (auto simp: bit_push_bit_iff bit_drop_bit_eq bit_and_iff bit_not_iff bit_mask_iff)
  then have eq: "(ist AND NOT 15) - 184 = push_bit 4 (drop_bit 4 ist - 12) + 8"
    by (simp add: push_bit_eq_mult algebra_simps mask_eq_exp_minus_1)
  have low: "push_bit 4 x AND mask 4 = 0" for x :: u64
    by (rule bit_word_eqI) (auto simp: bit_and_iff bit_push_bit_iff bit_mask_iff)
  have "push_bit 4 x AND 2 ^ 3 = 0" for x :: u64
    by (rule bit_word_eqI) (simp only: bit_and_iff bit_push_bit_iff bit_exp_iff bit_0_eq bot_apply, simp)
  from this[of "drop_bit 4 ist - 12"]
  have "push_bit 4 (drop_bit 4 ist - 12) + 8 = push_bit 4 (drop_bit 4 ist - 12) OR 8"
    by (intro disjunctive_add_eq_or) simp
  then have "((ist AND NOT 15) - 184) AND mask 4 = 8 AND mask 4"
    unfolding eq by (simp only: bit.conj_disj_distrib2 low or.left_neutral)
  then show ?thesis by (simp add: mask_eq_exp_minus_1)
qed

section \<open>Properties\<close>


text \<open>
  Registration never panics, keeps a table of 256 handlers, and the handler called for a vector is the one registered last
  for it, at first the default handler.
\<close>

definition handler_for :: "'t logger \<Rightarrow> (u8 \<times> 't handler) list \<Rightarrow> nat \<Rightarrow> 't handler" where
  "handler_for emit registered v =
     (case find (\<lambda>(index, h). unat index = v) (rev registered) of None \<Rightarrow> isr_default_handler emit | Some (_, h) \<Rightarrow> h)"

lemma handler_for_snoc:
  "handler_for emit (rs @ [(index, h)]) v = (if unat index = v then h else handler_for emit rs v)"
  by (simp add: handler_for_def)

lemma registered_handlers:
  "\<exists>hs. for_each rs (\<lambda>(index, h) hs. set_isr_handler hs index h) (HANDLERS emit) = Inr hs \<and> length hs = 256 \<and>
     (\<forall>v<256. hs ! v = handler_for emit rs v)"
proof (rule for_each_invariant[where P = "\<lambda>zs hs. length hs = 256 \<and> (\<forall>v<256. hs ! v = handler_for emit zs v)"])
  show "length (HANDLERS emit) = 256 \<and> (\<forall>v<256. HANDLERS emit ! v = handler_for emit [] v)"
    by (simp add: HANDLERS_def handler_for_def)
next
  fix zs x ys hs assume "rs = zs @ x # ys" and P: "length hs = 256 \<and> (\<forall>v<256. hs ! v = handler_for emit zs v)"
  obtain index h where x: "x = (index :: u8, h)" by (cases x)
  have "unat index < 256" using unsigned_less[where 'a = nat and w = index] by simp
  then show "\<exists>t'. (case x of (index, h) \<Rightarrow> \<lambda>hs. set_isr_handler hs index h) hs = Inr t' \<and>
      length t' = 256 \<and> (\<forall>v<256. t' ! v = handler_for emit (zs @ [x]) v)"
    using P by (auto simp: x set_isr_handler_def handler_for_snoc nth_list_update)
qed

text \<open>
  C19: The life of an interrupt. Whatever handlers were registered, registration did not panic, and for every stub and every machine,
  the handler registered last for the vector (or the default handler) is called with a structure that describes the interrupted machine
  (registers, vector, error code, instruction pointer, flags, stack). Whatever it does to registers
  and memory outside its argument, execution resumes with exactly the state it left there if it returns; if it
  panics or hangs, so does the interrupt.
\<close>

theorem interrupt_round_trip:
  assumes "d \<in> set isrs"
  shows "\<exists>hs. for_each rs (\<lambda>(index, h) hs. set_isr_handler hs index h) (HANDLERS emit) = Inr hs \<and>
    (case handler_for emit rs (isr_number d) (info_of m (of_nat (isr_number d)) (if isr_has_error d then e else 0)) t of
      Inl x \<Rightarrow> interrupt hs env d ist e (m, t) = Inl x
    | Inr (i', t') \<Rightarrow> \<exists>m'. interrupt hs env d ist e (m, t) = Inr (m', t') \<and> resume i' m')"
proof -
  obtain hs where hs: "for_each rs (\<lambda>(index, h) hs. set_isr_handler hs index h) (HANDLERS emit) = Inr hs" "length hs = 256"
      "\<forall>v<256. hs ! v = handler_for emit rs v" using registered_handlers[of rs emit] by blast
  have "isr_number d < 256" by (rule isr_number_small[OF assms])
  with interrupt_runs[where d = d and hs = hs and m = m and e = e and t = t and env = env and ist = ist] hs show ?thesis by simp
qed

definition demo_machine_state :: machine where
  "demo_machine_state = \<lparr>regs = (\<lambda>_. 5), m_rsp = 0x7000, memory = (\<lambda>_. 0), m_rip = 0x400000, m_cs = 19,
     m_rflags = 0x202, m_ss = 0\<rparr>"

lemma page_fault_stub: "IsrError 14 14 \<in> set isrs"
proof -
  have "IsrError 14 14 \<in> set (filter isr_has_error isrs)" unfolding isr_tables(4) by simp
  then show ?thesis by simp
qed

text \<open>A handler that skips the faulting instruction and counts the interrupts.\<close>

theorem interrupt_round_trip_witness:
  "\<exists>hs m'. set_isr_handler (HANDLERS (\<lambda>_ _ _. Inr)) 14 (\<lambda>i t. Inr (i\<lparr>i_rip := i_rip i + 2\<rparr>, t + 1)) = Inr hs \<and>
     interrupt hs (\<lambda>_. 77, \<lambda>_. 78) (IsrError 14 14) 0x9000 6 (demo_machine_state, 0 :: nat) = Inr (m', 1) \<and>
     m_rip m' = 0x400002 \<and> regs m' RBX = 5"
proof -
  let ?h = "\<lambda>i t. Inr (i\<lparr>i_rip := i_rip i + 2\<rparr>, t + 1)"
  from interrupt_round_trip[OF page_fault_stub, where rs = "[(14, ?h)]" and emit = "\<lambda>_ _ _. Inr"
      and m = demo_machine_state and e = 6 and t = "0 :: nat" and env = "(\<lambda>_. 77, \<lambda>_. 78)" and ist = "0x9000"]
  show ?thesis by (auto simp: handler_for_def resume_def info_of_def demo_machine_state_def sum_simps)
qed



text \<open>
  The stack alignment at the call. For every stub the stack pointer is 8 modulo 16 when the
  common stub executes its call, so the handler is entered with a stack pointer that is a multiple
  of 16. The System V ABI asks for a multiple of 16 before the call, which the comment in the stub
  means to establish: without the instruction \<^verbatim>\<open>sub rsp, 8\<close> the alignment would be right.
\<close>

theorem stack_misaligned_at_call:
  "exec hs env (isr_stub d @ save_regs @ [MovRdiRsp, SubRsp 8])
      (deliver ist (if isr_has_error d then Some e else None) m, t) = Inr (at_call d ist e m, t) \<and>
   m_rsp (at_call d ist e m) AND 15 = 8"
proof
  show "exec hs env (isr_stub d @ save_regs @ [MovRdiRsp, SubRsp 8])
      (deliver ist (if isr_has_error d then Some e else None) m, t) = Inr (at_call d ist e m, t)"
    by (rule exec_to_call)
  show "m_rsp (at_call d ist e m) AND 15 = 8"
    using aligned_minus_184[of ist] by (simp add: at_call_def Let_def)
qed

end
