(* ===== verification/Paging_Correct.thy ===== *)
theory Paging_Correct
  imports Paging
begin

text \<open>
  Correctness of the page table: building it never panics, every write stays inside the allocated
  pages, and the processor's walk maps every physical address, and its mirror in the higher half, to
  itself. The sizes are natural numbers here: with \<open>S\<close> bytes of physical memory there are
  \<open>num4 S\<close>, \<open>num3 S\<close> and \<open>num2 S\<close> entries of the three levels.
\<close>

section \<open>Sizes\<close>

definition num4 :: "nat \<Rightarrow> nat" where "num4 S = S div 2 ^ 39 + 1"
definition num3 :: "nat \<Rightarrow> nat" where "num3 S = S div 2 ^ 30 + 1"
definition num2 :: "nat \<Rightarrow> nat" where "num2 S = S div 2 ^ 21 + 1"

lemma num_bounds:
  assumes "S < 2 ^ 47"
  shows "num4 S \<le> 256" "num3 S \<le> 2 ^ 17" "num2 S \<le> 2 ^ 26"
  using assms by (simp_all add: num4_def num3_def num2_def)

lemma num_nesting: "(num3 S + 511) div 512 = num4 S" "(num2 S + 511) div 512 = num3 S"
  by (simp_all add: num4_def num3_def num2_def div_mult2_eq[symmetric] add.assoc)

lemma num_nested_le: "num3 S \<le> 512 * num4 S" "num2 S \<le> 512 * num3 S"
  using num_nesting[of S] by linarith+

lemma entries_of_correct:
  assumes "unat s < 2 ^ 47"
  shows "\<exists>w. entries_of s k = Inr w \<and> unat w = unat s div 2 ^ k + 1"
proof -
  have "unat s div 2 ^ k \<le> unat s" by (rule div_le_dividend)
  then have "unat s div 2 ^ k < 2 ^ 47" using assms by linarith
  then have "unat (drop_bit k s) + unat (1::u64) < 2 ^ LENGTH(64)" by (simp add: unat_drop_bit)
  from unat_add_checked[OF this] this show ?thesis by (simp add: entries_of_def checked_add_def unat_drop_bit)
qed

lemma pages_for_correct:
  assumes "unat w \<le> 2 ^ 26"
  shows "\<exists>v. pages_for w = Inr v \<and> unat v = (unat w + 511) div 512"
proof -
  have m: "unat w * unat (8::u64) < 2 ^ LENGTH(64)" using assms by simp
  have a: "unat (w * 8) + unat (4095::u64) < 2 ^ LENGTH(64)" using unat_mul_checked[OF m] assms by simp
  have "checked_mul w 8 = Inr (w * 8)" "checked_add (w * 8) 4095 = Inr (w * 8 + 4095)"
    using m a by (simp_all only: checked_mul_def checked_add_def if_True)
  moreover have "unat ((w * 8 + 4095) div 4096) = (unat w + 511) div 512"
  proof -
    have "unat ((w * 8 + 4095) div 4096) = (unat w * 8 + 4095) div 4096"
      using unat_add_checked[OF a] unat_mul_checked[OF m] by (simp add: unat_div)
    also have "\<dots> = (unat w * 8 + 4095) div 8 div 512" by (simp add: div_mult2_eq[symmetric])
    also have "(unat w * 8 + 4095) div 8 = unat w + 511" by simp
    finally show ?thesis .
  qed
  ultimately show ?thesis by (simp only: pages_for_def and_then_Inr) blast
qed

section \<open>Entries\<close>

lemma addr_bits:
  fixes w :: u64
  assumes "unat w < 2 ^ 52" "2 ^ r dvd unat w" "bit w k"
  shows "r \<le> k" "k < 52"
proof -
  have b: "bit (unat w) k" using assms(3) by (simp add: bit_unsigned_iff)
  show "k < 52" by (rule bit_less[OF assms(1,3)])
  have "take_bit r (unat w) = 0" using assms(2) by (simp add: take_bit_eq_0_iff)
  with b show "r \<le> k" by (metis bit_0_eq bit_take_bit_iff bot_apply bot_bool_def not_less)
qed

lemma mask_bits:
  "bit PML4_ADDR_MASK k \<longleftrightarrow> 12 \<le> k \<and> k < 52" "bit PDE_ADDR_MASK k \<longleftrightarrow> 21 \<le> k \<and> k < 52"
proof -
  have eq: "PML4_ADDR_MASK = mask 52 AND NOT (mask 12)" "PDE_ADDR_MASK = mask 52 AND NOT (mask 21)"
    by (simp_all add: PML4_ADDR_MASK_def PDE_ADDR_MASK_def mask_eq_exp_minus_1)
  show "bit PML4_ADDR_MASK k \<longleftrightarrow> 12 \<le> k \<and> k < 52" "bit PDE_ADDR_MASK k \<longleftrightarrow> 21 \<le> k \<and> k < 52"
    unfolding eq bit_and_iff bit_not_iff bit_mask_iff by auto
qed

lemma flag_bits:
  "bit PML4_ENTRY_BASE k \<longrightarrow> k < 2" "bit PDE_ENTRY_BASE k \<longrightarrow> k < 8" "PDPE_ENTRY_BASE = PML4_ENTRY_BASE"
  "PDPE_ADDR_MASK = PML4_ADDR_MASK" "bit PML4_ENTRY_BASE 0" "bit PDE_ENTRY_BASE 0"
proof -
  have eq: "PML4_ENTRY_BASE = mask 2" by (simp add: PML4_ENTRY_BASE_def PML_P_def PML_RW_def mask_eq_exp_minus_1)
  show "bit PML4_ENTRY_BASE k \<longrightarrow> k < 2" unfolding eq bit_mask_iff by simp
  have "take_bit 8 PDE_ENTRY_BASE = PDE_ENTRY_BASE" by (simp add: PDE_ENTRY_BASE_def PML_P_def PML_RW_def)
  then show "bit PDE_ENTRY_BASE k \<longrightarrow> k < 8" by (metis bit_take_bit_iff)
  show "PDPE_ENTRY_BASE = PML4_ENTRY_BASE" "PDPE_ADDR_MASK = PML4_ADDR_MASK" "bit PML4_ENTRY_BASE 0" "bit PDE_ENTRY_BASE 0"
    by (simp_all add: PDPE_ENTRY_BASE_def PML4_ENTRY_BASE_def PDE_ENTRY_BASE_def PDPE_ADDR_MASK_def PML4_ADDR_MASK_def
        PML_P_def PML_RW_def bit_or_iff)
qed

lemma and_P: "w AND PML_P = 0 \<longleftrightarrow> \<not> bit w 0" for w :: u64
  by (simp add: PML_P_def and_one_eq bit_0 even_iff_mod_2_eq_zero)

lemma table_entry:
  fixes w :: u64
  assumes "unat w < 2 ^ 52" "2 ^ 12 dvd unat w"
  shows "w AND PML4_ADDR_MASK = w" "(w OR PML4_ENTRY_BASE) AND PML4_ADDR_MASK = w" "(w OR PML4_ENTRY_BASE) AND PML_P \<noteq> 0"
proof -
  show "w AND PML4_ADDR_MASK = w" "(w OR PML4_ENTRY_BASE) AND PML4_ADDR_MASK = w"
    by (rule bit_word_eqI; use addr_bits[OF assms] flag_bits(1) mask_bits(1) in \<open>force simp: bit_and_iff bit_or_iff\<close>)+
  show "(w OR PML4_ENTRY_BASE) AND PML_P \<noteq> 0" by (simp only: and_P bit_or_iff flag_bits(5) simp_thms)
qed

lemma page_entry:
  fixes w :: u64
  assumes "unat w < 2 ^ 52" "2 ^ 21 dvd unat w"
  shows "w AND PDE_ADDR_MASK = w" "(w OR PDE_ENTRY_BASE) AND PDE_ADDR_MASK = w" "(w OR PDE_ENTRY_BASE) AND PML_P \<noteq> 0"
proof -
  show "w AND PDE_ADDR_MASK = w" "(w OR PDE_ENTRY_BASE) AND PDE_ADDR_MASK = w"
    by (rule bit_word_eqI; use addr_bits[OF assms] flag_bits(2) mask_bits(2) in \<open>force simp: bit_and_iff bit_or_iff\<close>)+
  show "(w OR PDE_ENTRY_BASE) AND PML_P \<noteq> 0" by (simp only: and_P bit_or_iff flag_bits(6) simp_thms)
qed

lemma table_addr_correct:
  assumes "4096 * (unat e + sum_list (map unat offs)) + unat ptr < 2 ^ 64"
  shows "table_addr e offs ptr = Inr (of_nat (4096 * (unat e + sum_list (map unat offs)) + unat ptr))"
proof -
  let ?f = "\<lambda>n acc. and_then acc (\<lambda>x. and_then (checked_mul n 4096) (checked_add x))"
  have mul: "checked_mul n 4096 = Inr (n * 4096)" "unat (n * 4096) = 4096 * unat n" if "4096 * unat n < 2 ^ 64" for n :: u64
  proof -
    have m: "unat n * unat (4096::u64) < 2 ^ LENGTH(64)" using that by simp
    then show "checked_mul n 4096 = Inr (n * 4096)" by (simp only: checked_mul_def if_True)
    show "unat (n * 4096) = 4096 * unat n" using unat_mul_checked[OF m] by simp
  qed
  have add: "checked_add a b = Inr (a + b)" "unat (a + b) = unat a + unat b" if "unat a + unat b < 2 ^ 64" for a b :: u64
    using that unat_add_checked[of a b] by (simp_all add: checked_add_def)
  have f: "\<exists>b. fold ?f offs (Inr a) = Inr b \<and> unat b = unat a + 4096 * sum_list (map unat offs)"
    if "unat a + 4096 * sum_list (map unat offs) < 2 ^ 64" for a
    using that
  proof (induction offs arbitrary: a)
    case (Cons n offs)
    then have m: "4096 * unat n < 2 ^ 64" and s: "unat a + unat (n * 4096) < 2 ^ 64" using mul(2)[of n] by simp_all
    have "unat (a + n * 4096) + 4096 * sum_list (map unat offs) < 2 ^ 64"
      using Cons.prems add(2)[OF s] mul(2)[OF m] by simp
    from Cons.IH[OF this] show ?case using mul[OF m] add[OF s] by auto
  qed simp
  have e: "4096 * unat e < 2 ^ 64" using assms by simp
  obtain b where b: "fold ?f offs (Inr (e * 4096)) = Inr b" "unat b = 4096 * (unat e + sum_list (map unat offs))"
    using f[of "e * 4096"] mul(2)[OF e] assms by auto
  have s: "unat b + unat ptr < 2 ^ 64" using b(2) assms by simp
  have "table_addr e offs ptr = Inr (b + ptr)" by (simp only: table_addr_def mul(1)[OF e] b(1) add(1)[OF s] and_then_Inr)
  moreover have "b + ptr = of_nat (unat (b + ptr))" by simp
  ultimately show ?thesis using add(2)[OF s] b(2) by (simp only:)
qed

section \<open>The three loops\<close>

definition E4 :: "nat \<Rightarrow> nat \<Rightarrow> u64" where
  "E4 ptr i = of_nat (4096 * (i + 1) + ptr) OR PML4_ENTRY_BASE"

definition E3 :: "nat \<Rightarrow> nat \<Rightarrow> nat \<Rightarrow> u64" where
  "E3 ptr n4 i = of_nat (4096 * (i + (1 + n4)) + ptr) OR PDPE_ENTRY_BASE"

definition E2 :: "nat \<Rightarrow> u64" where
  "E2 i = of_nat (2 ^ 21 * i) OR PDE_ENTRY_BASE"

lemma fill_pml4_correct:
  assumes n: "unat n4 \<le> 256" and p: "unat ptr mod 4096 = 0" "4096 * (1 + unat n4) + unat ptr \<le> 2 ^ 52" and len: "512 \<le> len"
  shows "fill_pml4 len 1 n4 ptr b =
    Inr (\<lambda>j. if j < unat n4 then E4 (unat ptr) j
             else if 512 - unat n4 \<le> j \<and> j < 512 then E4 (unat ptr) (j - (512 - unat n4)) else b j)"
proof -
  let ?n = "unat n4" and ?k = "512 - unat n4"
  let ?P = "\<lambda>i b'. b' = (\<lambda>j. if j < i then E4 (unat ptr) j
             else if ?k \<le> j \<and> j < ?k + i then E4 (unat ptr) (j - ?k) else b j)"
  have le: "n4 \<le> 512" using n by (simp add: word_le_nat_alt)
  have k: "checked_sub 512 n4 = Inr (512 - n4)" "unat (512 - n4) = ?k"
    using le by (simp_all add: checked_sub_def unat_sub_checked)
  have "\<exists>b'. fill_pml4 len 1 n4 ptr b = Inr b' \<and> ?P ?n b'"
    unfolding fill_pml4_def
  proof (rule for_range_invariant[where P = ?P])
    show "?P 0 b" by (auto simp: fun_eq_iff)
    fix i b' assume i: "i < ?n" and b': "?P i b'"
    have i64: "unat (of_nat i :: u64) = i" using i n by (intro unat_of_nat_small) simp
    have "4096 * (i + 1) + unat ptr < 2 ^ 52" using i p(2) by simp
    then have addr: "table_addr (of_nat i) [1] ptr = Inr (of_nat (4096 * (i + 1) + unat ptr))"
      "unat (of_nat (4096 * (i + 1) + unat ptr) :: u64) = 4096 * (i + 1) + unat ptr"
      using table_addr_correct[of "of_nat i" "[1]" ptr] i64 by (simp, intro unat_of_nat_small) simp
    have "2 ^ 12 dvd 4096 * (i + 1) + unat ptr" using p(1) by (simp add: mod_eq_0_iff_dvd)
    then have g: "(of_nat (4096 * (i + 1) + unat ptr) :: u64) AND PML4_ADDR_MASK = of_nat (4096 * (i + 1) + unat ptr)"
      using table_entry(1) addr(2) \<open>4096 * (i + 1) + unat ptr < 2 ^ 52\<close> by presburger
    have "(b'(i := E4 (unat ptr) i))(?k + i := E4 (unat ptr) i) =
        (\<lambda>j. if j < Suc i then E4 (unat ptr) j else if ?k \<le> j \<and> j < ?k + Suc i then E4 (unat ptr) (j - ?k) else b j)"
      unfolding b' using i n by (auto simp: fun_eq_iff less_Suc_eq)
    moreover have "i < len" "?k + i < len" using i n len by simp_all
    ultimately show "\<exists>b''. and_then (table_addr (of_nat i) [1] ptr) (\<lambda>entry_addr.
        and_then (guard (entry_addr AND PML4_ADDR_MASK = entry_addr) (Message ''PML4 Address field misaligned'')) (\<lambda>_.
        let entry = entry_addr OR PML4_ENTRY_BASE in
        and_then (buf_set len i entry b') (\<lambda>b1. and_then (checked_sub 512 n4) (\<lambda>k. buf_set len (unat k + i) entry b1)))) = Inr b'' \<and>
        ?P (Suc i) b''"
      by (simp only: addr(1) and_then_Inr g guard_simps simp_thms Let_def buf_set_def if_True k E4_def[symmetric]) blast
  qed simp
  then show ?thesis using n by (auto simp: fun_eq_iff)
qed

lemma fill_pdp_correct:
  assumes n: "unat n3 \<le> 2 ^ 17" "unat p3 \<le> 256" and p: "unat ptr mod 4096 = 0" "4096 * (1 + unat p3 + unat n3) + unat ptr \<le> 2 ^ 52"
    and len: "512 + unat n3 \<le> len"
  shows "fill_pdp len 1 p3 n3 ptr b =
    Inr (\<lambda>j. if 512 \<le> j \<and> j < 512 + unat n3 then E3 (unat ptr) (unat p3) (j - 512) else b j)"
proof -
  let ?P = "\<lambda>i b'. b' = (\<lambda>j. if 512 \<le> j \<and> j < 512 + i then E3 (unat ptr) (unat p3) (j - 512) else b j)"
  have "\<exists>b'. fill_pdp len 1 p3 n3 ptr b = Inr b' \<and> ?P (unat n3) b'"
    unfolding fill_pdp_def
  proof (rule for_range_invariant[where P = ?P])
    show "?P 0 b" by (auto simp: fun_eq_iff)
    fix i b' assume i: "i < unat n3" and b': "?P i b'"
    have i64: "unat (of_nat i :: u64) = i" using i n by (intro unat_of_nat_small) simp
    let ?a = "4096 * (i + (1 + unat p3)) + unat ptr"
    have lt: "?a < 2 ^ 52" using i p(2) by simp
    then have addr: "table_addr (of_nat i) [1, p3] ptr = Inr (of_nat ?a)" "unat (of_nat ?a :: u64) = ?a"
      using table_addr_correct[of "of_nat i" "[1, p3]" ptr] i64 by (simp, intro unat_of_nat_small) simp
    have "2 ^ 12 dvd ?a" using p(1) by (simp add: mod_eq_0_iff_dvd)
    then have g: "(of_nat ?a :: u64) AND PDPE_ADDR_MASK = of_nat ?a"
      unfolding flag_bits(4) using table_entry(1) addr(2) lt by presburger
    have "b'(unat (1::u64) * 512 + i := E3 (unat ptr) (unat p3) i) =
        (\<lambda>j. if 512 \<le> j \<and> j < 512 + Suc i then E3 (unat ptr) (unat p3) (j - 512) else b j)"
      unfolding b' by (auto simp: fun_eq_iff)
    moreover have "unat (1::u64) * 512 + i < len" using i len by simp
    ultimately show "\<exists>b''. and_then (table_addr (of_nat i) [1, p3] ptr) (\<lambda>entry_addr.
        and_then (guard (entry_addr AND PDPE_ADDR_MASK = entry_addr) (Message ''PDP Address field misaligned'')) (\<lambda>_.
          buf_set len (unat (1::u64) * 512 + i) (entry_addr OR PDPE_ENTRY_BASE) b')) = Inr b'' \<and> ?P (Suc i) b''"
      by (simp only: addr(1) and_then_Inr g guard_simps simp_thms buf_set_def if_True E3_def[symmetric]) blast
  qed simp
  then show ?thesis by blast
qed

lemma fill_pd_correct:
  assumes n: "unat n2 \<le> 2 ^ 26" and len: "512 + unat p3 * 512 + unat n2 \<le> len"
  shows "fill_pd len 1 p3 n2 b =
    Inr (\<lambda>j. if 512 + unat p3 * 512 \<le> j \<and> j < 512 + unat p3 * 512 + unat n2 then E2 (j - (512 + unat p3 * 512)) else b j)"
proof -
  let ?o = "512 + unat p3 * 512"
  let ?P = "\<lambda>i b'. b' = (\<lambda>j. if ?o \<le> j \<and> j < ?o + i then E2 (j - ?o) else b j)"
  have "\<exists>b'. fill_pd len 1 p3 n2 b = Inr b' \<and> ?P (unat n2) b'"
    unfolding fill_pd_def
  proof (rule for_range_invariant[where P = ?P])
    show "?P 0 b" by (auto simp: fun_eq_iff)
    fix i b' assume i: "i < unat n2" and b': "?P i b'"
    have i64: "unat (of_nat i :: u64) = i" using i n by (intro unat_of_nat_small) simp
    have "unat (push_bit 21 (of_nat i :: u64)) = 2 ^ 21 * i"
      using unat_push_bit[of "of_nat i :: u64" 21] i64 i n by simp
    then have a: "push_bit 21 (of_nat i :: u64) = of_nat (2 ^ 21 * i)" by (metis of_nat_unat ucast_id)
    have u: "unat (of_nat (2 ^ 21 * i) :: u64) = 2 ^ 21 * i" using i n by (intro unat_of_nat_small) simp
    have g: "(of_nat (2 ^ 21 * i) :: u64) AND PDE_ADDR_MASK = of_nat (2 ^ 21 * i)"
      by (rule page_entry(1)) (use u i n in \<open>simp_all only: dvd_triv_left\<close>, simp)
    have "b'(unat (1::u64) * 512 + unat p3 * 512 + i := E2 i) =
        (\<lambda>j. if ?o \<le> j \<and> j < ?o + Suc i then E2 (j - ?o) else b j)"
      unfolding b' by (auto simp: fun_eq_iff)
    moreover have "unat (1::u64) * 512 + unat p3 * 512 + i < len" using i len by simp
    ultimately show "\<exists>b''. (let entry_addr = push_bit 21 (of_nat i) in
        and_then (guard (entry_addr AND PDE_ADDR_MASK = entry_addr) (Message ''PD Address field misaligned'')) (\<lambda>_.
          buf_set len (unat (1::u64) * 512 + unat p3 * 512 + i) (entry_addr OR PDE_ENTRY_BASE) b')) = Inr b'' \<and> ?P (Suc i) b''"
      by (simp only: Let_def a and_then_Inr g guard_simps simp_thms buf_set_def if_True E2_def[symmetric]) blast
  qed simp
  then show ?thesis by blast
qed

section \<open>The finished table\<close>

definition tables_ok :: "nat \<Rightarrow> page_tables \<Rightarrow> bool" where
  "tables_ok S pt \<longleftrightarrow> S < 2 ^ 47 \<and>
     unat (pt_ptr pt) mod 4096 = 0 \<and> unat (pt_ptr pt) + 4096 * (1 + num4 S + num3 S) \<le> 2 ^ 52 \<and>
     (\<forall>i<num4 S. pt_buffer pt (512 - num4 S + i) = E4 (unat (pt_ptr pt)) i) \<and>
     (\<forall>i<num3 S. pt_buffer pt (512 + i) = E3 (unat (pt_ptr pt)) (num4 S) i) \<and>
     (\<forall>i<num2 S. pt_buffer pt (512 + num4 S * 512 + i) = E2 i) \<and>
     pt_high_mem_base pt = of_nat (2 ^ 64 - num4 S * 2 ^ 39) \<and> unat (pml4_entries (pt_info pt)) = num4 S"

definition low_half :: "nat \<Rightarrow> page_tables \<Rightarrow> bool" where
  "low_half S pt \<longleftrightarrow> (\<forall>i<num4 S. pt_buffer pt i = E4 (unat (pt_ptr pt)) i)"

text \<open>Words outside the entries of the table keep what the buffer held before.\<close>

definition table_words :: "nat \<Rightarrow> nat set" where
  "table_words S = {..<num4 S} \<union> {512 - num4 S..<512} \<union> {512..<512 + num3 S} \<union>
     {512 + num4 S * 512..<512 + num4 S * 512 + num2 S}"

lemma high_mem_base_value:
  fixes n :: u64
  assumes "0 < unat n" "unat n \<le> 256"
  shows "0xFFFF000000000000 OR push_bit 39 (512 - n) = (of_nat (2 ^ 64 - unat n * 2 ^ 39) :: u64)"
proof -
  let ?k = "512 - n"
  have "n \<le> 512" using assms(2) by (simp add: word_le_nat_alt)
  then have k: "unat ?k = 512 - unat n" by (simp add: unat_sub_checked)
  have "unat (push_bit 39 ?k) = unat ?k * 2 ^ 39" using k by (intro unat_push_bit) simp
  then have u: "unat (push_bit 39 ?k) = 2 ^ 48 - unat n * 2 ^ 39" using k assms(2) by (simp add: diff_mult_distrib)
  have hi: "(0xFFFF000000000000 :: u64) = NOT (mask 48)" by (simp add: mask_eq_exp_minus_1)
  have "NOT (mask 48) AND push_bit 39 ?k = 0"
  proof (rule bit_word_eqI)
    fix i
    have "unat (push_bit 39 ?k) < 2 ^ 48" using u assms(1) by simp
    then have "i < 48" if "bit (push_bit 39 ?k) i" using bit_less[OF _ that] by blast
    then show "bit (NOT (mask 48) AND push_bit 39 ?k) i \<longleftrightarrow> bit (0 :: u64) i"
      unfolding bit_and_iff bit_not_iff bit_mask_iff by auto
  qed
  then have "NOT (mask 48) OR push_bit 39 ?k = NOT (mask 48) + push_bit 39 ?k"
    by (rule disjunctive_add_eq_or[symmetric])
  moreover have "unat (NOT (mask 48 :: u64)) = 2 ^ 64 - 2 ^ 48" unfolding hi[symmetric] by simp
  moreover from this have sum: "unat (NOT (mask 48 :: u64)) + unat (push_bit 39 ?k) < 2 ^ LENGTH(64)" using u assms(1) by simp
  ultimately have "unat (NOT (mask 48) OR push_bit 39 ?k) = 2 ^ 64 - unat n * 2 ^ 39"
    using unat_add_checked[OF sum] u assms(2) by simp
  then show ?thesis unfolding hi by (metis of_nat_unat ucast_id)
qed

text \<open>The sizes that the first half of \<open>platform::init\<close> computes.\<close>

lemma table_sizes:
  fixes sz :: u64
  defines "S \<equiv> unat (sz AND 0x00007FFFFFFFFFFF)"
  obtains n4 n3 n2 p3 p2 where "S < 2 ^ 47"
    "entries_of (sz AND 0x00007FFFFFFFFFFF) 39 = Inr n4" "unat n4 = num4 S"
    "entries_of (sz AND 0x00007FFFFFFFFFFF) 30 = Inr n3" "unat n3 = num3 S"
    "entries_of (sz AND 0x00007FFFFFFFFFFF) 21 = Inr n2" "unat n2 = num2 S"
    "pages_for n4 = Inr 1" "pages_for n3 = Inr p3" "unat p3 = num4 S" "pages_for n2 = Inr p2" "unat p2 = num3 S"
    "checked_add 1 p3 = Inr (1 + p3)" "checked_add (1 + p3) p2 = Inr (1 + p3 + p2)"
    "unat (1 + p3 + p2) = 1 + num4 S + num3 S"
proof -
  let ?s = "sz AND 0x00007FFFFFFFFFFF"
  have "?s = take_bit 47 sz" by (simp add: take_bit_eq_mask mask_eq_exp_minus_1)
  then have S47: "unat ?s < 2 ^ 47" by (simp only: unsigned_take_bit_eq take_bit_nat_less_exp)
  then have S: "S < 2 ^ 47" by (simp add: S_def)
  note nb = num_bounds[OF S] and nest = num_nesting[of S]
  obtain n4 n3 n2 where n: "entries_of ?s 39 = Inr n4" "unat n4 = num4 S" "entries_of ?s 30 = Inr n3" "unat n3 = num3 S"
      "entries_of ?s 21 = Inr n2" "unat n2 = num2 S"
    using entries_of_correct[OF S47] unfolding num4_def num3_def num2_def S_def by metis
  have lim: "unat n4 \<le> 2 ^ 26" "unat n3 \<le> 2 ^ 26" "unat n2 \<le> 2 ^ 26" using n nb by simp_all
  obtain p4 p3 p2 where pg: "pages_for n4 = Inr p4" "unat p4 = (num4 S + 511) div 512" "pages_for n3 = Inr p3" "unat p3 = num4 S"
      "pages_for n2 = Inr p2" "unat p2 = num3 S"
    using pages_for_correct[OF lim(1)] pages_for_correct[OF lim(2)] pages_for_correct[OF lim(3)] n nest by metis
  have "(num4 S + 511) div 512 = 1" using nb(1) by (simp add: num4_def)
  then have "unat p4 = unat (1 :: u64)" using pg(2) by simp
  then have p4: "p4 = 1" by (simp only: unat_eq_unat)
  have s1: "unat (1 :: u64) + unat p3 < 2 ^ LENGTH(64)" using pg(4) nb(1) by simp
  have a1: "checked_add 1 p3 = Inr (1 + p3)" "unat (1 + p3) = 1 + num4 S"
    using s1 unat_add_checked[OF s1] pg(4) by (simp_all add: checked_add_def)
  have s2: "unat (1 + p3) + unat p2 < 2 ^ LENGTH(64)" using a1(2) pg(6) nb by simp
  have a2: "checked_add (1 + p3) p2 = Inr (1 + p3 + p2)" "unat (1 + p3 + p2) = 1 + num4 S + num3 S"
    using s2 unat_add_checked[OF s2] a1(2) pg(6) by (simp_all only: checked_add_def if_True)
  show ?thesis by (rule that[OF S n pg(1)[unfolded p4] pg(3-6) a1(1) a2])
qed

text \<open>The tables that are built in a buffer at \<open>ptr\<close>, on top of its contents \<open>mem\<close>.\<close>

definition tables_built :: "nat \<Rightarrow> (nat \<Rightarrow> u64) \<Rightarrow> u64 \<Rightarrow> page_tables \<Rightarrow> bool" where
  "tables_built S mem ptr pt \<longleftrightarrow> tables_ok S pt \<and> low_half S pt \<and> pt_ptr pt = ptr \<and> pt_cr3 pt = ptr \<and>
     page_buffer (pt_info pt) = ptr_to_kernelspace (pt_high_mem_base pt) ptr \<and>
     (\<forall>j. j \<notin> table_words S \<longrightarrow> pt_buffer pt j = mem j)"

lemma fill_tables_correct:
  assumes S: "S < 2 ^ 47" and n: "unat n4 = num4 S" "unat n3 = num3 S" "unat n2 = num2 S"
    and pg: "unat p3 = num4 S" "unat p2 = num3 S" "unat (1 + p3 + p2) = 1 + num4 S + num3 S"
    and p: "unat ptr mod 4096 = 0" "unat ptr + 4096 * (1 + num4 S + num3 S) \<le> 2 ^ 52"
  shows "\<exists>pt. fill_tables (1 + p3 + p2) 1 p3 p2 n4 n3 n2 ptr mem = Inr pt \<and> tables_built S mem ptr pt"
proof -
  note nb = num_bounds[OF S] and le = num_nested_le[of S]
  have m: "unat (1 + p3 + p2) * unat (4096 :: u64) < 2 ^ LENGTH(64)" using pg(3) nb by simp
  define len where "len = unat ((1 + p3 + p2) * 4096)"
  have len: "checked_mul (1 + p3 + p2) 4096 = Inr ((1 + p3 + p2) * 4096)" "len = (1 + num4 S + num3 S) * 4096"
    using m unat_mul_checked[OF m] pg(3) by (simp_all only: checked_mul_def if_True len_def) simp
  note f1 = fill_pml4_correct[of n4 ptr len mem, unfolded n(1)]
  note f2 = fill_pdp_correct[of n3 p3 ptr len, unfolded n(2) pg(1)]
  note f3 = fill_pd_correct[of n2 p3 len, unfolded n(3) pg(1)]
  have n4le: "n4 \<le> 512" using n(1) nb(1) by (simp add: word_le_nat_alt)
  have sub: "checked_sub 512 n4 = Inr (512 - n4)" using n4le by (simp add: checked_sub_def)
  have base: "0xFFFF000000000000 OR push_bit 39 (512 - n4) = of_nat (2 ^ 64 - num4 S * 2 ^ 39)"
    using high_mem_base_value[of n4] n(1) nb(1) by (simp add: num4_def)
  let ?ptr = "unat ptr"
  define b1 where "b1 = (\<lambda>j. if j < num4 S then E4 ?ptr j else if 512 - num4 S \<le> j \<and> j < 512 then E4 ?ptr (j - (512 - num4 S)) else mem j)"
  define b2 where "b2 = (\<lambda>j. if 512 \<le> j \<and> j < 512 + num3 S then E3 ?ptr (num4 S) (j - 512) else b1 j)"
  define b3 where "b3 = (\<lambda>j. if 512 + num4 S * 512 \<le> j \<and> j < 512 + num4 S * 512 + num2 S then E2 (j - (512 + num4 S * 512)) else b2 j)"
  have g1: "fill_pml4 len 1 n4 ptr mem = Inr b1" using f1 nb(1) p len(2) by (simp add: b1_def)
  have g2: "fill_pdp len 1 p3 n3 ptr b1 = Inr b2" using f2[of b1] nb p len(2) by (simp add: b2_def algebra_simps)
  have g3: "fill_pd len 1 p3 n2 b2 = Inr b3" using f3[of b2] nb le len(2) by (simp add: b3_def)
  let ?base = "of_nat (2 ^ 64 - num4 S * 2 ^ 39) :: u64"
  let ?pt = "\<lparr>pt_buffer = b3, pt_ptr = ptr, pt_high_mem_base = ?base, pt_cr3 = ptr,
      pt_info = \<lparr>page_buffer = ptr_to_kernelspace ?base ptr, pdp_pages = p3, pd_pages = p2, pml4_entries = n4\<rparr>\<rparr>"
  have run: "fill_tables (1 + p3 + p2) 1 p3 p2 n4 n3 n2 ptr mem = Inr ?pt"
    by (simp only: fill_tables_def Let_def len(1) len_def[symmetric] g1 g2 g3 sub base and_then_Inr)
  have bounds: "num4 S \<le> 256" "num3 S \<le> num4 S * 512" using nb(1) le(1) by simp_all
  define k where "k = 512 - num4 S"
  have k: "num4 S \<le> k" "k + num4 S = 512" using bounds(1) by (simp_all add: k_def)
  have "b3 (512 - num4 S + i) = E4 ?ptr i" "b3 i = E4 ?ptr i" if "i < num4 S" for i
    using that bounds k unfolding b3_def b2_def b1_def k_def[symmetric] by auto
  moreover have "b3 (512 + i) = E3 ?ptr (num4 S) i" if "i < num3 S" for i
    using that bounds by (simp add: b3_def b2_def)
  moreover have "b3 (512 + num4 S * 512 + i) = E2 i" if "i < num2 S" for i
    using that by (simp add: b3_def)
  moreover have "b3 j = mem j" if "j \<notin> table_words S" for j
    using that by (auto simp: b3_def b2_def b1_def table_words_def)
  ultimately show ?thesis using run S p n(1) by (auto simp: tables_built_def tables_ok_def low_half_def)
qed

text \<open>What the messages, the allocation and the tables contribute to \<open>platform::init\<close>.\<close>

lemma platform_init_parts:
  fixes sz :: u64 and mem :: "nat \<Rightarrow> u64"
  defines "S \<equiv> unat (sz AND 0x00007FFFFFFFFFFF)"
  obtains ms1 ms2 build where
    "\<And>wr alloc (f :: 'f). platform_init wr alloc mem sz f =
       and_then (wr (size_message sz) f) (\<lambda>f1. and_then (wr ms1 f1) (\<lambda>f2. and_then (wr ms2 f2) (\<lambda>f3.
       and_then (expect ''Failed to allocate buffer for page table'' (alloc (of_nat (1 + num4 S + num3 S)) f3)) (\<lambda>(ptr, f4).
       and_then (build ptr) (\<lambda>pt. and_then (wr (base_message (pt_high_mem_base pt)) f4) (\<lambda>f5. Inr (pt, f5)))))))"
    "\<And>ptr. unat ptr mod 4096 = 0 \<Longrightarrow> unat ptr + 4096 * (1 + num4 S + num3 S) \<le> 2 ^ 52 \<Longrightarrow>
       \<exists>pt. build ptr = Inr pt \<and> tables_built S mem ptr pt"
proof -
  obtain n4 n3 n2 p3 p2 where S: "S < 2 ^ 47"
    and n: "entries_of (sz AND 0x00007FFFFFFFFFFF) 39 = Inr n4" "unat n4 = num4 S"
    "entries_of (sz AND 0x00007FFFFFFFFFFF) 30 = Inr n3" "unat n3 = num3 S"
    "entries_of (sz AND 0x00007FFFFFFFFFFF) 21 = Inr n2" "unat n2 = num2 S"
    and pg: "pages_for n4 = Inr 1" "pages_for n3 = Inr p3" "unat p3 = num4 S" "pages_for n2 = Inr p2" "unat p2 = num3 S"
    and ad: "checked_add 1 p3 = Inr (1 + p3)" "checked_add (1 + p3) p2 = Inr (1 + p3 + p2)"
    "unat (1 + p3 + p2) = 1 + num4 S + num3 S"
    unfolding S_def by (rule table_sizes[of sz])
  have w: "of_nat (1 + num4 S + num3 S) = 1 + p3 + p2" using ad(3) by (metis of_nat_unat ucast_id)
  show ?thesis
  proof (rule that)
    show "platform_init wr alloc mem sz f =
       and_then (wr (size_message sz) f) (\<lambda>f1. and_then (wr (entries_message n4 n3 n2) f1) (\<lambda>f2.
       and_then (wr (pages_message (1 + p3 + p2) 1 p3 p2) f2) (\<lambda>f3.
       and_then (expect ''Failed to allocate buffer for page table'' (alloc (of_nat (1 + num4 S + num3 S)) f3)) (\<lambda>(ptr, f4).
       and_then (fill_tables (1 + p3 + p2) 1 p3 p2 n4 n3 n2 ptr mem) (\<lambda>pt.
       and_then (wr (base_message (pt_high_mem_base pt)) f4) (\<lambda>f5. Inr (pt, f5)))))))"
      for wr :: "u32 list list \<Rightarrow> 'f \<Rightarrow> 'f res" and alloc f
      by (simp only: platform_init_def Let_def n(1,3,5) pg(1,2,4) ad(1,2) w guard_simps and_then_Inr simp_thms)
    show "\<exists>pt. fill_tables (1 + p3 + p2) 1 p3 p2 n4 n3 n2 ptr mem = Inr pt \<and> tables_built S mem ptr pt"
      if "unat ptr mod 4096 = 0" "unat ptr + 4096 * (1 + num4 S + num3 S) \<le> 2 ^ 52" for ptr
      by (rule fill_tables_correct[OF S n(2,4,6) pg(3,5) ad(3) that])
  qed
qed

lemma platform_init_correct:
  fixes sz :: u64 and f :: 'f
  defines "S \<equiv> unat (sz AND 0x00007FFFFFFFFFFF)"
  assumes wr: "\<And>ps g. \<exists>g'. wr ps g = Inr g'"
    and alloc: "\<And>g. \<exists>ptr g'. alloc (of_nat (1 + num4 S + num3 S)) g = Some (ptr, g') \<and>
      unat ptr mod 4096 = 0 \<and> unat ptr + 4096 * (1 + num4 S + num3 S) \<le> 2 ^ 52"
  obtains g ptr g' pt f' where "alloc (of_nat (1 + num4 S + num3 S)) g = Some (ptr, g')"
    "platform_init wr alloc mem sz f = Inr (pt, f')" "tables_built S mem ptr pt"
proof -
  obtain ms1 ms2 build where b: "\<And>wr alloc f. platform_init wr alloc mem sz (f :: 'f) =
       and_then (wr (size_message sz) f) (\<lambda>f1. and_then (wr ms1 f1) (\<lambda>f2. and_then (wr ms2 f2) (\<lambda>f3.
       and_then (expect ''Failed to allocate buffer for page table'' (alloc (of_nat (1 + num4 S + num3 S)) f3)) (\<lambda>(ptr, f4).
       and_then (build ptr) (\<lambda>pt. and_then (wr (base_message (pt_high_mem_base pt)) f4) (\<lambda>f5. Inr (pt, f5)))))))"
    "\<And>ptr. unat ptr mod 4096 = 0 \<Longrightarrow> unat ptr + 4096 * (1 + num4 S + num3 S) \<le> 2 ^ 52 \<Longrightarrow>
       \<exists>pt. build ptr = Inr pt \<and> tables_built S mem ptr pt"
    unfolding S_def by (rule platform_init_parts[of mem sz]) blast
  obtain f1 f2 f3 where w: "wr (size_message sz) f = Inr f1" "wr ms1 f1 = Inr f2" "wr ms2 f2 = Inr f3" using wr by meson
  obtain ptr f4 where a: "alloc (of_nat (1 + num4 S + num3 S)) f3 = Some (ptr, f4)" "unat ptr mod 4096 = 0"
      "unat ptr + 4096 * (1 + num4 S + num3 S) \<le> 2 ^ 52" using alloc[of f3] by (elim exE conjE) metis
  obtain pt where pt: "build ptr = Inr pt" "tables_built S mem ptr pt" using b(2)[OF a(2,3)] by blast
  obtain f5 where "wr (base_message (pt_high_mem_base pt)) f4 = Inr f5" using wr by blast
  with w a(1) pt(1) have "platform_init wr alloc mem sz f = Inr (pt, f5)" by (simp add: b(1) del: of_nat_add)
  with a(1) pt(2) that show ?thesis by blast
qed

section \<open>Translation\<close>

definition table_entries :: "nat \<Rightarrow> nat" where
  "table_entries S = 512 * (1 + num4 S + num3 S)"

lemma read_entry_correct:
  assumes "4096 * q + unat (pt_ptr pt) < 2 ^ 52" "unat idx < 512" "q * 512 + unat idx < n"
  shows "read_entry n pt (of_nat (4096 * q + unat (pt_ptr pt))) idx = Some (pt_buffer pt (q * 512 + unat idx))"
proof -
  have "of_nat (4096 * q + unat (pt_ptr pt)) + idx * 8 - pt_ptr pt = (of_nat (4096 * q + 8 * unat idx) :: u64)"
    by (simp add: mult.commute)
  moreover have "unat (of_nat (4096 * q + 8 * unat idx) :: u64) = 4096 * q + 8 * unat idx"
    using assms(1,2) by (intro unat_of_nat_small) simp
  ultimately have d: "unat (of_nat (4096 * q + unat (pt_ptr pt)) + idx * 8 - pt_ptr pt) = 8 * (q * 512 + unat idx)"
    by (simp only:) simp
  show ?thesis unfolding read_entry_def Let_def d using assms(3) by (simp add: mult.commute)
qed

lemma unat_table_index: "unat (table_index v k) = unat v div 2 ^ k mod 512"
proof -
  have "table_index v k = take_bit 9 (drop_bit k v)" by (simp add: table_index_def take_bit_eq_mask mask_eq_exp_minus_1)
  then have "unat (table_index v k) = take_bit 9 (unat (drop_bit k v))" by (simp only: unsigned_take_bit_eq)
  then show ?thesis by (simp add: unat_drop_bit take_bit_eq_mod)
qed

lemma middle_bits: "x div 2 ^ 30 mod 512 = x mod 2 ^ 39 div 2 ^ 30" "x div 2 ^ 21 mod 512 = x mod 2 ^ 30 div 2 ^ 21"
  for x :: nat
proof -
  have main: "x mod (b * 512) div b = x div b mod 512" if "0 < b" for b :: nat
    using that by (simp add: mod_mult2_eq)
  show "x div 2 ^ 30 mod 512 = x mod 2 ^ 39 div 2 ^ 30" using main[of 1073741824] by simp
  show "x div 2 ^ 21 mod 512 = x mod 2 ^ 30 div 2 ^ 21" using main[of 2097152] by simp
qed

lemma split_index: "x div 2 ^ 39 * 512 + x div 2 ^ 30 mod 512 = x div 2 ^ 30" "x div 2 ^ 30 * 512 + x div 2 ^ 21 mod 512 = x div 2 ^ 21"
  for x :: nat
  using div_mult_mod_eq[of "x div 2 ^ 30" 512] div_mult_mod_eq[of "x div 2 ^ 21" 512] by (simp_all add: div_mult2_eq[symmetric])

lemma join_page:
  fixes p v :: u64
  assumes "unat p < 2 ^ 52" "take_bit 21 v = take_bit 21 p"
  shows "(E2 (unat p div 2 ^ 21) AND PDE_ADDR_MASK) OR (v AND 0x1FFFFF) = p"
proof -
  let ?c = "unat p div 2 ^ 21"
  have lt: "2 ^ 21 * ?c \<le> unat p" by simp
  have u: "unat (of_nat (2 ^ 21 * ?c) :: u64) = 2 ^ 21 * ?c"
    using le_less_trans[OF lt assms(1)] by (intro unat_of_nat_small) simp
  have "unat (push_bit 21 (drop_bit 21 p)) = 2 ^ 21 * ?c"
    using unat_push_bit[of "drop_bit 21 p" 21] lt assms(1) by (simp add: unat_drop_bit)
  then have hi: "of_nat (2 ^ 21 * ?c) = push_bit 21 (drop_bit 21 p)" by (metis of_nat_unat ucast_id)
  have "(E2 ?c AND PDE_ADDR_MASK) = of_nat (2 ^ 21 * ?c)"
    unfolding E2_def by (rule page_entry(2)) (simp_all only: u dvd_triv_left le_less_trans[OF lt assms(1)])
  moreover have "v AND 0x1FFFFF = take_bit 21 p" unfolding assms(2)[symmetric] by (simp add: take_bit_eq_mask mask_eq_exp_minus_1)
  moreover have "push_bit 21 (drop_bit 21 p) OR take_bit 21 p = p"
    by (rule bit_word_eqI) (auto simp: bit_or_iff bit_push_bit_iff bit_drop_bit_eq bit_take_bit_iff)
  ultimately show ?thesis using hi by simp
qed

text \<open>A virtual address whose PML4 entry leads to the right table is mapped to the physical one.\<close>

lemma index_bounds:
  assumes "p < num2 S * 2 ^ 21"
  shows "p div 2 ^ 21 < num2 S" "p div 2 ^ 30 < num3 S" "p div 2 ^ 39 < num4 S"
proof -
  show c: "p div 2 ^ 21 < num2 S" using assms by (simp add: less_mult_imp_div_less)
  then have "p div 2 ^ 21 \<le> S div 2 ^ 21" by (simp add: num2_def)
  then have "p div 2 ^ 21 div 512 \<le> S div 2 ^ 21 div 512" by (rule div_le_mono)
  then show b: "p div 2 ^ 30 < num3 S" by (simp add: num3_def div_mult2_eq[symmetric])
  then have "p div 2 ^ 30 \<le> S div 2 ^ 30" by (simp add: num3_def)
  then have "p div 2 ^ 30 div 512 \<le> S div 2 ^ 30 div 512" by (rule div_le_mono)
  then show "p div 2 ^ 39 < num4 S" by (simp add: num4_def div_mult2_eq[symmetric])
qed

text \<open>An entry that points to a table: it is present, and its address field is the table's address.\<close>

lemma table_entry_address:
  assumes "n < 2 ^ 52" "2 ^ 12 dvd n"
  shows "(of_nat n OR PML4_ENTRY_BASE :: u64) AND PML4_ADDR_MASK = of_nat n" "(of_nat n OR PML4_ENTRY_BASE :: u64) AND PML_P \<noteq> 0"
proof -
  have u: "unat (of_nat n :: u64) = n" using assms(1) by (intro unat_of_nat_small) simp
  then have w: "unat (of_nat n :: u64) < 2 ^ 52" "2 ^ 12 dvd unat (of_nat n :: u64)" using assms by (simp_all only:)
  show "(of_nat n OR PML4_ENTRY_BASE :: u64) AND PML4_ADDR_MASK = of_nat n" "(of_nat n OR PML4_ENTRY_BASE :: u64) AND PML_P \<noteq> 0"
    by (fact table_entry(2,3)[OF w])+
qed

text \<open>The last level: the entry's page and the offset in the virtual address make up the physical address.\<close>

lemma page_address:
  assumes "S < 2 ^ 47" "unat p < num2 S * 2 ^ 21" "unat v mod 2 ^ 30 = unat p mod 2 ^ 30"
  shows "(E2 (unat p div 2 ^ 21) AND PDE_ADDR_MASK) OR (v AND 0x1FFFFF) = p" "E2 (unat p div 2 ^ 21) AND PML_P \<noteq> 0"
proof -
  have "num2 S * 2 ^ 21 \<le> 2 ^ 26 * 2 ^ 21" using num_bounds(3)[OF assms(1)] by (intro mult_le_mono1)
  with assms(2) have p52: "unat p < 2 ^ 52" by simp
  have "take_bit 21 (unat v) = take_bit 21 (unat p)"
    using arg_cong[OF assms(3), of "\<lambda>x. x mod 2 ^ 21"] by (simp add: take_bit_eq_mod mod_mod_cancel)
  then have "take_bit 21 v = take_bit 21 p" by (simp only: unat_eq_unat[symmetric] unsigned_take_bit_eq)
  from join_page[OF p52 this] show "(E2 (unat p div 2 ^ 21) AND PDE_ADDR_MASK) OR (v AND 0x1FFFFF) = p" .
  show "E2 (unat p div 2 ^ 21) AND PML_P \<noteq> 0" by (simp only: and_P E2_def bit_or_iff flag_bits(6) simp_thms)
qed

lemma walk_mapped:
  assumes ok: "tables_ok S pt" and cr3: "pt_cr3 pt = pt_ptr pt" and p: "unat p < num2 S * 2 ^ 21"
    and i4: "pt_buffer pt (unat v div 2 ^ 39 mod 512) = E4 (unat (pt_ptr pt)) (unat p div 2 ^ 39)"
    and low: "unat v mod 2 ^ 39 = unat p mod 2 ^ 39"
  shows "walk (table_entries S) pt v = Some p"
proof -
  let ?ptr = "unat (pt_ptr pt)" and ?a = "unat p div 2 ^ 39" and ?b = "unat p div 2 ^ 30" and ?c = "unat p div 2 ^ 21"
  have S: "S < 2 ^ 47" and lim: "?ptr + 4096 * (1 + num4 S + num3 S) \<le> 2 ^ 52"
    and t3: "\<forall>i<num3 S. pt_buffer pt (512 + i) = E3 ?ptr (num4 S) i"
    and t2: "\<forall>i<num2 S. pt_buffer pt (512 + num4 S * 512 + i) = E2 i"
    and al: "2 ^ 12 dvd 4096 * k + ?ptr" for k
    using ok by (simp_all add: tables_ok_def mod_eq_0_iff_dvd)
  note bnd = index_bounds[OF p]
  have i3: "unat (table_index v 30) = ?b mod 512" using low by (simp only: unat_table_index middle_bits)
  have "unat v mod 2 ^ 39 mod 2 ^ 30 = unat p mod 2 ^ 39 mod 2 ^ 30" using low by simp
  then have low30: "unat v mod 2 ^ 30 = unat p mod 2 ^ 30" by (simp add: mod_mod_cancel)
  then have i2: "unat (table_index v 21) = ?c mod 512" by (simp only: unat_table_index middle_bits)
  have "read_entry (table_entries S) pt (of_nat (4096 * 0 + ?ptr)) (table_index v 39) =
      Some (pt_buffer pt (0 * 512 + unat (table_index v 39)))"
    using lim by (intro read_entry_correct) (simp_all add: unat_table_index table_entries_def)
  then have e4: "read_entry (table_entries S) pt (pt_cr3 pt) (table_index v 39) = Some (E4 ?ptr ?a)"
    using i4 by (simp add: cr3 unat_table_index)
  have l4: "4096 * (?a + 1) + ?ptr < 2 ^ 52" using bnd(3) lim by (simp add: num3_def)
  note m4 = table_entry_address[OF this al, folded E4_def]
  have "read_entry (table_entries S) pt (of_nat (4096 * (?a + 1) + ?ptr)) (table_index v 30) =
      Some (pt_buffer pt ((?a + 1) * 512 + unat (table_index v 30)))"
    using l4 bnd(3) by (intro read_entry_correct) (simp_all add: i3 table_entries_def)
  moreover have "(?a + 1) * 512 + unat (table_index v 30) = 512 + ?b" using split_index(1)[of "unat p"] by (simp add: i3)
  ultimately have e3: "read_entry (table_entries S) pt (E4 ?ptr ?a AND PML4_ADDR_MASK) (table_index v 30) = Some (E3 ?ptr (num4 S) ?b)"
    using t3[rule_format, OF bnd(2)] by (simp only: m4(1))
  have l3: "4096 * (?b + (1 + num4 S)) + ?ptr < 2 ^ 52" using bnd(2) lim by simp
  note m3 = table_entry_address[OF this al, folded flag_bits(3), folded E3_def]
  have "read_entry (table_entries S) pt (of_nat (4096 * (?b + (1 + num4 S)) + ?ptr)) (table_index v 21) =
      Some (pt_buffer pt ((?b + (1 + num4 S)) * 512 + unat (table_index v 21)))"
    using l3 bnd(2) by (intro read_entry_correct) (simp_all add: i2 table_entries_def)
  moreover have "(?b + (1 + num4 S)) * 512 + unat (table_index v 21) = 512 + num4 S * 512 + ?c"
    using split_index(2)[of "unat p"] by (simp add: i2)
  ultimately have e2: "read_entry (table_entries S) pt (E3 ?ptr (num4 S) ?b AND PDPE_ADDR_MASK) (table_index v 21) = Some (E2 ?c)"
    using t2[rule_format, OF bnd(1)] by (simp only: m3(1) flag_bits(4))
  show ?thesis unfolding walk_def e4 option.case using e3 e2 m4(2) m3(2) page_address[OF S p low30] by simp
qed

section \<open>Identity and mirror\<close>

lemma in_range: "unat p < num2 S * 2 ^ 21 \<Longrightarrow> unat p div 2 ^ 39 < num4 S"
  by (rule index_bounds(3))

lemma identity_mapped:
  assumes ok: "tables_ok S pt" "low_half S pt" "pt_cr3 pt = pt_ptr pt" and p: "unat p < num2 S * 2 ^ 21"
  shows "walk (table_entries S) pt p = Some p"
proof (rule walk_mapped[OF ok(1,3) p])
  have a: "unat p div 2 ^ 39 < num4 S" by (rule in_range[OF p])
  then have "unat p div 2 ^ 39 mod 512 = unat p div 2 ^ 39"
    using num_bounds(1)[of S] ok(1) by (simp add: tables_ok_def)
  with a ok(2) show "pt_buffer pt (unat p div 2 ^ 39 mod 512) = E4 (unat (pt_ptr pt)) (unat p div 2 ^ 39)"
    by (simp add: low_half_def)
qed simp

text \<open>The bit pattern of an address in the mirror.\<close>

lemma mirror_address:
  fixes p :: u64
  assumes "0 < n" "n \<le> 256" "unat p div 2 ^ 39 < n"
  defines "v \<equiv> of_nat (2 ^ 64 - n * 2 ^ 39) + p"
  shows "unat v div 2 ^ 39 mod 512 = 512 - n + unat p div 2 ^ 39" "unat v mod 2 ^ 39 = unat p mod 2 ^ 39"
proof -
  let ?a = "unat p div 2 ^ 39"
  have lt: "unat p < n * 2 ^ 39" using assms(3) by (simp add: div_less_iff_less_mult)
  have n: "n * 2 ^ 39 \<le> 2 ^ 64" using assms(2) by simp
  have b: "unat (of_nat (2 ^ 64 - n * 2 ^ 39) :: u64) = 2 ^ 64 - n * 2 ^ 39"
    using assms(1) by (intro unat_of_nat_small) simp
  have "unat (of_nat (2 ^ 64 - n * 2 ^ 39) :: u64) + unat p < 2 ^ LENGTH(64)" unfolding b using lt n by simp
  from unat_add_checked[OF this] have v: "unat v = (2 ^ 25 - n) * 2 ^ 39 + unat p"
    unfolding v_def b by (simp add: diff_mult_distrib)
  then have "unat v div 2 ^ 39 = 2 ^ 25 - n + ?a" by simp
  also have "\<dots> = 512 * 65535 + (512 - n + ?a)" using assms(2) by simp
  finally have "unat v div 2 ^ 39 mod 512 = (512 * 65535 + (512 - n + ?a)) mod 512" by (rule arg_cong)
  also have "\<dots> = (512 - n + ?a) mod 512" by (rule mod_mult_self4)
  also have "\<dots> = 512 - n + ?a" using assms(2,3) by (intro mod_less) linarith
  finally show "unat v div 2 ^ 39 mod 512 = 512 - n + ?a" .
  show "unat v mod 2 ^ 39 = unat p mod 2 ^ 39" using v by simp
qed

lemma mirror_mapped:
  assumes ok: "tables_ok S pt" "pt_cr3 pt = pt_ptr pt" and p: "unat p < num2 S * 2 ^ 21"
  shows "walk (table_entries S) pt (pt_high_mem_base pt + p) = Some p"
proof -
  have S: "S < 2 ^ 47" and base: "pt_high_mem_base pt = of_nat (2 ^ 64 - num4 S * 2 ^ 39)"
    and t4: "\<forall>i<num4 S. pt_buffer pt (512 - num4 S + i) = E4 (unat (pt_ptr pt)) i" using ok(1) by (simp_all add: tables_ok_def)
  have a: "unat p div 2 ^ 39 < num4 S" by (rule in_range[OF p])
  have "0 < num4 S" by (simp add: num4_def)
  note m = mirror_address[OF this num_bounds(1)[OF S] a]
  show ?thesis
  proof (rule walk_mapped[OF ok p])
    show "pt_buffer pt (unat (pt_high_mem_base pt + p) div 2 ^ 39 mod 512) = E4 (unat (pt_ptr pt)) (unat p div 2 ^ 39)"
      unfolding base m(1) by (rule t4[rule_format, OF a])
    show "unat (pt_high_mem_base pt + p) mod 2 ^ 39 = unat p mod 2 ^ 39" unfolding base by (rule m(2))
  qed
qed

text \<open>With a power of two of PML4 entries the base is the complement of a mask.\<close>

lemma base_is_window:
  assumes "tables_ok S pt" "num4 S = 2 ^ j"
  shows "address_window (pt_high_mem_base pt) (39 + j)"
proof
  have "(2::nat) ^ j \<le> 2 ^ 8" using assms num_bounds(1)[of S] by (simp add: tables_ok_def)
  then have j: "j \<le> 8" using power_le_imp_le_exp[of "2::nat" j 8] by simp
  then show "39 + j < 64" by simp
  have "(2::nat) ^ (39 + j) \<le> 2 ^ 64" using j by (intro power_increasing) simp_all
  then have "(of_nat (2 ^ 64 - 2 ^ (39 + j)) :: u64) = of_nat (2 ^ 64) - of_nat (2 ^ (39 + j))" by (rule of_nat_diff)
  also have "\<dots> = - (2 ^ (39 + j))" by simp
  also have "\<dots> = NOT (mask (39 + j))" by (rule minus_exp_eq_not_mask)
  finally show "pt_high_mem_base pt = NOT (mask (39 + j))"
    using assms by (simp add: tables_ok_def power_add mult.commute)
qed

section \<open>The kernel's half\<close>

lemma virt_manager_init_ok:
  assumes ok: "tables_ok S pt"
  shows "tables_ok S (switch_tables base pt)"
proof -
  have n: "num4 S \<le> 256" "unat (pml4_entries (pt_info pt)) = num4 S" using ok num_bounds(1)[of S] by (simp_all add: tables_ok_def)
  have "\<not> 512 - num4 S + i < num4 S" "\<not> 512 + i < num4 S" "\<not> 512 + num4 S * 512 + i < num4 S" for i using n(1) by simp_all
  with ok n(2) show ?thesis by (simp add: tables_ok_def switch_tables_def Let_def)
qed

lemma walk_not_present:
  assumes "read_entry n pt (pt_cr3 pt) (table_index v 39) = Some 0"
  shows "walk n pt v = None"
  by (simp add: walk_def assms)

lemma low_half_unmapped:
  assumes ok: "tables_ok S pt" and cr3: "pt_cr3 (switch_tables base pt) = pt_ptr pt" and v: "unat v div 2 ^ 39 mod 512 < num4 S"
  shows "walk (table_entries S) (switch_tables base pt) v = None"
proof (rule walk_not_present)
  let ?pt = "switch_tables base pt"
  have ptr: "pt_ptr ?pt = pt_ptr pt" by (simp add: switch_tables_def Let_def)
  have lim: "unat (pt_ptr pt) + 4096 * (1 + num4 S + num3 S) \<le> 2 ^ 52" using ok by (simp add: tables_ok_def)
  have "read_entry (table_entries S) ?pt (of_nat (4096 * 0 + unat (pt_ptr ?pt))) (table_index v 39) =
      Some (pt_buffer ?pt (0 * 512 + unat (table_index v 39)))"
    using lim by (intro read_entry_correct) (simp_all add: ptr unat_table_index table_entries_def)
  moreover have "pt_buffer ?pt (unat (table_index v 39)) = 0"
    using v ok by (simp add: switch_tables_def Let_def tables_ok_def unat_table_index)
  ultimately show "read_entry (table_entries S) ?pt (pt_cr3 ?pt) (table_index v 39) = Some 0"
    by (simp add: cr3 ptr)
qed

section \<open>The size of physical memory\<close>

lemma highest_address_bound:
  assumes "highest_address mmap s = Inr r"
  shows "s \<le> r" "(start, count) \<in> set mmap \<Longrightarrow> unat start + 4096 * unat count \<le> unat r"
proof -
  have "s \<le> r \<and> ((start, count) \<in> set mmap \<longrightarrow> unat start + 4096 * unat count \<le> unat r)"
    using assms
  proof (induction mmap s rule: highest_address.induct)
    case (2 start' count' mmap s)
    let ?hi = "start' + count' * 4096"
    from "2.prems" have c: "unat count' * unat (4096::u64) < 2 ^ LENGTH(64)"
        "unat start' + unat (count' * 4096) < 2 ^ LENGTH(64)"
        "highest_address mmap (if s < ?hi then ?hi else s) = Inr r"
      by (auto simp: sum_simps checked_mul_def checked_add_def split: if_splits)
    have e: "unat ?hi = unat start' + 4096 * unat count'" using unat_add_checked[OF c(2)] unat_mul_checked[OF c(1)] by simp
    have IH: "(if s < ?hi then ?hi else s) \<le> r \<and> ((start, count) \<in> set mmap \<longrightarrow> unat start + 4096 * unat count \<le> unat r)"
      using "2.IH"[of "count' * 4096" ?hi] c by (simp add: checked_mul_def checked_add_def)
    then have "s \<le> r" "?hi \<le> r" by (auto split: if_splits)
    with IH e show ?case by (auto simp: word_le_nat_alt)
  qed simp
  then show "s \<le> r" "(start, count) \<in> set mmap \<Longrightarrow> unat start + 4096 * unat count \<le> unat r" by blast+
qed

end
