(* ===== verification/Paging_Properties.thy ===== *)
theory Paging_Properties
  imports Paging_Correct
begin

text \<open>
  The properties of the page table. The witnesses use a machine with 4 GiB of memory (one PML4, five PDP
  and 2049 PD entries) and a page buffer at 16 MiB.
\<close>

definition demo_alloc :: "u64 \<Rightarrow> unit \<Rightarrow> (u64 \<times> unit) option" where
  "demo_alloc n u = Some (0x1000000, u)"

lemma demo_sizes:
  "unat ((0x100000000 :: u64) AND 0x00007FFFFFFFFFFF) = 0x100000000"
  "num4 0x100000000 = 1" "num3 0x100000000 = 5" "num2 0x100000000 = 2049"
  by (simp_all add: num4_def num3_def num2_def)

text \<open>A console that always works, and the state of nothing.\<close>

definition demo_write :: "u32 list list \<Rightarrow> unit \<Rightarrow> unit res" where
  "demo_write ps u = Inr u"

lemma demo_tables:
  "\<exists>pt. platform_init demo_write demo_alloc (\<lambda>_. 0) 0x100000000 () = Inr (pt, ()) \<and> tables_built 0x100000000 (\<lambda>_. 0) 0x1000000 pt"
  by (rule platform_init_correct[of demo_write demo_alloc "0x100000000" "\<lambda>_. 0" "()", unfolded demo_sizes])
    (auto simp: demo_write_def demo_alloc_def)



text \<open>
  C15: Bootloader and kernel agree on addresses. When the number of PML4 entries is a power of two, the
  kernel's conversion of a physical address gives a virtual address that the table maps back to
  it, and the conversion back is its inverse, for all of physical memory.
\<close>

theorem kernel_addresses_are_mapped:
  assumes "tables_ok S pt" "pt_cr3 pt = pt_ptr pt" "num4 S = 2 ^ j" "unat p < num2 S * 2 ^ 21"
  shows "walk (table_entries S) pt (phys_to_virt (pt_high_mem_base pt) p) = Some p \<and>
         virt_to_phys (pt_high_mem_base pt) (phys_to_virt (pt_high_mem_base pt) p) = p"
proof -
  have w: "address_window (pt_high_mem_base pt) (39 + j)" by (rule base_is_window[OF assms(1,3)])
  have "unat p < num4 S * 2 ^ 39" using in_range[OF assms(4)] by (simp add: div_less_iff_less_mult)
  then have "unat p < 2 ^ (39 + j)" by (simp add: assms(3) power_add mult.commute)
  then have "phys_to_virt (pt_high_mem_base pt) p = pt_high_mem_base pt + p"
    "virt_to_phys (pt_high_mem_base pt) (phys_to_virt (pt_high_mem_base pt) p) = p"
    using address_window.phys_to_virt_add[OF w] address_window.virt_phys_virt[OF w] by blast+
  then show ?thesis using mirror_mapped[OF assms(1,2,4)] by simp
qed

theorem kernel_addresses_are_mapped_witness:
  "\<exists>pt. platform_init demo_write demo_alloc (\<lambda>_. 0) 0x100000000 () = Inr (pt, ()) \<and>
     walk (table_entries 0x100000000) pt (phys_to_virt (pt_high_mem_base pt) 0x1234567) = Some 0x1234567"
proof -
  obtain pt where pt: "platform_init demo_write demo_alloc (\<lambda>_. 0) 0x100000000 () = Inr (pt, ())" "tables_ok 0x100000000 pt"
      "pt_cr3 pt = pt_ptr pt" using demo_tables by (auto simp: tables_built_def)
  from kernel_addresses_are_mapped[OF pt(2,3), of 0 "0x1234567"] pt(1) show ?thesis by (auto simp: demo_sizes)
qed

text \<open>
  C38: With three PML4 entries (between 1 and 1.5 TiB of memory) the conversion is wrong: the base is
  combined by a bitwise or although its lowest set bit overlaps the address, so an address in the
  second 512 GiB is converted to the mirror of the address 512 GiB below it.
\<close>

theorem conversion_aliases_above_512GiB:
  assumes "tables_ok S pt" "pt_cr3 pt = pt_ptr pt" "num4 S = 3" "unat p < 2 ^ 39"
  shows "walk (table_entries S) pt (phys_to_virt (pt_high_mem_base pt) (p + 0x8000000000)) = Some p"
proof -
  have base: "pt_high_mem_base pt = 0xFFFFFE8000000000" using assms(1,3) by (simp add: tables_ok_def)
  have "\<not> bit p 39" using bit_less[OF assms(4), of 39] by blast
  then have "p AND 2 ^ 39 = 0"
    by (intro bit_word_eqI) (simp only: bit_and_iff bit_exp_iff bit_0_eq bot_apply bot_bool_def, blast)
  then have "p + 0x8000000000 = p OR 0x8000000000" by (intro disjunctive_add_eq_or) simp
  then have "phys_to_virt (pt_high_mem_base pt) (p + 0x8000000000) = p OR (0x8000000000 OR 0xFFFFFE8000000000)"
    by (simp only: phys_to_virt_def base or.assoc)
  also have "\<dots> = p OR 0xFFFFFE8000000000" by simp
  also have "\<dots> = p + 0xFFFFFE8000000000"
  proof (rule disjunctive_add_eq_or[symmetric])
    have z: "mask 39 AND (0xFFFFFE8000000000 :: u64) = 0" by (simp add: mask_eq_exp_minus_1)
    have "take_bit 39 p = p" using assms(4) by (simp only: unat_eq_unat[symmetric] unsigned_take_bit_eq take_bit_nat_eq_self)
    then have "p AND 0xFFFFFE8000000000 = (p AND mask 39) AND 0xFFFFFE8000000000" by (simp only: take_bit_eq_mask)
    also have "\<dots> = 0" by (simp only: and.assoc z and_zero_eq)
    finally show "p AND 0xFFFFFE8000000000 = 0" .
  qed
  finally have "phys_to_virt (pt_high_mem_base pt) (p + 0x8000000000) = pt_high_mem_base pt + p" by (simp add: base)
  moreover have "unat p < num2 S * 2 ^ 21"
  proof -
    have "2 * 2 ^ 39 \<le> S" using assms(3) by (simp add: num4_def)
    then have "2 ^ 39 div 2 ^ 21 \<le> S div 2 ^ 21" by (intro div_le_mono) simp
    then have "2 ^ 18 < num2 S" by (simp add: num2_def)
    then have "2 ^ 18 * 2 ^ 21 \<le> num2 S * 2 ^ 21" by (intro mult_le_mono1) simp
    with assms(4) show ?thesis by simp
  qed
  ultimately show ?thesis using mirror_mapped[OF assms(1,2)] by simp
qed

theorem conversion_aliases_above_512GiB_witness:
  "\<exists>pt. platform_init demo_write demo_alloc (\<lambda>_. 0) 0x10000000000 () = Inr (pt, ()) \<and>
     walk (table_entries 0x10000000000) pt (phys_to_virt (pt_high_mem_base pt) 0x8000001000) = Some 0x1000"
proof -
  have sizes: "unat ((0x10000000000 :: u64) AND 0x00007FFFFFFFFFFF) = 0x10000000000"
    "num4 0x10000000000 = 3" "num3 0x10000000000 = 1025" by (simp_all add: num4_def num3_def)
  obtain pt where pt: "platform_init demo_write demo_alloc (\<lambda>_. 0) 0x10000000000 () = Inr (pt, ())" "tables_ok 0x10000000000 pt" "pt_cr3 pt = pt_ptr pt"
    by (rule platform_init_correct[of demo_write demo_alloc "0x10000000000" "\<lambda>_. 0" "()", unfolded sizes])
      (auto simp: demo_write_def demo_alloc_def tables_built_def)
  from conversion_aliases_above_512GiB[OF pt(2,3) sizes(2), of "0x1000"] pt(1) show ?thesis by auto
qed

text \<open>
  The kernel drops the lower half. After the kernel's initialization of virtual memory every
  physical address is still reachable through its mirror, CR3 still points to the table, and no
  address of the identity mapping is mapped any more.
\<close>

lemma kernel_keeps_mirror_only:
  assumes "tables_ok S pt" "page_buffer (pt_info pt) = ptr_to_kernelspace (pt_high_mem_base pt) (pt_ptr pt)"
    and "num4 S = 2 ^ j" "unat (pt_ptr pt) < num4 S * 2 ^ 39" "unat p < num2 S * 2 ^ 21"
  defines "pt' \<equiv> switch_tables (pt_high_mem_base pt) pt"
  shows "pt_cr3 pt' = pt_ptr pt \<and> walk (table_entries S) pt' (phys_to_virt (pt_high_mem_base pt) p) = Some p \<and>
         walk (table_entries S) pt' p = None"
proof -
  have w: "address_window (pt_high_mem_base pt) (39 + j)" by (rule base_is_window[OF assms(1,3)])
  have "unat (pt_ptr pt) < 2 ^ (39 + j)" using assms(3,4) by (simp add: power_add mult.commute)
  then have cr3: "pt_cr3 pt' = pt_ptr pt"
    using address_window.virt_phys_virt[OF w] assms(2)
    by (simp add: pt'_def switch_tables_def Let_def ptr_to_kernelspace_def phys_to_virt_def)
  have ok: "tables_ok S pt'" unfolding pt'_def by (rule virt_manager_init_ok[OF assms(1)])
  have fields: "pt_ptr pt' = pt_ptr pt" "pt_high_mem_base pt' = pt_high_mem_base pt"
    by (simp_all add: pt'_def switch_tables_def Let_def)
  have a: "unat p div 2 ^ 39 < num4 S" by (rule in_range[OF assms(5)])
  then have "unat p < 2 ^ (39 + j)" by (simp add: assms(3) power_add mult.commute div_less_iff_less_mult)
  then have "phys_to_virt (pt_high_mem_base pt) p = pt_high_mem_base pt' + p"
    using address_window.phys_to_virt_add[OF w] fields by simp
  moreover have "walk (table_entries S) pt' (pt_high_mem_base pt' + p) = Some p"
    by (rule mirror_mapped[OF ok _ assms(5)]) (simp add: cr3 fields)
  moreover have "unat p div 2 ^ 39 mod 512 < num4 S" using a by (meson le_less_trans mod_less_eq_dividend)
  from low_half_unmapped[OF assms(1) cr3[unfolded pt'_def] this] have "walk (table_entries S) pt' p = None"
    by (simp only: pt'_def)
  ultimately show ?thesis using cr3 by simp
qed

end
