(* ===== verification/Elf_Correct.thy ===== *)
theory Elf_Correct
  imports Elf
begin

text \<open>
  An abstract ELF loader on byte lists, and the refinement of \<open>prepare\<close> to it. The abstract loader
  checks every access: reading outside the file or the buffer, a dynamic table without a
  terminator and an unsupported relocation are \<open>None\<close>. Where it succeeds, the raw-pointer code
  returns normally with the same contents of the buffer, and writes nothing outside.
\<close>

section \<open>The abstract loader\<close>

definition slice :: "u8 list \<Rightarrow> nat \<Rightarrow> nat \<Rightarrow> u8 list option" where
  "slice bs off n = (if off + n \<le> length bs then Some (take n (drop off bs)) else None)"

definition patch :: "nat \<Rightarrow> u8 list \<Rightarrow> u8 list \<Rightarrow> u8 list option" where
  "patch off new bs =
     (if off + length new \<le> length bs then Some (take off bs @ new @ drop (off + length new) bs) else None)"

definition word_at :: "u8 list \<Rightarrow> nat \<Rightarrow> u64" where
  "word_at bs off = le_word (take 8 (drop off bs))"

definition spec_load :: "u8 list \<Rightarrow> segment_header \<Rightarrow> u8 list \<Rightarrow> u8 list option" where
  "spec_load file s bs =
     (if ph_data_size s \<le> ph_virt_size s then
        Option.bind (slice file (unat (ph_data_offset s)) (unat (ph_data_size s))) (\<lambda>data.
          patch (unat (ph_virt_addr s)) (data @ replicate (unat (ph_virt_size s) - unat (ph_data_size s)) 0) bs)
      else None)"

function spec_scan :: "u8 list \<Rightarrow> nat \<Rightarrow> u64 \<times> u64 \<Rightarrow> (u64 \<times> u64) option" where
  "spec_scan bs off acc =
     (if off + 16 \<le> length bs then
        if word_at bs off = 0 then Some acc
        else spec_scan bs (off + 16) (scan_entry \<lparr>de_tag = word_at bs off, de_value = word_at bs (off + 8)\<rparr> acc)
      else None)"
  by pat_completeness auto
termination by (relation "measure (\<lambda>(bs, off, acc). length bs - off)") auto

declare spec_scan.simps [simp del]

definition spec_relocate :: "u64 \<Rightarrow> nat \<Rightarrow> u8 list \<Rightarrow> u8 list option" where
  "spec_relocate base off bs =
     (if off + 24 \<le> length bs \<and> (ucast (word_at bs (off + 8)) :: u32) = R_RELATIVE then
        patch (unat (word_at bs off)) (le_bytes 8 (word_at bs (off + 16) + base)) bs
      else None)"

fun spec_fold :: "('a \<Rightarrow> 's \<Rightarrow> 's option) \<Rightarrow> 'a list \<Rightarrow> 's \<Rightarrow> 's option" where
  "spec_fold f [] s = Some s"
| "spec_fold f (x # xs) s = Option.bind (f x s) (spec_fold f xs)"

definition spec_dynamic :: "u64 \<Rightarrow> segment_header \<Rightarrow> u8 list \<Rightarrow> u8 list option" where
  "spec_dynamic base s bs =
     Option.bind (spec_scan bs (unat (ph_virt_addr s)) (0, 0)) (\<lambda>(rela_addr, rela_count).
       spec_fold (\<lambda>i. spec_relocate base (unat rela_addr + 24 * i)) [0..<unat rela_count] bs)"

definition spec_segment :: "u64 \<Rightarrow> u8 list \<Rightarrow> segment_header \<Rightarrow> u8 list \<Rightarrow> u8 list option" where
  "spec_segment base file s bs =
     (if ph_seg_type s = SEGTYPE_LOAD then spec_load file s bs
      else if ph_seg_type s = SEGTYPE_DYNAMIC then spec_dynamic base s bs
      else Some bs)"

definition spec_prepare :: "u64 \<Rightarrow> u8 list \<Rightarrow> segment_header list \<Rightarrow> u8 list \<Rightarrow> u8 list option" where
  "spec_prepare base file = spec_fold (spec_segment base file)"

section \<open>Regions of memory as lists\<close>

lemma load_slice:
  assumes "off + n \<le> k"
  shows "load m (a + of_nat off) n = take n (drop off (load m a k))"
proof -
  have "load m a k = load m a (off + (n + (k - off - n)))" using assms by simp
  also have "\<dots> = load m a off @ load m (a + of_nat off) n @ load m (a + of_nat off + of_nat n) (k - off - n)"
    by (simp only: load_add)
  finally show ?thesis by simp
qed

definition same_outside :: "u64 \<Rightarrow> nat \<Rightarrow> bytes \<Rightarrow> bytes \<Rightarrow> bool" where
  "same_outside a n m m' \<longleftrightarrow> (\<forall>x. n \<le> unat (x - a) \<longrightarrow> m' x = m x)"

lemma same_outside_refl [simp]: "same_outside a n m m"
  by (simp add: same_outside_def)

lemma same_outside_trans: "same_outside a n m m' \<Longrightarrow> same_outside a n m' m'' \<Longrightarrow> same_outside a n m m''"
  by (simp add: same_outside_def)

lemma load_outside: "same_outside b k m m' \<Longrightarrow> disjoint_regions a n b k \<Longrightarrow> load m' a n = load m a n"
  by (rule load_eqI) (simp add: same_outside_def disjoint_regions_def)

lemma unat_offset:
  assumes "off \<le> k" "k < 2 ^ 64"
  shows "unat (a + of_nat k - (a + of_nat off) :: u64) = k - off"
proof -
  have "a + of_nat k - (a + of_nat off) = (of_nat (k - off) :: u64)" using assms(1) by (simp add: of_nat_diff)
  moreover have "k - off < 2 ^ LENGTH(64)" using assms by simp
  ultimately show ?thesis by (simp only: unat_of_nat_small)
qed

lemma unat_offset_below:
  assumes "k < off" "off + n \<le> 2 ^ 64" "off < 2 ^ 64"
  shows "n \<le> unat (a + of_nat k - (a + of_nat off) :: u64)"
proof -
  have u: "unat (of_nat k :: u64) = k" "unat (of_nat off :: u64) = off"
    using assms by (intro unat_of_nat_small; simp)+
  have "unat (of_nat k - of_nat off :: u64) = 2 ^ 64 + k - off"
    using assms u unat_sub_if'[of "of_nat k :: u64" "of_nat off"] by (simp only: if_False) simp
  moreover have "a + of_nat k - (a + of_nat off) = (of_nat k - of_nat off :: u64)" by simp
  ultimately show ?thesis using assms by simp
qed

text \<open>A write inside the buffer is a patch of its contents.\<close>

lemma store_patch:
  assumes "patch off new (load m a n) = Some bs" "n \<le> 2 ^ 63"
  shows "load (store m (a + of_nat off) new) a n = bs" "same_outside a n m (store m (a + of_nat off) new)"
proof -
  have le: "off + length new \<le> n" and bs: "bs = take off (load m a n) @ new @ drop (off + length new) (load m a n)"
    using assms(1) by (auto simp: patch_def split: if_splits)
  have st: "store m (a + of_nat off) new x =
      (if unat (x - (a + of_nat off)) < length new then new ! unat (x - (a + of_nat off)) else m x)" for x
    using le assms(2) by (intro store_nth) simp
  show "load (store m (a + of_nat off) new) a n = bs"
  proof (rule nth_equalityI)
    show "length (load (store m (a + of_nat off) new) a n) = length bs" using le by (simp add: bs)
    fix k assume "k < length (load (store m (a + of_nat off) new) a n)"
    then have k: "k < n" by simp
    then have l: "load (store m (a + of_nat off) new) a n ! k = store m (a + of_nat off) new (a + of_nat k)"
      by (simp add: load_nth)
    show "load (store m (a + of_nat off) new) a n ! k = bs ! k"
    proof (cases "k < off")
      case True
      have "length new \<le> unat (a + of_nat k - (a + of_nat off))"
        using unat_offset_below[OF True] le assms(2) by simp
      then show ?thesis using True k le by (simp add: l st bs nth_append load_nth)
    next
      case False
      then have "unat (a + of_nat k - (a + of_nat off)) = k - off"
        using unat_offset k assms(2) by simp
      then show ?thesis using False k le by (auto simp: l st bs nth_append load_nth)
    qed
  qed
  show "same_outside a n m (store m (a + of_nat off) new)"
    unfolding same_outside_def
  proof (intro allI impI)
    fix x assume x: "n \<le> unat (x - a)"
    have "x - (a + of_nat off) = (x - a) - of_nat off" by simp
    moreover have o: "unat (of_nat off :: u64) = off" using le assms(2) by (intro unat_of_nat_small) simp
    moreover have "(of_nat off :: u64) \<le> x - a" using o x le by (simp add: word_le_nat_alt)
    ultimately have "unat (x - (a + of_nat off)) = unat (x - a) - off" by (simp only: unat_sub_checked)
    then have "\<not> unat (x - (a + of_nat off)) < length new" using x le by linarith
    then show "store m (a + of_nat off) new x = m x" by (simp only: st if_False)
  qed
qed

lemma fill_is_store: "n \<le> 2 ^ 64 \<Longrightarrow> fill_bytes m a n v = store m a (replicate n v)"
  by (rule ext) (simp add: fill_bytes_def store_nth)

lemma store_append: "store (store m a xs) (a + of_nat (length xs)) ys = store m a (xs @ ys)"
proof (induction xs arbitrary: m a)
  case (Cons x xs)
  have "a + of_nat (length (x # xs)) = a + 1 + (of_nat (length xs) :: u64)" by (simp add: add.assoc)
  then show ?case by (simp only: Cons.IH store.simps append_Cons)
qed simp

section \<open>Refinement\<close>

lemma rd64_buffer: "off + 8 \<le> n \<Longrightarrow> rd64 m (a + of_nat off) = word_at (load m a n) off"
  by (simp add: rd64_def word_at_def load_slice[of off 8 n])

lemma load_segment_refines:
  assumes "spec_load (load m img k) s (load m dest n) = Some bs" "n \<le> 2 ^ 63"
  shows "\<exists>m'. load_segment img dest s m = Inr m' \<and> load m' dest n = bs \<and> same_outside dest n m m'"
proof -
  let ?ds = "unat (ph_data_size s)" and ?vs = "unat (ph_virt_size s)"
  let ?data = "load m (img + ph_data_offset s) ?ds"
  have le: "ph_data_size s \<le> ph_virt_size s" and inside: "unat (ph_data_offset s) + ?ds \<le> k"
    and p: "patch (unat (ph_virt_addr s)) (take ?ds (drop (unat (ph_data_offset s)) (load m img k)) @ replicate (?vs - ?ds) 0) (load m dest n) = Some bs"
    using assms(1) by (auto simp: spec_load_def slice_def split: if_splits)
  have data: "take ?ds (drop (unat (ph_data_offset s)) (load m img k)) = ?data"
    using load_slice[OF inside, of m img] by simp
  have v: "?vs < 2 ^ LENGTH(64)" by (rule unsigned_less)
  have fill: "fill_bytes m1 (dest + ph_virt_addr s + ph_data_size s) (?vs - ?ds) 0 =
      store m1 (dest + ph_virt_addr s + ph_data_size s) (replicate (?vs - ?ds) 0)" for m1
    by (rule fill_is_store) (use v in simp)
  have "load_segment img dest s m = Inr (store m (dest + of_nat (unat (ph_virt_addr s))) (?data @ replicate (?vs - ?ds) 0))"
    using le store_append[of m "dest + ph_virt_addr s" ?data "replicate (?vs - ?ds) 0"]
    by (simp add: load_segment_def Let_def checked_sub_def unat_sub_checked fill)
  with store_patch[OF p[unfolded data] assms(2)] show ?thesis by blast
qed

lemma scan_dynamic_refines:
  "spec_scan (load m dest n) off acc = Some r \<Longrightarrow> scan_dynamic m (dest + of_nat off) acc = Some r"
proof (induction "load m dest n" off acc rule: spec_scan.induct)
  case (1 off acc)
  from "1.prems" have le: "off + 16 \<le> n" by (subst (asm) spec_scan.simps) (simp split: if_splits)
  have de: "read_dynamic_entry m (dest + of_nat off) =
      \<lparr>de_tag = word_at (load m dest n) off, de_value = word_at (load m dest n) (off + 8)\<rparr>"
    using le rd64_buffer[of off n m dest] rd64_buffer[of "off + 8" n m dest]
    by (simp add: read_dynamic_entry_def add.assoc)
  show ?case
  proof (cases "word_at (load m dest n) off = 0")
    case True
    with "1.prems" le show ?thesis
      by (subst scan_dynamic.simps) (subst (asm) spec_scan.simps, simp add: de)
  next
    case False
    with "1.prems" le have "spec_scan (load m dest n) (off + 16)
        (scan_entry \<lparr>de_tag = word_at (load m dest n) off, de_value = word_at (load m dest n) (off + 8)\<rparr> acc) = Some r"
      by (subst (asm) spec_scan.simps) simp
    from "1.hyps"[OF _ False this] le False show ?thesis
      by (subst scan_dynamic.simps) (simp add: de add.assoc)
  qed
qed

lemma relocate_refines:
  assumes "spec_relocate dest off (load m dest n) = Some bs" "n \<le> 2 ^ 63" "unat dest + n \<le> 2 ^ 64"
  shows "\<exists>m'. relocate dest (dest + of_nat off) m = Inr m' \<and> load m' dest n = bs \<and> same_outside dest n m m'"
proof -
  have le: "off + 24 \<le> n" and ty: "(ucast (word_at (load m dest n) (off + 8)) :: u32) = R_RELATIVE"
    and p: "patch (unat (word_at (load m dest n) off)) (le_bytes 8 (word_at (load m dest n) (off + 16) + dest)) (load m dest n) = Some bs"
    using assms(1) by (auto simp: spec_relocate_def split: if_splits)
  let ?w = "word_at (load m dest n) off"
  have rd: "read_rel_a m (dest + of_nat off) =
      \<lparr>ra_addr = ?w, ra_info = word_at (load m dest n) (off + 8), ra_addend = word_at (load m dest n) (off + 16)\<rparr>"
    using le rd64_buffer[of off n m dest] rd64_buffer[of "off + 8" n m dest] rd64_buffer[of "off + 16" n m dest]
    by (simp add: read_rel_a_def add.assoc)
  have "unat ?w + 8 \<le> n" using p by (simp add: patch_def split: if_splits)
  then have "checked_add dest ?w = Inr (dest + ?w)" using assms(3) by (simp add: checked_add_def)
  then have "relocate dest (dest + of_nat off) m =
      Inr (store m (dest + of_nat (unat ?w)) (le_bytes 8 (word_at (load m dest n) (off + 16) + dest)))"
    by (simp add: relocate_def rd ty Let_def del: le_bytes_numeral)
  with store_patch[OF p assms(2)] show ?thesis by blast
qed

lemma spec_fold_refines:
  assumes "spec_fold f xs t = Some t'" "R s t"
    and "\<And>x s t t'. x \<in> set xs \<Longrightarrow> R s t \<Longrightarrow> f x t = Some t' \<Longrightarrow> \<exists>s'. g x s = Inr s' \<and> R s' t'"
  shows "\<exists>s'. for_each xs g s = Inr s' \<and> R s' t'"
  using assms
proof (induction xs arbitrary: s t)
  case (Cons x xs)
  from Cons.prems(1) obtain u where u: "f x t = Some u" "spec_fold f xs u = Some t'"
    by (auto simp: bind_eq_Some_conv)
  from Cons.prems(3)[OF _ Cons.prems(2) u(1)] obtain s' where s': "g x s = Inr s'" "R s' u" by auto
  from Cons.IH[OF u(2) s'(2) Cons.prems(3)] s'(1) show ?case by simp
qed simp

lemma spec_fold_map: "spec_fold f (map h xs) s = spec_fold (\<lambda>x. f (h x)) xs s"
  by (induction xs arbitrary: s) (simp_all cong: Option.bind_cong)

lemma relocate_dynamic_refines:
  assumes "spec_dynamic dest s (load m dest n) = Some bs" "n \<le> 2 ^ 63" "unat dest + n \<le> 2 ^ 64"
  shows "\<exists>m'. relocate_dynamic dest s m = Inr m' \<and> load m' dest n = bs \<and> same_outside dest n m m'"
proof -
  obtain ra rc where sc: "spec_scan (load m dest n) (unat (ph_virt_addr s)) (0, 0) = Some (ra, rc)"
    and fo: "spec_fold (\<lambda>i. spec_relocate dest (unat ra + 24 * i)) [0..<unat rc] (load m dest n) = Some bs"
    using assms(1) by (auto simp: spec_dynamic_def bind_eq_Some_conv)
  let ?R = "\<lambda>m' bs. load m' dest n = bs \<and> same_outside dest n m m'"
  have "\<exists>m'. for_each [0..<unat rc] (\<lambda>i. relocate dest (dest + ra + of_nat (24 * i))) m = Inr m' \<and> ?R m' bs"
  proof (rule spec_fold_refines[OF fo])
    fix i m1 bs1 bs2
    assume R: "?R m1 bs1" and st: "spec_relocate dest (unat ra + 24 * i) bs1 = Some bs2"
    then have "spec_relocate dest (unat ra + 24 * i) (load m1 dest n) = Some bs2" by simp
    from relocate_refines[OF this assms(2,3)] obtain m2 where m2:
      "relocate dest (dest + of_nat (unat ra + 24 * i)) m1 = Inr m2" "load m2 dest n = bs2" "same_outside dest n m1 m2" by blast
    have "dest + of_nat (unat ra + 24 * i) = dest + ra + of_nat (24 * i)" by (simp add: add.assoc)
    with m2 R show "\<exists>m2. relocate dest (dest + ra + of_nat (24 * i)) m1 = Inr m2 \<and> ?R m2 bs2"
      using same_outside_trans by metis
  qed simp
  moreover have "scan_dynamic m (dest + ph_virt_addr s) (0, 0) = Some (ra, rc)"
    using scan_dynamic_refines[OF sc] by simp
  ultimately show ?thesis by (simp add: relocate_dynamic_def for_range_def)
qed

text \<open>The tables of the file are read again while the buffer is written; they do not change.\<close>

definition tables_outside :: "bytes \<Rightarrow> u64 \<Rightarrow> u64 \<Rightarrow> nat \<Rightarrow> bool" where
  "tables_outside m img dest n \<longleftrightarrow>
     disjoint_regions img 64 dest n \<and>
     disjoint_regions (img + hdr_ph_offset (read_header m img)) (SIZE_SEGMENT_HEADER * ph_count m img) dest n"

lemma disjoint_regions_sub:
  "disjoint_regions a n b k \<Longrightarrow> i + l \<le> n \<Longrightarrow> disjoint_regions (a + of_nat i) l b k"
  unfolding disjoint_regions_def
proof (intro allI impI)
  fix j assume d: "\<forall>i<n. k \<le> unat (a + of_nat i - b)" and "i + l \<le> n" "j < l"
  then have "k \<le> unat (a + of_nat (i + j) - b)" by (intro d[rule_format]) linarith
  then show "k \<le> unat (a + of_nat i + of_nat j - b)" by (simp add: add.assoc)
qed

text \<open>A structure is determined by the bytes it occupies.\<close>

lemma load_part:
  "load m a k = load m' a' k \<Longrightarrow> i + n \<le> k \<Longrightarrow> load m (a + of_nat i) n = load m' (a' + of_nat i) n"
  by (simp add: load_slice[of i n k])

lemma read_header_cong:
  assumes "load m a 64 = load m' a' 64"
  shows "read_header m a = read_header m' a'"
proof -
  note l = load_part[OF assms]
  have b: "m (a + of_nat i) = m' (a' + of_nat i)" if "i < 64" for i using l[of i 1] that by simp
  show ?thesis
    using l[of 0 4] b[of 4] b[of 5] b[of 6] b[of 7] l[of 8 8] l[of 16 2] l[of 18 2] l[of 20 4] l[of 24 8] l[of 32 8]
      l[of 40 8] l[of 48 4] l[of 52 2] l[of 54 2] l[of 56 2] l[of 58 2] l[of 60 2] l[of 62 2]
    by (simp add: read_header_def rd16_def rd32_def rd64_def del: load.simps)
qed

lemma read_segment_header_cong:
  assumes "load m a 56 = load m' a' 56"
  shows "read_segment_header m a = read_segment_header m' a'"
proof -
  note l = load_part[OF assms]
  show ?thesis
    using l[of 0 4] l[of 4 4] l[of 8 8] l[of 16 8] l[of 24 8] l[of 32 8] l[of 40 8] l[of 48 8]
    by (simp add: read_segment_header_def rd32_def rd64_def del: load.simps)
qed

lemma read_section_header_cong:
  assumes "load m a 64 = load m' a' 64"
  shows "read_section_header m a = read_section_header m' a'"
proof -
  note l = load_part[OF assms]
  show ?thesis
    using l[of 0 4] l[of 4 4] l[of 8 8] l[of 16 8] l[of 24 8] l[of 32 8] l[of 40 4] l[of 44 4] l[of 48 8] l[of 56 8]
    by (simp add: read_section_header_def rd32_def rd64_def del: load.simps)
qed

lemma header_outside:
  "same_outside dest n m m' \<Longrightarrow> disjoint_regions img 64 dest n \<Longrightarrow> read_header m' img = read_header m img"
  by (rule read_header_cong, rule load_outside)

lemma ph_entry_outside:
  assumes "same_outside dest n m m'" "tables_outside m img dest n" "i < ph_count m img"
  shows "ph_entry m' img i = ph_entry m img i"
proof -
  have h: "read_header m' img = read_header m img"
    by (rule header_outside[OF assms(1)]) (use assms(2) in \<open>simp add: tables_outside_def\<close>)
  let ?a = "img + hdr_ph_offset (read_header m img) + of_nat (SIZE_SEGMENT_HEADER * i)"
  have "SIZE_SEGMENT_HEADER * i + SIZE_SEGMENT_HEADER \<le> SIZE_SEGMENT_HEADER * ph_count m img"
    using assms(3) mult_le_mono2[of "Suc i" "ph_count m img" SIZE_SEGMENT_HEADER] by (simp add: add.commute)
  then have d: "disjoint_regions ?a 56 dest n"
    using assms(2) disjoint_regions_sub[of "img + hdr_ph_offset (read_header m img)" _ dest n "SIZE_SEGMENT_HEADER * i" 56]
    unfolding tables_outside_def SIZE_SEGMENT_HEADER_def by blast
  have "read_segment_header m' ?a = read_segment_header m ?a"
    by (rule read_segment_header_cong, rule load_outside[OF assms(1) d])
  then show ?thesis by (simp add: ph_entry_def h)
qed

lemma prepare_segment_refines:
  assumes "spec_segment dest (load m img k) s (load m dest n) = Some bs" "n \<le> 2 ^ 63" "unat dest + n \<le> 2 ^ 64"
  shows "\<exists>m'. prepare_segment img dest s m = Inr m' \<and> load m' dest n = bs \<and> same_outside dest n m m'"
proof -
  consider (load) "ph_seg_type s = SEGTYPE_LOAD" | (dyn) "ph_seg_type s \<noteq> SEGTYPE_LOAD" "ph_seg_type s = SEGTYPE_DYNAMIC"
    | (other) "ph_seg_type s \<noteq> SEGTYPE_LOAD" "ph_seg_type s \<noteq> SEGTYPE_DYNAMIC" by blast
  then show ?thesis
  proof cases
    case load
    then show ?thesis using load_segment_refines[OF _ assms(2)] assms(1)
      unfolding spec_segment_def prepare_segment_def if_P[OF load] by blast
  next
    case dyn
    then show ?thesis using relocate_dynamic_refines[OF _ assms(2,3)] assms(1)
      unfolding spec_segment_def prepare_segment_def if_not_P[OF dyn(1)] if_P[OF dyn(2)] by blast
  next
    case other
    then show ?thesis using assms(1) by (simp add: spec_segment_def prepare_segment_def)
  qed
qed

text \<open>The refinement of the whole loader.\<close>

lemma prepare_refines:
  assumes sp: "spec_prepare dest (load m img k) (ph_list m img) (load m dest n) = Some bs"
    and n: "n \<le> 2 ^ 63" "unat dest + n \<le> 2 ^ 64"
    and out: "tables_outside m img dest n" "disjoint_regions img k dest n"
    and entry: "unat (hdr_entry_point (read_header m img)) < n"
  shows "\<exists>m'. prepare img dest m = Inr (m', dest + hdr_entry_point (read_header m img)) \<and>
           load m' dest n = bs \<and> same_outside dest n m m'"
proof -
  let ?R = "\<lambda>m' bs. load m' dest n = bs \<and> same_outside dest n m m'"
  have fo: "spec_fold (\<lambda>i. spec_segment dest (load m img k) (ph_entry m img i)) [0..<ph_count m img] (load m dest n) = Some bs"
    using sp by (simp add: spec_prepare_def ph_list_def spec_fold_map)
  have "\<exists>m'. for_each [0..<ph_count m img] (\<lambda>i m. prepare_segment img dest (ph_entry m img i) m) m = Inr m' \<and> ?R m' bs"
  proof (rule spec_fold_refines[OF fo])
    fix i m1 bs1 bs2
    assume i: "i \<in> set [0..<ph_count m img]" and R: "?R m1 bs1"
      and st: "spec_segment dest (load m img k) (ph_entry m img i) bs1 = Some bs2"
    have e: "ph_entry m1 img i = ph_entry m img i" by (rule ph_entry_outside[OF conjunct2[OF R] out(1)]) (use i in simp)
    have f: "load m img k = load m1 img k" by (rule load_outside[OF conjunct2[OF R] out(2), symmetric])
    have st': "spec_segment dest (load m1 img k) (ph_entry m img i) (load m1 dest n) = Some bs2" using st R unfolding f by blast
    have "\<exists>m2. prepare_segment img dest (ph_entry m img i) m1 = Inr m2 \<and> load m2 dest n = bs2 \<and> same_outside dest n m1 m2"
      by (rule prepare_segment_refines[OF st' n])
    with R same_outside_trans show "\<exists>m2. prepare_segment img dest (ph_entry m1 img i) m1 = Inr m2 \<and> ?R m2 bs2"
      unfolding e by blast
  qed simp
  then obtain m' where m': "for_range 0 (ph_count m img) (\<lambda>i m. prepare_segment img dest (ph_entry m img i) m) m = Inr m'"
      "load m' dest n = bs" "same_outside dest n m m'" by (auto simp: for_range_def)
  have "read_header m' img = read_header m img"
    by (rule header_outside[OF m'(3)]) (use out(1) in \<open>simp add: tables_outside_def\<close>)
  moreover have "checked_add dest (hdr_entry_point (read_header m img)) = Inr (dest + hdr_entry_point (read_header m img))"
    using entry n(2) by (simp add: checked_add_def)
  ultimately have "prepare img dest m = Inr (m', dest + hdr_entry_point (read_header m img))"
    by (simp add: prepare_def m'(1))
  with m' show ?thesis by blast
qed

end
