(* ===== verification/Elf_Image.thy ===== *)
theory Elf_Image
  imports Elf_Correct
begin

text \<open>
  What the abstract loader produces: the contents of the loadable segments, and the effect of the
  relocations on them. A byte is either that of its segment or belongs to a relocated word.
\<close>

section \<open>Patches\<close>

lemma patch_nth:
  assumes "patch off new bs = Some bs'" "k < length bs"
  shows "bs' ! k = (if off \<le> k \<and> k < off + length new then new ! (k - off) else bs ! k)"
proof -
  have "off + length new \<le> length bs" "bs' = take off bs @ new @ drop (off + length new) bs"
    using assms(1) by (auto simp: patch_def split: if_splits)
  with assms(2) show ?thesis by (auto simp: nth_append)
qed

lemma patch_length: "patch off new bs = Some bs' \<Longrightarrow> off + length new \<le> length bs \<and> length bs' = length bs"
  by (auto simp: patch_def split: if_splits)

lemma word_at_patch:
  assumes "patch off (le_bytes 8 w) bs = Some bs'"
  shows "word_at bs' off = w"
proof -
  have le: "off + 8 \<le> length bs" and bs': "bs' = take off bs @ le_bytes 8 w @ drop (off + 8) bs"
    using assms by (auto simp: patch_def simp del: le_bytes_numeral split: if_splits)
  have "take 8 (drop off bs') = le_bytes 8 w" using le by (simp add: bs' del: le_bytes_numeral)
  then show ?thesis by (simp add: word_at_def le_word_le_bytes_full del: le_bytes_numeral)
qed

lemma word_at_eqI:
  assumes "\<And>k. off \<le> k \<Longrightarrow> k < off + 8 \<Longrightarrow> bs' ! k = bs ! k" "length bs' = length bs" "off + 8 \<le> length bs"
  shows "word_at bs' off = word_at bs off"
proof -
  have "take 8 (drop off bs') = take 8 (drop off bs)"
    by (rule nth_equalityI) (use assms in auto)
  then show ?thesis by (simp add: word_at_def)
qed

section \<open>Loadable segments\<close>

text \<open>The bytes a segment asks for, and the offsets it occupies.\<close>

definition segment_bytes :: "u8 list \<Rightarrow> segment_header \<Rightarrow> nat \<Rightarrow> u8" where
  "segment_bytes file s k = (if k < unat (ph_data_size s) then file ! (unat (ph_data_offset s) + k) else 0)"

definition segment_span :: "segment_header \<Rightarrow> nat set" where
  "segment_span s = {unat (ph_virt_addr s)..<unat (ph_virt_addr s) + unat (ph_virt_size s)}"

definition is_load :: "segment_header \<Rightarrow> bool" where
  "is_load s \<longleftrightarrow> ph_seg_type s = SEGTYPE_LOAD"

definition is_dynamic :: "segment_header \<Rightarrow> bool" where
  "is_dynamic s \<longleftrightarrow> ph_seg_type s = SEGTYPE_DYNAMIC"

lemma spec_load_nth:
  assumes "spec_load file s bs = Some bs'" "k < length bs"
  shows "bs' ! k = (if k \<in> segment_span s then segment_bytes file s (k - unat (ph_virt_addr s)) else bs ! k)"
    "length bs' = length bs"
proof -
  let ?new = "take (unat (ph_data_size s)) (drop (unat (ph_data_offset s)) file) @ replicate (unat (ph_virt_size s) - unat (ph_data_size s)) 0"
  have le: "unat (ph_data_size s) \<le> unat (ph_virt_size s)" "unat (ph_data_offset s) + unat (ph_data_size s) \<le> length file"
    and p: "patch (unat (ph_virt_addr s)) ?new bs = Some bs'"
    using assms(1) by (auto simp: spec_load_def slice_def word_le_nat_alt split: if_splits)
  have l: "length ?new = unat (ph_virt_size s)" using le by simp
  have "?new ! j = segment_bytes file s j" if "j < unat (ph_virt_size s)" for j
    using that le by (simp add: nth_append segment_bytes_def)
  with patch_nth[OF p assms(2)] l show "bs' ! k = (if k \<in> segment_span s then segment_bytes file s (k - unat (ph_virt_addr s)) else bs ! k)"
    by (auto simp: segment_span_def)
  show "length bs' = length bs" using patch_length[OF p] by simp
qed

lemma spec_load_span: "spec_load file s bs = Some bs' \<Longrightarrow> segment_span s \<subseteq> {..<length bs}"
  by (auto simp: spec_load_def slice_def word_le_nat_alt segment_span_def dest!: patch_length split: if_splits)

text \<open>Segments that do not overlap are loaded as if each were alone.\<close>

lemma spec_loads_contents:
  assumes "spec_prepare base file segs bs = Some bs'" "\<forall>s\<in>set segs. \<not> is_dynamic s"
    and "sorted_wrt (\<lambda>s t. segment_span s \<inter> segment_span t = {}) (filter is_load segs)"
  shows "length bs' = length bs"
    and "s \<in> set segs \<Longrightarrow> is_load s \<Longrightarrow> k \<in> segment_span s \<Longrightarrow>
      k < length bs \<and> bs' ! k = segment_bytes file s (k - unat (ph_virt_addr s))"
    and "k < length bs \<Longrightarrow> \<forall>s\<in>set segs. is_load s \<longrightarrow> k \<notin> segment_span s \<Longrightarrow> bs' ! k = bs ! k"
proof -
  have "length bs' = length bs \<and>
     (\<forall>s\<in>set segs. is_load s \<longrightarrow> (\<forall>k\<in>segment_span s. k < length bs \<and> bs' ! k = segment_bytes file s (k - unat (ph_virt_addr s)))) \<and>
     (\<forall>k<length bs. (\<forall>s\<in>set segs. is_load s \<longrightarrow> k \<notin> segment_span s) \<longrightarrow> bs' ! k = bs ! k)"
    using assms
  proof (induction segs arbitrary: bs)
    case Nil
    then show ?case by (simp add: spec_prepare_def)
  next
    case (Cons t segs)
    from Cons.prems(1) obtain bs1 where st: "spec_segment base file t bs = Some bs1" "spec_prepare base file segs bs1 = Some bs'"
      by (auto simp: spec_prepare_def bind_eq_Some_conv)
    have nd: "ph_seg_type t \<noteq> SEGTYPE_DYNAMIC" using Cons.prems(2) by (simp add: is_dynamic_def)
    show ?case
    proof (cases "is_load t")
      case False
      then have "bs1 = bs" using st(1) nd by (simp add: spec_segment_def is_load_def)
      with Cons.IH[OF st(2)] Cons.prems False show ?thesis by simp
    next
      case True
      then have ld: "spec_load file t bs = Some bs1" using st(1) by (simp add: spec_segment_def is_load_def)
      note nth = spec_load_nth(1)[OF ld] and span = spec_load_span[OF ld]
      have l1: "length bs1 = length bs"
        using ld by (auto simp: spec_load_def bind_eq_Some_conv dest: patch_length split: if_splits)
      have dis: "\<forall>s\<in>set segs. is_load s \<longrightarrow> segment_span t \<inter> segment_span s = {}"
        using Cons.prems(3) True by simp
      have IH: "length bs' = length bs1"
        "\<forall>s\<in>set segs. is_load s \<longrightarrow> (\<forall>k\<in>segment_span s. k < length bs1 \<and> bs' ! k = segment_bytes file s (k - unat (ph_virt_addr s)))"
        "\<forall>k<length bs1. (\<forall>s\<in>set segs. is_load s \<longrightarrow> k \<notin> segment_span s) \<longrightarrow> bs' ! k = bs1 ! k"
        using Cons.IH[OF st(2)] Cons.prems(2,3) True by simp_all
      have "k < length bs \<and> bs' ! k = segment_bytes file t (k - unat (ph_virt_addr t))" if "k \<in> segment_span t" for k
      proof -
        have "k < length bs" using that span by auto
        moreover have "\<forall>s\<in>set segs. is_load s \<longrightarrow> k \<notin> segment_span s" using dis that by blast
        ultimately show ?thesis using IH(3) nth[of k] l1 that by simp
      qed
      with IH nth l1 True show ?thesis by simp
    qed
  qed
  then show "length bs' = length bs"
    and "s \<in> set segs \<Longrightarrow> is_load s \<Longrightarrow> k \<in> segment_span s \<Longrightarrow>
      k < length bs \<and> bs' ! k = segment_bytes file s (k - unat (ph_virt_addr s))"
    and "k < length bs \<Longrightarrow> \<forall>s\<in>set segs. is_load s \<longrightarrow> k \<notin> segment_span s \<Longrightarrow> bs' ! k = bs ! k" by blast+
qed

section \<open>Relocations\<close>

text \<open>
  The relocation table at offset \<open>ra\<close>: the word each entry patches and the value it gets when the
  image is loaded at \<open>base\<close>. A table is proper when the patched words overlap neither each
  other nor the table.
\<close>

definition reloc_addr :: "u8 list \<Rightarrow> nat \<Rightarrow> nat \<Rightarrow> nat" where
  "reloc_addr bs ra i = unat (word_at bs (ra + 24 * i))"

definition reloc_value :: "u64 \<Rightarrow> u8 list \<Rightarrow> nat \<Rightarrow> nat \<Rightarrow> u64" where
  "reloc_value base bs ra i = word_at bs (ra + 24 * i + 16) + base"

definition reloc_span :: "u8 list \<Rightarrow> nat \<Rightarrow> nat \<Rightarrow> nat set" where
  "reloc_span bs ra i = {reloc_addr bs ra i..<reloc_addr bs ra i + 8}"

definition proper_relocs :: "u8 list \<Rightarrow> nat \<Rightarrow> nat \<Rightarrow> bool" where
  "proper_relocs bs ra rc \<longleftrightarrow>
     (\<forall>i<rc. reloc_span bs ra i \<inter> {ra..<ra + 24 * rc} = {}) \<and>
     (\<forall>j<rc. \<forall>i<j. reloc_span bs ra i \<inter> reloc_span bs ra j = {})"

lemma spec_fold_append: "spec_fold f (xs @ ys) s = Option.bind (spec_fold f xs s) (spec_fold f ys)"
  by (induction xs arbitrary: s) (simp_all cong: Option.bind_cong)

lemma reloc_table_kept:
  assumes "proper_relocs bs ra rc" "c < rc" "ra + 24 * c + 24 \<le> length bs" "length bs' = length bs"
    and "\<And>k. k < length bs \<Longrightarrow> \<forall>i<c. k \<notin> reloc_span bs ra i \<Longrightarrow> bs' ! k = bs ! k" "d + 8 \<le> 24"
  shows "word_at bs' (ra + 24 * c + d) = word_at bs (ra + 24 * c + d)"
proof (rule word_at_eqI)
  fix k assume k: "ra + 24 * c + d \<le> k" "k < ra + 24 * c + d + 8"
  then have "k \<in> {ra..<ra + 24 * rc}" using assms(2,6) by simp
  then have "\<forall>i<c. k \<notin> reloc_span bs ra i"
    using assms(1,2) unfolding proper_relocs_def by (meson disjoint_iff less_trans)
  then show "bs' ! k = bs ! k" using assms(3,5,6) k by simp
qed (use assms(3,4,6) in auto)

lemma spec_relocs_contents:
  assumes "proper_relocs bs ra rc" "c \<le> rc"
    and "spec_fold (\<lambda>i. spec_relocate base (ra + 24 * i)) [0..<c] bs = Some bs'"
  shows "length bs' = length bs" "i < c \<Longrightarrow> word_at bs' (reloc_addr bs ra i) = reloc_value base bs ra i"
    "k < length bs \<Longrightarrow> \<forall>i<c. k \<notin> reloc_span bs ra i \<Longrightarrow> bs' ! k = bs ! k"
    "i < c \<Longrightarrow> reloc_addr bs ra i + 8 \<le> length bs"
proof -
  have "length bs' = length bs \<and>
      (\<forall>i<c. reloc_addr bs ra i + 8 \<le> length bs \<and> word_at bs' (reloc_addr bs ra i) = reloc_value base bs ra i) \<and>
      (\<forall>k<length bs. (\<forall>i<c. k \<notin> reloc_span bs ra i) \<longrightarrow> bs' ! k = bs ! k)"
    using assms(2,3)
  proof (induction c arbitrary: bs')
    case 0
    then show ?case by simp
  next
    case (Suc c)
    from Suc.prems(2) obtain bs1 where st: "spec_fold (\<lambda>i. spec_relocate base (ra + 24 * i)) [0..<c] bs = Some bs1"
        "spec_relocate base (ra + 24 * c) bs1 = Some bs'"
      by (auto simp: spec_fold_append bind_eq_Some_conv)
    with Suc.IH Suc.prems(1) have IH: "length bs1 = length bs"
        "\<And>i. i < c \<Longrightarrow> reloc_addr bs ra i + 8 \<le> length bs \<and> word_at bs1 (reloc_addr bs ra i) = reloc_value base bs ra i"
        "\<And>k. k < length bs \<Longrightarrow> \<forall>i<c. k \<notin> reloc_span bs ra i \<Longrightarrow> bs1 ! k = bs ! k" by auto
    have le: "ra + 24 * c + 24 \<le> length bs" using st(2) IH(1) by (simp add: spec_relocate_def split: if_splits)
    have table: "word_at bs1 (ra + 24 * c + d) = word_at bs (ra + 24 * c + d)" if "d + 8 \<le> 24" for d
      using reloc_table_kept[OF assms(1) _ le IH(1) _ that] IH(3) Suc.prems(1) by simp
    have p: "patch (reloc_addr bs ra c) (le_bytes 8 (reloc_value base bs ra c)) bs1 = Some bs'"
      using st(2) table[of 0] table[of 16]
      by (auto simp: spec_relocate_def reloc_addr_def reloc_value_def simp del: le_bytes_numeral split: if_splits)
    have fits: "reloc_addr bs ra c + 8 \<le> length bs" and len: "length bs' = length bs"
      using patch_length[OF p] IH(1) by simp_all
    have nth: "bs' ! k = bs1 ! k" if "k < length bs" "k \<notin> reloc_span bs ra c" for k
      using patch_nth[OF p, of k] that IH(1) by (auto simp: reloc_span_def simp del: le_bytes_numeral)
    have "word_at bs' (reloc_addr bs ra i) = reloc_value base bs ra i" if i: "i < c" for i
    proof -
      have "reloc_span bs ra i \<inter> reloc_span bs ra c = {}" using assms(1) Suc.prems(1) i by (simp add: proper_relocs_def)
      then have "word_at bs' (reloc_addr bs ra i) = word_at bs1 (reloc_addr bs ra i)"
        using IH(2)[OF i] IH(1) len by (intro word_at_eqI nth) (auto simp: reloc_span_def)
      with IH(2)[OF i] show ?thesis by simp
    qed
    with len fits IH nth word_at_patch[OF p] show ?case by (auto simp: less_Suc_eq)
  qed
  then show "length bs' = length bs" "i < c \<Longrightarrow> word_at bs' (reloc_addr bs ra i) = reloc_value base bs ra i"
    "k < length bs \<Longrightarrow> \<forall>i<c. k \<notin> reloc_span bs ra i \<Longrightarrow> bs' ! k = bs ! k"
    "i < c \<Longrightarrow> reloc_addr bs ra i + 8 \<le> length bs" by blast+
qed

text \<open>Sufficient conditions for the abstract loader to succeed.\<close>

definition fits :: "nat \<Rightarrow> nat \<Rightarrow> segment_header \<Rightarrow> bool" where
  "fits k n s \<longleftrightarrow>
     ph_data_size s \<le> ph_virt_size s \<and> unat (ph_data_offset s) + unat (ph_data_size s) \<le> k \<and>
     unat (ph_virt_addr s) + unat (ph_virt_size s) \<le> n"

lemma spec_load_succeeds: "fits (length file) (length bs) s \<Longrightarrow> \<exists>bs'. spec_load file s bs = Some bs'"
  by (auto simp: fits_def spec_load_def slice_def patch_def word_le_nat_alt min_absorb2)

lemma spec_loads_succeed:
  assumes "\<forall>s\<in>set segs. \<not> is_dynamic s \<and> (is_load s \<longrightarrow> fits (length file) (length bs) s)"
  shows "\<exists>bs'. spec_prepare base file segs bs = Some bs'"
  using assms
proof (induction segs arbitrary: bs)
  case Nil
  then show ?case by (simp add: spec_prepare_def)
next
  case (Cons s segs)
  obtain bs1 where bs1: "spec_segment base file s bs = Some bs1" "length bs1 = length bs"
  proof (cases "is_load s")
    case True
    then obtain bs1 where ld: "spec_load file s bs = Some bs1" using spec_load_succeeds[of "file" "bs" "s"] Cons.prems by auto
    then have "length bs1 = length bs"
      by (auto simp: spec_load_def bind_eq_Some_conv dest: patch_length split: if_splits)
    with that True ld show ?thesis by (simp add: spec_segment_def is_load_def)
  qed (use that Cons.prems in \<open>simp add: spec_segment_def is_load_def is_dynamic_def\<close>)
  from Cons.IH[of bs1] Cons.prems bs1 show ?case by (simp add: spec_prepare_def)
qed

definition relocs_ok :: "u8 list \<Rightarrow> nat \<Rightarrow> nat \<Rightarrow> bool" where
  "relocs_ok bs ra rc \<longleftrightarrow> proper_relocs bs ra rc \<and> ra + 24 * rc \<le> length bs \<and>
     (\<forall>i<rc. (ucast (word_at bs (ra + 24 * i + 8)) :: u32) = R_RELATIVE \<and> reloc_addr bs ra i + 8 \<le> length bs)"

lemma spec_relocs_succeed:
  assumes "relocs_ok bs ra rc" "c \<le> rc"
  shows "\<exists>bs'. spec_fold (\<lambda>i. spec_relocate base (ra + 24 * i)) [0..<c] bs = Some bs'"
  using assms(2)
proof (induction c)
  case (Suc c)
  then obtain bs1 where bs1: "spec_fold (\<lambda>i. spec_relocate base (ra + 24 * i)) [0..<c] bs = Some bs1" by auto
  have ok: "proper_relocs bs ra rc" "ra + 24 * rc \<le> length bs"
    "(ucast (word_at bs (ra + 24 * c + 8)) :: u32) = R_RELATIVE" "reloc_addr bs ra c + 8 \<le> length bs"
    using assms(1) Suc.prems by (simp_all add: relocs_ok_def)
  note len = spec_relocs_contents(1)[OF ok(1) _ bs1] and same = spec_relocs_contents(3)[OF ok(1) _ bs1]
  have table: "word_at bs1 (ra + 24 * c + d) = word_at bs (ra + 24 * c + d)" if "d + 8 \<le> 24" for d
    using reloc_table_kept[OF ok(1) _ _ len _ that] same ok(2) Suc.prems by simp
  have "\<exists>bs'. spec_relocate base (ra + 24 * c) bs1 = Some bs'"
    using table[of 0] table[of 8] len ok(2,3,4) Suc.prems
    by (simp add: spec_relocate_def patch_def reloc_addr_def del: le_bytes_numeral)
  with bs1 show ?case by (auto simp: spec_fold_append)
qed simp

end
