(* ===== verification/Elf_Properties.thy ===== *)
theory Elf_Properties
  imports Elf_Image
begin

text \<open>
  The properties of the ELF loader. The witnesses use a file of 256 bytes with one loadable segment
  (80 bytes of data, 88 bytes in memory) that holds a word to relocate, the dynamic table and one
  relocation. The file lies at \<open>0x100000\<close>, the buffer at \<open>0x200000\<close>.
\<close>

section \<open>Lemmas\<close>

lemma for_each_max:
  fixes f :: "'a \<Rightarrow> u64 res"
  assumes "\<forall>x\<in>set xs. p x \<longrightarrow> (\<exists>v. f x = Inr v \<and> unat v = g x)"
  shows "\<exists>n. for_each xs (\<lambda>x size. if p x then and_then (f x) (\<lambda>v. Inr (if size < v then v else size)) else Inr size) a = Inr n \<and>
           unat n = Max (insert (unat a) (g ` {x \<in> set xs. p x}))"
  using assms
proof (induction xs arbitrary: a)
  case Nil
  then show ?case by simp
next
  case (Cons x xs)
  show ?case
  proof (cases "p x")
    case False
    moreover have "{y \<in> set (x # xs). p y} = {y \<in> set xs. p y}" using False by auto
    ultimately show ?thesis using Cons.IH[of a] Cons.prems by simp
  next
    case True
    with Cons.prems obtain v where v: "f x = Inr v" "unat v = g x" by auto
    let ?b = "if a < v then v else a"
    have b: "unat ?b = max (unat a) (g x)" using v(2) by (auto simp: word_less_nat_alt max_def)
    have s: "{y \<in> set (x # xs). p y} = insert x {y \<in> set xs. p y}" using True by auto
    obtain n where "for_each xs (\<lambda>x size. if p x then and_then (f x) (\<lambda>v. Inr (if size < v then v else size)) else Inr size) ?b = Inr n"
        "unat n = Max (insert (unat ?b) (g ` {x \<in> set xs. p x}))" using Cons.IH[of ?b] Cons.prems by auto
    moreover have "Max (insert (unat ?b) (g ` {x \<in> set xs. p x})) = Max (insert (unat a) (g ` {y \<in> set (x # xs). p y}))"
    proof (cases "{x \<in> set xs. p x} = {}")
      case True
      then show ?thesis by (simp only: s b True) (simp add: max.commute)
    next
      case False
      then show ?thesis unfolding s b image_insert by (simp add: max.assoc max.left_commute)
    qed
    ultimately show ?thesis using True v(1) by simp
  qed
qed

lemma for_each_overflow:
  fixes f :: "'a \<Rightarrow> u64 res"
  assumes "x \<in> set xs" "p x" "f x = Inl Overflow" "\<forall>x\<in>set xs. f x = Inl Overflow \<or> (\<exists>v. f x = Inr v)"
  shows "for_each xs (\<lambda>x size. if p x then and_then (f x) (\<lambda>v. Inr (h v size)) else Inr size) a = Inl Overflow"
  using assms
proof (induction xs arbitrary: a)
  case (Cons y ys)
  then show ?case by (cases "f y") auto
qed simp

text \<open>Strings that end in a zero byte.\<close>

definition cstring :: "bytes \<Rightarrow> u64 \<Rightarrow> u8 list \<Rightarrow> bool" where
  "cstring m a xs \<longleftrightarrow> load m a (length xs + 1) = xs @ [0] \<and> 0 \<notin> set xs"

lemma cstringI: "load m a n = xs @ [0] \<Longrightarrow> n = length xs + 1 \<Longrightarrow> 0 \<notin> set xs \<Longrightarrow> cstring m a xs"
  by (simp add: cstring_def)

lemma cstring_Nil: "cstring m a [] \<longleftrightarrow> m a = 0"
  by (simp add: cstring_def)

lemma cstring_Cons: "cstring m a (x # xs) \<longleftrightarrow> m a = x \<and> x \<noteq> 0 \<and> cstring m (a + 1) xs"
  by (auto simp: cstring_def)

lemma strcmp_cstring: "cstring m a xs \<Longrightarrow> cstring m b ys \<Longrightarrow> strcmp m a b = Some (xs = ys)"
proof (induction xs arbitrary: a b ys)
  case Nil
  then show ?case by (cases ys) (subst strcmp.simps, simp add: cstring_Nil cstring_Cons)+
next
  case (Cons x xs)
  show ?case
  proof (cases ys)
    case Nil
    with Cons.prems show ?thesis by (subst strcmp.simps) (auto simp: cstring_Nil cstring_Cons)
  next
    case (Cons y ys')
    with Cons.prems Cons.IH[of "a + 1" "b + 1" ys'] show ?thesis
      by (subst strcmp.simps) (auto simp: cstring_Cons)
  qed
qed

lemma find_text_first:
  assumes "cstring m text_name txt" "\<forall>s\<in>set secs. sh_sec_type s = SHT_PROGBITS \<longrightarrow> cstring m (tab + ucast (sh_name_offset s)) (nm s)"
  shows "find_text m text_name tab process secs =
    (case find (\<lambda>s. sh_sec_type s = SHT_PROGBITS \<and> nm s = txt) secs of
       None \<Rightarrow> Inr 0 | Some s \<Rightarrow> checked_add process (sh_virt_addr s))"
  using assms(2)
proof (induction secs)
  case (Cons s secs)
  have "strcmp m (tab + ucast (sh_name_offset s)) text_name = Some (nm s = txt)" if "sh_sec_type s = SHT_PROGBITS"
    using Cons.prems that by (intro strcmp_cstring[OF _ assms(1)]) simp
  with Cons show ?case by (auto split: option.splits)
qed simp

text \<open>The state after \<open>prepare\<close>, relative to the bytes \<open>bs\<close> before relocation.\<close>

definition prepared_ok :: "bytes \<Rightarrow> u64 \<Rightarrow> nat \<Rightarrow> u64 \<Rightarrow> nat \<Rightarrow> segment_header list \<Rightarrow> u8 list \<Rightarrow> u64 \<Rightarrow> u64 \<Rightarrow> bool" where
  "prepared_ok m img k dest n pre bs ra rc \<longleftrightarrow>
    (\<exists>m'. prepare img dest m = Inr (m', dest + hdr_entry_point (read_header m img)) \<and>
      (\<forall>i<unat rc. rd64 m' (dest + of_nat (reloc_addr bs (unat ra) i)) = reloc_value dest bs (unat ra) i) \<and>
      (\<forall>s\<in>set pre. is_load s \<longrightarrow> (\<forall>j\<in>segment_span s. (\<forall>i<unat rc. j \<notin> reloc_span bs (unat ra) i) \<longrightarrow>
         m' (dest + of_nat j) = segment_bytes (load m img k) s (j - unat (ph_virt_addr s)))))"

lemma prepare_relocates:
  assumes segs: "ph_list m img = pre @ [d] @ post" "is_dynamic d" "\<forall>s\<in>set post. \<not> is_load s \<and> \<not> is_dynamic s"
    and bs: "spec_prepare dest (load m img k) pre (load m dest n) = Some bs"
    and loads: "length bs = n" "\<And>s j. s \<in> set pre \<Longrightarrow> is_load s \<Longrightarrow> j \<in> segment_span s \<Longrightarrow>
      j < n \<and> bs ! j = segment_bytes (load m img k) s (j - unat (ph_virt_addr s))"
    and rel: "spec_scan bs (unat (ph_virt_addr d)) (0, 0) = Some (ra, rc)" "relocs_ok bs (unat ra) (unat rc)"
    and out: "n \<le> 2 ^ 63" "unat dest + n \<le> 2 ^ 64" "tables_outside m img dest n" "disjoint_regions img k dest n"
      "unat (hdr_entry_point (read_header m img)) < n"
  shows "prepared_ok m img k dest n pre bs ra rc"
proof -
  obtain bs' where bs': "spec_fold (\<lambda>i. spec_relocate dest (unat ra + 24 * i)) [0..<unat rc] bs = Some bs'"
    using spec_relocs_succeed[OF rel(2) le_refl] by blast
  have "spec_segment dest (load m img k) d bs = Some bs'"
    using segs(2) rel(1) bs' by (simp add: spec_segment_def is_dynamic_def spec_dynamic_def SEGTYPE_LOAD_def SEGTYPE_DYNAMIC_def)
  moreover have "spec_prepare dest (load m img k) post bs' = Some bs'"
    using segs(3) by (induction post) (simp_all add: spec_prepare_def spec_segment_def is_load_def is_dynamic_def)
  ultimately have "spec_prepare dest (load m img k) (ph_list m img) (load m dest n) = Some bs'"
    using bs by (simp add: segs(1) spec_prepare_def spec_fold_append)
  from prepare_refines[OF this out] obtain m' where m': "prepare img dest m = Inr (m', dest + hdr_entry_point (read_header m img))"
      "load m' dest n = bs'" by blast
  have pr: "proper_relocs bs (unat ra) (unat rc)" using rel(2) by (simp add: relocs_ok_def)
  note rc = spec_relocs_contents[OF pr le_refl bs']
  have "rd64 m' (dest + of_nat (reloc_addr bs (unat ra) i)) = reloc_value dest bs (unat ra) i" if "i < unat rc" for i
    using rd64_buffer[of "reloc_addr bs (unat ra) i" n m' dest] rc(2,4)[OF that] loads(1) m'(2) by simp
  moreover have "m' (dest + of_nat j) = segment_bytes (load m img k) s (j - unat (ph_virt_addr s))"
    if s: "s \<in> set pre" "is_load s" "j \<in> segment_span s" and j: "\<forall>i<unat rc. j \<notin> reloc_span bs (unat ra) i" for s j
  proof -
    note c = loads(2)[OF s]
    then have "m' (dest + of_nat j) = bs' ! j" using m'(2) load_nth[of j n m' dest] by simp
    also have "\<dots> = bs ! j" using rc(3)[OF _ j] c loads(1) by simp
    finally show ?thesis using c by simp
  qed
  ultimately show ?thesis using m'(1) unfolding prepared_ok_def by blast
qed

section \<open>Properties\<close>

text \<open>
  C34: The size of the prepared image. \<open>get_size\<close> returns the least size that covers every loadable
  segment (0 when there is none) and overflows exactly when the end of one does not fit in 64 bits.
\<close>

theorem get_size_least_cover:
  "if \<forall>s\<in>set (filter is_load (ph_list m img)). unat (ph_virt_addr s) + unat (ph_virt_size s) < 2 ^ 64
   then \<exists>n. get_size m img = Inr n \<and>
     unat n = Max (insert 0 ((\<lambda>s. unat (ph_virt_addr s) + unat (ph_virt_size s)) ` set (filter is_load (ph_list m img))))
   else get_size m img = Inl Overflow"
proof -
  let ?f = "\<lambda>s. checked_add (ph_virt_addr s) (ph_virt_size s)"
  have eq: "get_size m img = for_each (ph_list m img) (\<lambda>s size. if is_load s then and_then (?f s) (\<lambda>v. Inr (if size < v then v else size)) else Inr size) 0"
    by (simp add: get_size_def is_load_def)
  show ?thesis
  proof (cases "\<forall>s\<in>set (filter is_load (ph_list m img)). unat (ph_virt_addr s) + unat (ph_virt_size s) < 2 ^ 64")
    case True
    then have "\<forall>s\<in>set (ph_list m img). is_load s \<longrightarrow>
        (\<exists>v. ?f s = Inr v \<and> unat v = unat (ph_virt_addr s) + unat (ph_virt_size s))"
      by (auto simp: checked_add_def unat_add_checked)
    from for_each_max[OF this, of 0] True show ?thesis by (simp add: eq)
  next
    case False
    then obtain s where s: "s \<in> set (ph_list m img)" "is_load s" "?f s = Inl Overflow" by (auto simp: checked_add_def)
    have "get_size m img = Inl Overflow" unfolding eq
      by (rule for_each_overflow[where f = ?f and p = is_load, OF s]) (auto simp: checked_add_def)
    with False show ?thesis by simp
  qed
qed

section \<open>The demonstration file\<close>

definition words :: "u64 list \<Rightarrow> u8 list" where
  "words ws = concat (map (le_bytes 8) ws)"

lemma length_words [simp]: "length (words ws) = 8 * length ws"
  by (induction ws) (simp_all add: words_def del: le_bytes_numeral)

lemma take_words: "i < length ws \<Longrightarrow> take 8 (drop (8 * i) (words ws)) = le_bytes 8 (ws ! i)"
proof (induction ws arbitrary: i)
  case (Cons w ws)
  then show ?case by (cases i) (simp_all add: words_def del: le_bytes_numeral)
qed simp

lemma word_at_words: "i < length ws \<Longrightarrow> word_at (words ws) (8 * i) = ws ! i"
  by (simp only: word_at_def take_words) (simp add: le_word_le_bytes_full del: le_bytes_numeral)

definition demo_segment :: "u64 list" where
  "demo_segment = [0xAB, 7, 56, 8, 24, 0, 0, 0, 8, 0x40]"

definition demo_words :: "u64 list" where
  "demo_words = [0, 0, 0, 0x10, 64, 0, 0, 2, 1, 176, 0, 0, 80, 88, 0, 2, 184, 8, 0, 48, 48, 0] @ demo_segment"

definition demo_file :: "u8 list" where
  "demo_file = words demo_words"

definition demo_mem :: bytes where
  "demo_mem = store (\<lambda>_. 0) 0x100000 demo_file"

lemma demo_words_length: "length demo_words = 32"
  by (simp add: demo_words_def demo_segment_def)

lemma demo_file_load: "load demo_mem 0x100000 256 = demo_file"
  unfolding demo_mem_def by (rule load_store) (simp_all add: demo_file_def demo_words_length)

lemma demo_read:
  assumes "i < 32"
  shows "load demo_mem (0x100000 + of_nat (8 * i)) 8 = le_bytes 8 (demo_words ! i)"
proof -
  have "load demo_mem (0x100000 + of_nat (8 * i)) 8 = take 8 (drop (8 * i) demo_file)"
    using load_slice[of "8 * i" 8 256 demo_mem "0x100000"] assms by (simp only: demo_file_load)
  then show ?thesis using assms by (simp only: demo_file_def take_words demo_words_length)
qed

lemma demo_rd64: "i < 32 \<Longrightarrow> rd64 demo_mem (0x100000 + of_nat (8 * i)) = demo_words ! i"
  by (simp only: rd64_def demo_read) (simp add: le_word_le_bytes_full del: le_bytes_numeral)

lemma bit_le_word:
  "bit (le_word (le_bytes n w) :: 'b::len word) k \<longleftrightarrow> k < LENGTH('b) \<and> k < 8 * n \<and> bit w k"
proof (induction n arbitrary: w k)
  case (Suc n)
  show ?case
    by (cases "k < 8") (auto simp: Suc bit_or_iff bit_push_bit_iff bit_ucast_iff bit_drop_bit_eq dest: bit_imp_le_length)
qed simp

lemma take_le_bytes: "n \<le> k \<Longrightarrow> take n (le_bytes k w) = le_bytes n w"
proof (induction n arbitrary: k w)
  case (Suc n)
  then show ?case by (cases k) simp_all
qed simp

lemma demo_rd_low:
  assumes "i < 32"
  shows "rd32 demo_mem (0x100000 + of_nat (8 * i)) = ucast (demo_words ! i)"
    "rd16 demo_mem (0x100000 + of_nat (8 * i)) = ucast (demo_words ! i)"
proof -
  let ?a = "0x100000 + of_nat (8 * i)"
  have "load demo_mem ?a 4 = le_bytes 4 (demo_words ! i)" "load demo_mem ?a 2 = le_bytes 2 (demo_words ! i)"
    using load_slice[of 0 4 8 demo_mem ?a] load_slice[of 0 2 8 demo_mem ?a] demo_read[OF assms]
    by (simp_all add: take_le_bytes del: le_bytes_numeral load.simps)
  then show "rd32 demo_mem ?a = ucast (demo_words ! i)" "rd16 demo_mem ?a = ucast (demo_words ! i)"
    by (simp_all only: rd32_def rd16_def) (rule bit_word_eqI; simp add: bit_le_word bit_ucast_iff del: le_bytes_numeral)+
qed

lemma demo_header:
  "hdr_entry_point (read_header demo_mem 0x100000) = 0x10" "hdr_ph_offset (read_header demo_mem 0x100000) = 64"
  "ph_count demo_mem 0x100000 = 2"
  using demo_rd64[of 3] demo_rd64[of 4] demo_rd_low(2)[of 7]
  by (simp_all add: read_header_def ph_count_def demo_words_def)

definition demo_load :: segment_header where "demo_load = ph_entry demo_mem 0x100000 0"
definition demo_dynamic :: segment_header where "demo_dynamic = ph_entry demo_mem 0x100000 1"

lemma demo_ph_list: "ph_list demo_mem 0x100000 = [] @ [demo_load] @ [demo_dynamic]"
  by (simp add: ph_list_def demo_header demo_load_def demo_dynamic_def upt_conv_Cons)

lemma demo_load_fields:
  "ph_seg_type demo_load = 1" "ph_data_offset demo_load = 176" "ph_virt_addr demo_load = 0"
  "ph_data_size demo_load = 80" "ph_virt_size demo_load = 88"
  using demo_rd_low(1)[of 8] demo_rd64[of 9] demo_rd64[of 10] demo_rd64[of 12] demo_rd64[of 13]
  by (simp_all add: demo_load_def ph_entry_def demo_header read_segment_header_def demo_words_def)

lemma demo_dynamic_fields:
  "ph_seg_type demo_dynamic = 2" "ph_virt_addr demo_dynamic = 8"
  using demo_rd_low(1)[of 15] demo_rd64[of 17]
  by (simp_all add: demo_dynamic_def ph_entry_def demo_header read_segment_header_def demo_words_def SIZE_SEGMENT_HEADER_def)

theorem get_size_least_cover_witness:
  "get_size demo_mem 0x100000 = Inr 88"
proof -
  have "\<exists>n. get_size demo_mem 0x100000 = Inr n \<and> unat n = 88"
    using get_size_least_cover[of demo_mem "0x100000"]
    by (simp add: demo_ph_list is_load_def demo_load_fields demo_dynamic_fields SEGTYPE_LOAD_def)
  then show ?thesis by (metis of_nat_numeral of_nat_unat ucast_id)
qed

text \<open>
  C17: Preparing the kernel refines the checked loader. If the file, with every access checked, can be
  loaded to a buffer that overlaps neither it nor its tables, then \<open>prepare\<close> (which checks
  nothing) returns normally with exactly the checked loader's bytes in the buffer, changes no
  byte outside the buffer, and returns the entry point inside it.
\<close>

theorem prepare_refines_checked_loader:
  assumes "spec_prepare dest (load m img k) (ph_list m img) (load m dest n) = Some bs"
    and "n \<le> 2 ^ 63" "unat dest + n \<le> 2 ^ 64" "tables_outside m img dest n" "disjoint_regions img k dest n"
    and "unat (hdr_entry_point (read_header m img)) < n"
  shows "\<exists>m'. prepare img dest m = Inr (m', dest + hdr_entry_point (read_header m img)) \<and>
           load m' dest n = bs \<and> (\<forall>x. n \<le> unat (x - dest) \<longrightarrow> m' x = m x)"
  using prepare_refines[OF assms] by (simp add: same_outside_def)

text \<open>
  C16: What the kernel finds in its memory. For an image whose loadable segments fit and do not overlap,
  followed by one dynamic segment whose table is terminated and whose relocations are all
  relative, inside the image and disjoint, \<open>prepare\<close> returns normally; every relocated word then
  holds its addend plus the load address, and every other byte of a segment is that of the
  file, or zero beyond the file's data.
\<close>

theorem prepare_loads_and_relocates:
  assumes segs: "ph_list m img = pre @ [d] @ post" "\<forall>s\<in>set pre. \<not> is_dynamic s \<and> (is_load s \<longrightarrow> fits k n s)"
      "is_dynamic d" "\<forall>s\<in>set post. \<not> is_load s \<and> \<not> is_dynamic s"
      "sorted_wrt (\<lambda>s t. segment_span s \<inter> segment_span t = {}) (filter is_load pre)"
    and out: "n \<le> 2 ^ 63" "unat dest + n \<le> 2 ^ 64" "tables_outside m img dest n" "disjoint_regions img k dest n"
      "unat (hdr_entry_point (read_header m img)) < n"
  shows "\<exists>bs. spec_prepare dest (load m img k) pre (load m dest n) = Some bs \<and>
    (\<forall>ra rc. spec_scan bs (unat (ph_virt_addr d)) (0, 0) = Some (ra, rc) \<and> relocs_ok bs (unat ra) (unat rc) \<longrightarrow>
      (\<exists>m'. prepare img dest m = Inr (m', dest + hdr_entry_point (read_header m img)) \<and>
        (\<forall>i<unat rc. rd64 m' (dest + of_nat (reloc_addr bs (unat ra) i)) = reloc_value dest bs (unat ra) i) \<and>
        (\<forall>s\<in>set pre. is_load s \<longrightarrow> (\<forall>j\<in>segment_span s. (\<forall>i<unat rc. j \<notin> reloc_span bs (unat ra) i) \<longrightarrow>
           m' (dest + of_nat j) = segment_bytes (load m img k) s (j - unat (ph_virt_addr s))))))"
proof -
  obtain bs where bs: "spec_prepare dest (load m img k) pre (load m dest n) = Some bs"
    using spec_loads_succeed[of pre "load m img k" "load m dest n"] segs(2) by auto
  have loads: "length bs = n" "\<And>s j. s \<in> set pre \<Longrightarrow> is_load s \<Longrightarrow> j \<in> segment_span s \<Longrightarrow>
      j < n \<and> bs ! j = segment_bytes (load m img k) s (j - unat (ph_virt_addr s))"
    using spec_loads_contents(1,2)[OF bs _ segs(5)] segs(2) by simp_all
  have "prepared_ok m img k dest n pre bs ra rc"
    if rel: "spec_scan bs (unat (ph_virt_addr d)) (0, 0) = Some (ra, rc)" "relocs_ok bs (unat ra) (unat rc)" for ra rc
    by (rule prepare_relocates[OF segs(1,3,4) bs loads rel out])
  with bs show ?thesis unfolding prepared_ok_def by blast
qed

text \<open>
  C35: The address for the debugger. When the string table index is inside the section table and the
  names of the program sections are terminated, \<open>get_text_addr\<close> returns the load address plus the
  address of the first program section called \<^verbatim>\<open>.text\<close>, and 0 when there is none; otherwise the
  index panics.
\<close>

theorem get_text_addr_finds_text:
  assumes "cstring m text_name txt"
    and "\<forall>s\<in>set (sh_list m img). sh_sec_type s = SHT_PROGBITS \<longrightarrow>
      cstring m (img + sh_file_offset (sh_list m img ! unat (hdr_name_string_table_index (read_header m img))) + ucast (sh_name_offset s)) (nm s)"
  shows "get_text_addr m text_name img process =
    (if unat (hdr_name_string_table_index (read_header m img)) < length (sh_list m img) then
       (case find (\<lambda>s. sh_sec_type s = SHT_PROGBITS \<and> nm s = txt) (sh_list m img) of
          None \<Rightarrow> Inr 0 | Some s \<Rightarrow> checked_add process (sh_virt_addr s))
     else Inl IndexOutOfBounds)"
  using find_text_first[OF assms] by (simp add: get_text_addr_def slice_get_def)

definition text_words :: "u64 list" where
  "text_words = [0, 0, 0, 0, 0, 64, 0, 0x0000000200000000, 0x300000000, 0, 0, 192, 0, 0, 0, 0,
     0x100000000, 0, 0x1000, 0, 0, 0, 0, 0, 0x747865742E, 0x747865742E]"

definition text_mem :: bytes where
  "text_mem = store (\<lambda>_. 0) 0x100000 (words text_words)"

lemma text_load: "off + n \<le> 208 \<Longrightarrow> load text_mem (0x100000 + of_nat off) n = take n (drop off (words text_words))"
  unfolding text_mem_def
  by (rule load_store_same) (simp_all add: text_words_def)

lemma text_fields:
  "hdr_sh_offset (read_header text_mem 0x100000) = 64" "hdr_sh_entry_count (read_header text_mem 0x100000) = 2"
  "hdr_name_string_table_index (read_header text_mem 0x100000) = 0"
proof -
  have "le_word (take 8 (drop 40 (words text_words))) = (64 :: u64)" by code_simp
  moreover have "le_word (take 2 (drop 60 (words text_words))) = (2 :: u16)" by code_simp
  moreover have "le_word (take 2 (drop 62 (words text_words))) = (0 :: u16)" by code_simp
  ultimately show "hdr_sh_offset (read_header text_mem 0x100000) = 64" "hdr_sh_entry_count (read_header text_mem 0x100000) = 2"
    "hdr_name_string_table_index (read_header text_mem 0x100000) = 0"
    using text_load[of 40 8] text_load[of 60 2] text_load[of 62 2]
    by (simp_all add: read_header_def rd64_def rd16_def del: load.simps)
qed

definition text_section :: "nat \<Rightarrow> section_header" where
  "text_section i = read_section_header text_mem (0x100040 + of_nat (64 * i))"

lemma text_sh_list: "sh_list text_mem 0x100000 = [text_section 0, text_section 1]"
  by (simp add: sh_list_def text_fields text_section_def upt_conv_Cons)

lemma text_section_fields:
  "sh_sec_type (text_section 0) = 3" "sh_file_offset (text_section 0) = 192"
  "sh_sec_type (text_section 1) = 1" "sh_name_offset (text_section 1) = 0" "sh_virt_addr (text_section 1) = 0x1000"
proof -
  have "le_word (take 4 (drop 68 (words text_words))) = (3 :: u32)" "le_word (take 8 (drop 88 (words text_words))) = (192 :: u64)"
    "le_word (take 4 (drop 132 (words text_words))) = (1 :: u32)" "le_word (take 4 (drop 128 (words text_words))) = (0 :: u32)"
    "le_word (take 8 (drop 144 (words text_words))) = (0x1000 :: u64)"
    by code_simp+
  then show "sh_sec_type (text_section 0) = 3" "sh_file_offset (text_section 0) = 192"
    "sh_sec_type (text_section 1) = 1" "sh_name_offset (text_section 1) = 0" "sh_virt_addr (text_section 1) = 0x1000"
    using text_load[of 68 4] text_load[of 88 8] text_load[of 132 4] text_load[of 128 4] text_load[of 144 8]
    by (simp_all add: text_section_def read_section_header_def rd32_def rd64_def del: load.simps)
qed

lemma text_names: "cstring text_mem 0x1000C0 [46, 116, 101, 120, 116]" "cstring text_mem 0x1000C8 [46, 116, 101, 120, 116]"
proof -
  have "take 6 (drop 192 (words text_words)) = [46, 116, 101, 120, 116, 0]" "take 6 (drop 200 (words text_words)) = [46, 116, 101, 120, 116, 0]"
    by code_simp+
  then show "cstring text_mem 0x1000C0 [46, 116, 101, 120, 116]" "cstring text_mem 0x1000C8 [46, 116, 101, 120, 116]"
    using text_load[of 192 6] text_load[of 200 6] by (auto intro!: cstringI[where n = 6] simp del: load.simps)
qed

theorem get_text_addr_finds_text_witness:
  "get_text_addr text_mem 0x1000C8 0x100000 0x200000 = Inr 0x201000"
proof -
  have "get_text_addr text_mem 0x1000C8 0x100000 0x200000 = checked_add 0x200000 (0x1000 :: u64)"
    using get_text_addr_finds_text[OF text_names(2), of "0x100000" "\<lambda>_. [46, 116, 101, 120, 116]" "0x200000"]
    by (simp add: text_sh_list text_fields text_section_fields[unfolded One_nat_def] text_names(1) SHT_PROGBITS_def)
  then show ?thesis by (simp add: checked_add_def)
qed

section \<open>The demonstration file, prepared\<close>

lemma demo_buffer: "load demo_mem 0x200000 88 = replicate 88 0"
proof -
  have "disjoint_regions 0x200000 88 0x100000 (length demo_file)"
    using disjoint_offsets[of "0x100000" 88 0 256 "0x100000"] by (simp add: demo_file_def demo_words_length)
  then have "load demo_mem 0x200000 88 = load (\<lambda>_. 0) 0x200000 88"
    unfolding demo_mem_def by (intro load_store_other) (simp_all add: demo_file_def demo_words_length)
  also have "\<dots> = replicate 88 0" by (rule nth_equalityI) (simp_all add: load_nth)
  finally show ?thesis .
qed

lemma demo_loaded: "spec_prepare 0x200000 demo_file [demo_load] (replicate 88 0) = Some (words (demo_segment @ [0]))"
proof -
  have f: "take 80 (drop 176 demo_file) = words demo_segment" "length demo_file = 256"
    by (simp_all add: demo_file_def demo_words_def words_def demo_segment_def del: le_bytes_numeral)
  have "le_bytes 8 (0 :: u64) = replicate 8 0" by code_simp
  then have "words demo_segment @ replicate 8 0 = words (demo_segment @ [0])" by (simp add: words_def del: le_bytes_numeral)
  moreover have "length (words demo_segment) = 80" by (simp add: demo_segment_def)
  ultimately show ?thesis
    by (simp add: spec_prepare_def spec_segment_def SEGTYPE_LOAD_def spec_load_def demo_load_fields slice_def patch_def f)
qed

lemma demo_words_at:
  "word_at (words (demo_segment @ [0])) 8 = 7" "word_at (words (demo_segment @ [0])) 16 = 56"
  "word_at (words (demo_segment @ [0])) 24 = 8" "word_at (words (demo_segment @ [0])) 32 = 24"
  "word_at (words (demo_segment @ [0])) 40 = 0" "word_at (words (demo_segment @ [0])) 56 = 0"
  "word_at (words (demo_segment @ [0])) 64 = 8" "word_at (words (demo_segment @ [0])) 72 = 0x40"
  using word_at_words[of 1 "demo_segment @ [0]"] word_at_words[of 2 "demo_segment @ [0]"] word_at_words[of 3 "demo_segment @ [0]"]
    word_at_words[of 4 "demo_segment @ [0]"] word_at_words[of 5 "demo_segment @ [0]"] word_at_words[of 7 "demo_segment @ [0]"]
    word_at_words[of 8 "demo_segment @ [0]"] word_at_words[of 9 "demo_segment @ [0]"]
  by (simp_all add: demo_segment_def)

lemma demo_segment_length: "length demo_segment = 10"
  by (simp add: demo_segment_def)

lemma demo_scan: "spec_scan (words (demo_segment @ [0])) 8 (0, 0) = Some (56, 1)"
  by (simp add: spec_scan.simps demo_words_at scan_entry_def DE_TAG_RELA_def DE_TAG_RELASZ_def SIZE_REL_A_def demo_segment_length)

lemma demo_relocs: "relocs_ok (words (demo_segment @ [0])) 56 1"
  by (simp add: relocs_ok_def proper_relocs_def reloc_span_def reloc_addr_def demo_words_at R_RELATIVE_def demo_segment_length)

lemma demo_outside: "tables_outside demo_mem 0x100000 0x200000 88" "disjoint_regions 0x100000 256 0x200000 88"
proof -
  have d: "disjoint_regions (0x100000 + of_nat i) n 0x200000 88" if "i + n \<le> 256" for i n
    using disjoint_offsets[of i n "0x100000" 88 "0x100000"] that by simp
  show "disjoint_regions 0x100000 256 0x200000 88" using d[of 0 256] by simp
  show "tables_outside demo_mem 0x100000 0x200000 88"
    using d[of 0 64] d[of 64 112] by (simp add: tables_outside_def demo_header SIZE_SEGMENT_HEADER_def)
qed

theorem prepare_loads_and_relocates_witness:
  "\<exists>m'. prepare 0x100000 0x200000 demo_mem = Inr (m', 0x200010) \<and> rd64 m' 0x200000 = 0x200040 \<and> m' 0x200008 = 7"
proof -
  have kinds: "\<not> is_dynamic demo_load" "is_load demo_load" "is_dynamic demo_dynamic" "fits 256 88 demo_load"
    by (simp_all add: is_dynamic_def is_load_def fits_def demo_load_fields demo_dynamic_fields SEGTYPE_LOAD_def SEGTYPE_DYNAMIC_def)
  let ?bs = "words (demo_segment @ [0])"
  have "\<exists>m'. prepare 0x100000 0x200000 demo_mem = Inr (m', 0x200010) \<and> rd64 m' (0x200000 + of_nat (reloc_addr ?bs 56 0)) = reloc_value 0x200000 ?bs 56 0 \<and>
      (\<forall>j\<in>segment_span demo_load. j \<notin> reloc_span ?bs 56 0 \<longrightarrow> m' (0x200000 + of_nat j) = segment_bytes demo_file demo_load j)"
    using prepare_loads_and_relocates[of demo_mem "0x100000" "[demo_load]" demo_dynamic "[]" 256 88 "0x200000"]
      demo_scan demo_relocs demo_outside kinds
    by (simp add: demo_ph_list demo_file_load demo_buffer demo_loaded demo_header demo_dynamic_fields demo_load_fields)
  then obtain m' where m': "prepare 0x100000 0x200000 demo_mem = Inr (m', 0x200010)" "rd64 m' 0x200000 = 0x200040"
      "\<forall>j\<in>segment_span demo_load. j \<notin> reloc_span ?bs 56 0 \<longrightarrow> m' (0x200000 + of_nat j) = segment_bytes demo_file demo_load j"
    by (auto simp: reloc_addr_def reloc_value_def demo_words_at)
  have "demo_file ! 184 = 7" unfolding demo_file_def demo_words_def demo_segment_def by code_simp
  then have "m' 0x200008 = 7"
    using m'(3)[rule_format, of 8] by (simp add: segment_span_def reloc_span_def reloc_addr_def demo_words_at demo_load_fields segment_bytes_def)
  with m' show ?thesis by blast
qed

theorem prepare_refines_checked_loader_witness:
  "\<exists>m' bs. prepare 0x100000 0x200000 demo_mem = Inr (m', 0x200010) \<and> load m' 0x200000 88 = bs \<and> m' 0x100020 = 64"
proof -
  obtain bs where bs: "spec_prepare 0x200000 demo_file (ph_list demo_mem 0x100000) (replicate 88 0) = Some bs"
  proof -
    obtain bs where "spec_fold (\<lambda>i. spec_relocate 0x200000 (56 + 24 * i)) [0..<1] (words (demo_segment @ [0])) = Some bs"
      using spec_relocs_succeed[OF demo_relocs le_refl] by blast
    then have "spec_segment 0x200000 demo_file demo_dynamic (words (demo_segment @ [0])) = Some bs"
      by (simp add: spec_segment_def spec_dynamic_def demo_dynamic_fields SEGTYPE_LOAD_def SEGTYPE_DYNAMIC_def demo_scan)
    with demo_loaded that show ?thesis by (simp add: demo_ph_list spec_prepare_def bind_eq_Some_conv)
  qed
  from prepare_refines_checked_loader[of "0x200000" demo_mem "0x100000" 256 88 bs] bs demo_outside
  obtain m' where m': "prepare 0x100000 0x200000 demo_mem = Inr (m', 0x200010)" "load m' 0x200000 88 = bs"
      "\<forall>x. 88 \<le> unat (x - 0x200000) \<longrightarrow> m' x = demo_mem x"
    by (auto simp: demo_file_load demo_buffer demo_header)
  have "demo_mem 0x100020 = 64" using demo_read[of 4] load_nth[of 0 8 demo_mem "0x100020"] by (simp add: demo_words_def)
  with m'(3)[rule_format, of "0x100020"] have "m' 0x100020 = 64" by simp
  with m' show ?thesis by blast
qed

end
