(* ===== verification/Boot_Properties.thy ===== *)
theory Boot_Properties
  imports Boot Paging_Correct Elf_Properties
begin

text \<open>
  The properties of the bootloader's own logic: the choice of the video mode, the conversion of the
  memory map, and what holds when control passes to the kernel.
\<close>

section \<open>Lemmas\<close>

lemma select_mode_correct:
  assumes "\<forall>m. best = Some m \<longrightarrow> x = fst (vm_resolution m)" "best = None \<longrightarrow> x = 0"
  shows "(\<forall>m\<in>set ms. suitable m \<longrightarrow> fst (vm_resolution m) \<le> x) \<and> select_mode ms x best = best \<or>
    (\<exists>m xs ys. select_mode ms x best = Some m \<and> ms = xs @ m # ys \<and> suitable m \<and> x < fst (vm_resolution m) \<and>
      (\<forall>m'\<in>set ms. suitable m' \<longrightarrow> fst (vm_resolution m') \<le> fst (vm_resolution m)) \<and>
      (\<forall>m'\<in>set xs. suitable m' \<longrightarrow> fst (vm_resolution m') < fst (vm_resolution m)))"
  using assms
proof (induction ms arbitrary: x best)
  case Nil
  then show ?case by simp
next
  case (Cons a ms)
  show ?case
  proof (cases "suitable a \<and> x < fst (vm_resolution a)")
    case True
    have "(\<forall>m\<in>set ms. suitable m \<longrightarrow> fst (vm_resolution m) \<le> fst (vm_resolution a)) \<and>
        select_mode ms (fst (vm_resolution a)) (Some a) = Some a \<or>
      (\<exists>m xs ys. select_mode ms (fst (vm_resolution a)) (Some a) = Some m \<and> ms = xs @ m # ys \<and> suitable m \<and>
        fst (vm_resolution a) < fst (vm_resolution m) \<and>
        (\<forall>m'\<in>set ms. suitable m' \<longrightarrow> fst (vm_resolution m') \<le> fst (vm_resolution m)) \<and>
        (\<forall>m'\<in>set xs. suitable m' \<longrightarrow> fst (vm_resolution m') < fst (vm_resolution m)))"
      by (rule Cons.IH) simp_all
    then show ?thesis
    proof (elim disjE exE conjE)
      assume "\<forall>m\<in>set ms. suitable m \<longrightarrow> fst (vm_resolution m) \<le> fst (vm_resolution a)"
        "select_mode ms (fst (vm_resolution a)) (Some a) = Some a"
      with True show ?thesis by (intro disjI2 exI[of _ a] exI[of _ "[]"] exI[of _ ms]) simp
    next
      fix m xs ys
      assume "select_mode ms (fst (vm_resolution a)) (Some a) = Some m" "ms = xs @ m # ys" "suitable m"
        "fst (vm_resolution a) < fst (vm_resolution m)"
        "\<forall>m'\<in>set ms. suitable m' \<longrightarrow> fst (vm_resolution m') \<le> fst (vm_resolution m)"
        "\<forall>m'\<in>set xs. suitable m' \<longrightarrow> fst (vm_resolution m') < fst (vm_resolution m)"
      with True show ?thesis by (intro disjI2 exI[of _ m] exI[of _ "a # xs"] exI[of _ ys]) auto
    qed
  next
    case False
    then have s: "select_mode (a # ms) x best = select_mode ms x best" by auto
    from Cons.IH[OF Cons.prems] show ?thesis
    proof (elim disjE exE conjE)
      assume "\<forall>m\<in>set ms. suitable m \<longrightarrow> fst (vm_resolution m) \<le> x" "select_mode ms x best = best"
      with False s show ?thesis by auto
    next
      fix m xs ys
      assume "select_mode ms x best = Some m" "ms = xs @ m # ys" "suitable m" "x < fst (vm_resolution m)"
        "\<forall>m'\<in>set ms. suitable m' \<longrightarrow> fst (vm_resolution m') \<le> fst (vm_resolution m)"
        "\<forall>m'\<in>set xs. suitable m' \<longrightarrow> fst (vm_resolution m') < fst (vm_resolution m)"
      with False s show ?thesis by (intro disjI2 exI[of _ m] exI[of _ "a # xs"] exI[of _ ys]) auto
    qed
  qed
qed

section \<open>Properties\<close>

text \<open>
  C36: The video mode. The loop selects a mode exactly when there is one with an RGB or BGR format and a
  width between 1 and 1920; it is then the widest such mode, and the first of them.
\<close>

theorem select_mode_widest:
  "case select_mode ms 0 None of
     None \<Rightarrow> \<forall>m\<in>set ms. suitable m \<longrightarrow> fst (vm_resolution m) = 0
   | Some m \<Rightarrow> \<exists>xs ys. ms = xs @ m # ys \<and> suitable m \<and> 0 < fst (vm_resolution m) \<and>
       (\<forall>m'\<in>set ms. suitable m' \<longrightarrow> fst (vm_resolution m') \<le> fst (vm_resolution m)) \<and>
       (\<forall>m'\<in>set xs. suitable m' \<longrightarrow> fst (vm_resolution m') < fst (vm_resolution m))"
proof (cases "select_mode ms 0 None")
  case None
  with select_mode_correct[of None 0 ms] show ?thesis by auto
next
  case (Some m)
  with select_mode_correct[of None 0 ms] show ?thesis by (simp only: option.case) blast
qed

definition demo_modes :: "video_mode list" where
  "demo_modes =
     [\<lparr>vm_resolution = (640, 480), vm_stride = 640, vm_pixel_format = PixelBgr\<rparr>,
      \<lparr>vm_resolution = (2560, 1440), vm_stride = 2560, vm_pixel_format = PixelBgr\<rparr>,
      \<lparr>vm_resolution = (1920, 1080), vm_stride = 1920, vm_pixel_format = PixelBitmask\<rparr>,
      \<lparr>vm_resolution = (1024, 768), vm_stride = 1024, vm_pixel_format = PixelRgb\<rparr>,
      \<lparr>vm_resolution = (1024, 600), vm_stride = 1024, vm_pixel_format = PixelBgr\<rparr>]"

lemma demo_selected: "select_mode demo_modes 0 None = Some (demo_modes ! 3)"
  by code_simp

theorem select_mode_widest_witness:
  "select_mode demo_modes 0 None = Some (demo_modes ! 3) \<and> suitable (demo_modes ! 3)"
  using select_mode_widest[of demo_modes] demo_selected by (simp only: option.case) blast















section \<open>A demonstration firmware\<close>

definition demo_descs :: "memory_descriptor list" where
  "demo_descs = [\<lparr>md_ty = CONVENTIONAL, md_phys_start = 0, md_page_count = 0x80\<rparr>,
     \<lparr>md_ty = LOADER_DATA, md_phys_start = 0x80000, md_page_count = 0x380\<rparr>]"

text \<open>
  A firmware whose state is the next free address: it hands out pages upwards from 64 KiB, never takes them back, and
  keeps the page at 4 KiB aside.
\<close>

definition demo_firmware :: "u8 list \<Rightarrow> u64 firmware" where
  "demo_firmware bs =
     \<lparr>fw_reset = (\<lambda>_ f. f), fw_output = (\<lambda>_ f. (True, f)), fw_loaded_image = (\<lambda>_. True), fw_file_system = (\<lambda>_. True), fw_graphics = (\<lambda>_. True),
      fw_allocate_pages = (\<lambda>t ty n f. case t of
          Address a \<Rightarrow> if a = 0x1000 \<and> n = 1 then Some (a, f) else None
        | _ \<Rightarrow> if 0x10000 \<le> f \<and> unat f mod 4096 = 0 \<and> unat f + 4096 * unat n \<le> 2 ^ 39 then Some (f, f + n * 4096) else None),
      fw_free_pages = (\<lambda>_ _ f. Some f), fw_memory_map_size = (\<lambda>_. 96),
      fw_memory_map = (\<lambda>_ _ _. Some demo_descs), fw_exit_boot_services = (\<lambda>_ _ _. Some demo_descs),
      fw_modes = (\<lambda>_. demo_modes), fw_set_mode = (\<lambda>_ f. Some f), fw_frame_buffer = (\<lambda>_. 0xE0000000),
      fw_open_volume = (\<lambda>_. True),
      fw_open = (\<lambda>p _. if p = KERNEL_PATH
        then Some \<lparr>file_size = Some (of_nat (length bs)), file_kind = Some Regular, file_read = Some bs\<rparr> else None)\<rparr>"

definition demo_fw :: "u64 firmware" where
  "demo_fw = demo_firmware (words text_words)"

lemma text_words_length: "length text_words = 26"
  by (simp add: text_words_def)



lemma demo_console: "write_console demo_fw ps f = (True, f)"
  by (induction ps) (simp_all add: demo_fw_def demo_firmware_def text_words_length)

lemma demo_output [simp]: "write_unwrap demo_fw ps f = Inr f" "write_stdout demo_fw ps b = Inr b"
  by (simp_all add: write_stdout_def write_unwrap_def demo_console)






end
