(* ===== verification/Elf_File.thy ===== *)
theory Elf_File
  imports Elf_Properties
begin

text \<open>
  Kernel files that boot. The structures of an ELF file do not depend on the address at which the file lies in memory; so
  what \<open>get_size\<close>, \<open>prepare\<close> and \<open>get_text_addr\<close> need of a file is a property of its bytes alone, \<open>bootable_kernel\<close>.
\<close>

section \<open>The structures of a file\<close>

definition file_mem :: "u8 list \<Rightarrow> bytes" where
  "file_mem bs = store (\<lambda>_. 0) 0 bs"

abbreviation file_header :: "u8 list \<Rightarrow> elf_header" where
  "file_header bs \<equiv> read_header (file_mem bs) 0"

abbreviation file_segments :: "u8 list \<Rightarrow> segment_header list" where
  "file_segments bs \<equiv> ph_list (file_mem bs) 0"

abbreviation file_sections :: "u8 list \<Rightarrow> section_header list" where
  "file_sections bs \<equiv> sh_list (file_mem bs) 0"

text \<open>The offset of the name of a section.\<close>

definition name_offset :: "u8 list \<Rightarrow> section_header \<Rightarrow> u64" where
  "name_offset bs s =
     sh_file_offset (file_sections bs ! unat (hdr_name_string_table_index (file_header bs))) + ucast (sh_name_offset s)"

text \<open>Header, segment table and section table lie inside the file.\<close>

definition tables_inside :: "u8 list \<Rightarrow> bool" where
  "tables_inside bs \<longleftrightarrow> 64 \<le> length bs \<and> length bs < 2 ^ 32 \<and>
     unat (hdr_ph_offset (file_header bs)) + 56 * length (file_segments bs) \<le> length bs \<and>
     unat (hdr_sh_offset (file_header bs)) + 64 * length (file_sections bs) \<le> length bs"

text \<open>
  A file whose image has \<open>n\<close> bytes: the loader with all accesses checked accepts it at every address and for every
  former contents of the buffer, the entry point and the program sections lie in the image, and the names of the
  program sections are terminated.
\<close>

definition bootable_kernel :: "u8 list \<Rightarrow> nat \<Rightarrow> bool" where
  "bootable_kernel bs n \<longleftrightarrow> tables_inside bs \<and> n < 2 ^ 32 \<and> get_size (file_mem bs) 0 = Inr (of_nat n) \<and>
     unat (hdr_entry_point (file_header bs)) < n \<and>
     (\<forall>base buf. length buf = n \<longrightarrow> spec_prepare base bs (file_segments bs) buf \<noteq> None) \<and>
     unat (hdr_name_string_table_index (file_header bs)) < length (file_sections bs) \<and>
     (\<forall>s\<in>set (file_sections bs). sh_sec_type s = SHT_PROGBITS \<longrightarrow> unat (sh_virt_addr s) < n \<and>
        (\<exists>nm. cstring (file_mem bs) (name_offset bs s) nm \<and> unat (name_offset bs s) + length nm < length bs))"

section \<open>A file in memory\<close>

definition placed :: "u8 list \<Rightarrow> bytes \<Rightarrow> u64 \<Rightarrow> bool" where
  "placed bs m img \<longleftrightarrow> load m img (length bs) = bs"

lemma placed_load:
  assumes "placed bs m img" "length bs < 2 ^ 32" "i + n \<le> length bs"
  shows "load m (img + of_nat i) n = load (file_mem bs) (of_nat i) n"
proof -
  have "load (file_mem bs) 0 (length bs) = bs" using assms(2) by (simp add: file_mem_def)
  then have "load m img (length bs) = load (file_mem bs) 0 (length bs)" using assms(1) by (simp add: placed_def)
  from load_part[OF this assms(3)] show ?thesis by simp
qed

lemma placed_header: "placed bs m img \<Longrightarrow> tables_inside bs \<Longrightarrow> read_header m img = file_header bs"
  using placed_load[of bs m img 0 64] by (intro read_header_cong) (simp add: tables_inside_def del: load.simps)

lemma placed_entry:
  assumes "placed bs m img" "tables_inside bs" "unat off + k * c \<le> length bs" "i < c"
  shows "load m (img + off + of_nat (k * i)) k = load (file_mem bs) (0 + off + of_nat (k * i)) k"
proof -
  have "k * i + k \<le> k * c" using assms(4) mult_le_mono2[of "Suc i" c k] by (simp add: add.commute)
  then have "unat off + k * i + k \<le> length bs" using assms(3) by simp
  from placed_load[OF assms(1) _ this] assms(2) show ?thesis by (simp add: tables_inside_def add.assoc)
qed

lemma placed_segments:
  assumes "placed bs m img" "tables_inside bs"
  shows "ph_list m img = file_segments bs"
proof -
  note h = placed_header[OF assms]
  have "unat (hdr_ph_offset (file_header bs)) + 56 * ph_count (file_mem bs) 0 \<le> length bs"
    using assms(2) by (simp add: tables_inside_def ph_list_def)
  from read_segment_header_cong[OF placed_entry[OF assms this]] show ?thesis
    by (simp add: ph_list_def ph_entry_def ph_count_def h SIZE_SEGMENT_HEADER_def)
qed

lemma placed_sections:
  assumes "placed bs m img" "tables_inside bs"
  shows "sh_list m img = file_sections bs"
proof -
  note h = placed_header[OF assms]
  have "unat (hdr_sh_offset (file_header bs)) + 64 * unat (hdr_sh_entry_count (file_header bs)) \<le> length bs"
    using assms(2) by (simp add: tables_inside_def sh_list_def)
  from read_section_header_cong[OF placed_entry[OF assms this]] show ?thesis by (simp add: sh_list_def h)
qed

lemma placed_cstring:
  assumes "placed bs m img" "tables_inside bs" "cstring (file_mem bs) off nm" "unat off + length nm < length bs"
  shows "cstring m (img + off) nm"
  using placed_load[OF assms(1), of "unat off" "length nm + 1"] assms(2-4)
  by (simp add: cstring_def tables_inside_def del: load.simps)

section \<open>Bootable files are loaded\<close>

lemma bootable_size: "bootable_kernel bs n \<Longrightarrow> placed bs m img \<Longrightarrow> get_size m img = Inr (of_nat n)"
  using placed_segments[of bs m img] by (simp add: bootable_kernel_def get_size_def)

lemma bootable_prepare:
  assumes "bootable_kernel bs n" "placed bs m img" "disjoint_regions img (length bs) dest n" "unat dest + n \<le> 2 ^ 64"
  shows "\<exists>m' bs'. prepare img dest m = Inr (m', dest + hdr_entry_point (file_header bs)) \<and>
    spec_prepare dest bs (file_segments bs) (load m dest n) = Some bs' \<and> load m' dest n = bs' \<and> same_outside dest n m m'"
proof -
  have k: "tables_inside bs" "n \<le> 2 ^ 63" "unat (hdr_entry_point (file_header bs)) < n" using assms(1) by (simp_all add: bootable_kernel_def)
  note h = placed_header[OF assms(2) k(1)] and s = placed_segments[OF assms(2) k(1)]
  obtain bs' where bs': "spec_prepare dest bs (file_segments bs) (load m dest n) = Some bs'"
    using assms(1) unfolding bootable_kernel_def by (metis length_load option.exhaust)
  have len: "64 \<le> length bs" "unat (hdr_ph_offset (file_header bs)) + 56 * ph_count m img \<le> length bs"
    using k(1) s by (auto simp: tables_inside_def ph_list_def dest: arg_cong[of _ _ length])
  then have "tables_outside m img dest n"
    using disjoint_regions_sub[OF assms(3), of 0 64] disjoint_regions_sub[OF assms(3) len(2)]
    by (simp add: tables_outside_def h SIZE_SEGMENT_HEADER_def)
  moreover have "load m img (length bs) = bs" using assms(2) by (simp add: placed_def)
  ultimately show ?thesis
    using prepare_refines[of dest m img "length bs" n bs'] bs' k assms(3,4) by (simp add: h s)
qed

lemma bootable_text:
  assumes "bootable_kernel bs n" "placed bs m img" "cstring m text_name txt" "unat dest + n \<le> 2 ^ 64"
  shows "\<exists>v. get_text_addr m text_name img dest = Inr v"
proof -
  have k: "tables_inside bs" "unat (hdr_name_string_table_index (file_header bs)) < length (file_sections bs)"
    and ss: "\<forall>s\<in>set (file_sections bs). sh_sec_type s = SHT_PROGBITS \<longrightarrow> unat (sh_virt_addr s) < n \<and>
        (\<exists>nm. cstring (file_mem bs) (name_offset bs s) nm \<and> unat (name_offset bs s) + length nm < length bs)"
    using assms(1) by (simp_all add: bootable_kernel_def)
  note h = placed_header[OF assms(2) k(1)] and s = placed_sections[OF assms(2) k(1)]
  from ss obtain nm where nm: "cstring (file_mem bs) (name_offset bs s) (nm s) \<and> unat (name_offset bs s) + length (nm s) < length bs"
    if "s \<in> set (file_sections bs)" "sh_sec_type s = SHT_PROGBITS" for s by metis
  let ?tab = "img + sh_file_offset (file_sections bs ! unat (hdr_name_string_table_index (file_header bs)))"
  have "\<forall>s\<in>set (file_sections bs). sh_sec_type s = SHT_PROGBITS \<longrightarrow> cstring m (?tab + ucast (sh_name_offset s)) (nm s)"
    using placed_cstring[OF assms(2) k(1)] nm by (simp add: name_offset_def add.assoc)
  from find_text_first[OF assms(3) this, of dest] have
    "get_text_addr m text_name img dest = (case find (\<lambda>s. sh_sec_type s = SHT_PROGBITS \<and> nm s = txt) (file_sections bs) of
       None \<Rightarrow> Inr 0 | Some s \<Rightarrow> checked_add dest (sh_virt_addr s))"
    using k(2) by (simp add: get_text_addr_def slice_get_def h s)
  moreover have "\<exists>v. checked_add dest (sh_virt_addr s) = Inr v" if "s \<in> set (file_sections bs)" "sh_sec_type s = SHT_PROGBITS" for s
    using ss that assms(4) by (auto simp: checked_add_def)
  ultimately show ?thesis by (auto simp: find_Some_iff split: option.split dest: nth_mem)
qed

section \<open>A bootable file\<close>

text \<open>
  A file of 392 bytes: the segments of the demonstration file, a string table and the section \<^verbatim>\<open>.text\<close>.
\<close>

definition boot_words :: "u64 list" where
  "boot_words = [0, 0, 0, 0x10, 64, 256, 0, 0x200000002, 1, 176, 0, 0, 80, 88, 0, 2, 184, 8, 0, 48, 48, 0] @ demo_segment @
     [0x300000000, 0, 0, 384, 0, 0, 0, 0, 0x100000000, 0, 0x10, 0, 0, 0, 0, 0, 0x747865742E]"

lemma boot_words_length: "length boot_words = 49"
  by (simp add: boot_words_def demo_segment_def)

lemma boot_words_nth:
  "boot_words ! 3 = 0x10" "boot_words ! 4 = 64" "boot_words ! 5 = 256" "boot_words ! 7 = 0x200000002" "boot_words ! 8 = 1"
  "boot_words ! 9 = 176" "boot_words ! 10 = 0" "boot_words ! 12 = 80" "boot_words ! 13 = 88" "boot_words ! 15 = 2" "boot_words ! 17 = 8"
  "boot_words ! 32 = 0x300000000" "boot_words ! 35 = 384" "boot_words ! 40 = 0x100000000" "boot_words ! 42 = 0x10"
  "boot_words ! 48 = 0x747865742E"
  by (simp_all add: boot_words_def demo_segment_def)

lemma drop_le_bytes: "drop j (le_bytes n w) = le_bytes (n - j) (drop_bit (8 * j) w)"
proof (induction j arbitrary: n w)
  case (Suc j)
  show ?case by (cases n) (simp_all add: Suc add.commute)
qed simp

lemma boot_read:
  assumes "i < 49" "j + k \<le> 8"
  shows "load (file_mem (words boot_words)) (of_nat (8 * i + j)) k = le_bytes k (drop_bit (8 * j) (boot_words ! i))"
proof -
  have "load (file_mem (words boot_words)) (0 + of_nat (8 * i + j)) k = take k (drop (8 * i + j) (words boot_words))"
    unfolding file_mem_def using assms by (intro load_store_same) (simp_all add: boot_words_length)
  also have "\<dots> = take k (drop j (take 8 (drop (8 * i) (words boot_words))))"
    using assms(2) by (simp only: drop_take drop_drop take_take add.commute[of "8 * i"] min_absorb1[of k "8 - j"] le_diff_conv2)
  also have "\<dots> = le_bytes k (drop_bit (8 * j) (boot_words ! i))"
    using assms by (simp add: take_words boot_words_length drop_le_bytes take_le_bytes del: le_bytes_numeral)
  finally show ?thesis by simp
qed

lemma boot_rd:
  assumes "i < 49"
  shows "rd64 (file_mem (words boot_words)) (of_nat (8 * i)) = boot_words ! i"
    "j \<le> 4 \<Longrightarrow> rd32 (file_mem (words boot_words)) (of_nat (8 * i + j)) = ucast (drop_bit (8 * j) (boot_words ! i))"
    "j \<le> 6 \<Longrightarrow> rd16 (file_mem (words boot_words)) (of_nat (8 * i + j)) = ucast (drop_bit (8 * j) (boot_words ! i))"
proof -
  have w: "le_word (le_bytes 4 w) = (ucast w :: u32)" "le_word (le_bytes 2 w) = (ucast w :: u16)" for w :: u64
    by (rule bit_word_eqI; simp add: bit_le_word bit_ucast_iff del: le_bytes_numeral)+
  show "rd64 (file_mem (words boot_words)) (of_nat (8 * i)) = boot_words ! i"
    using boot_read[OF assms, of 0 8] by (simp add: rd64_def le_word_le_bytes_full del: le_bytes_numeral load.simps)
  show "rd32 (file_mem (words boot_words)) (of_nat (8 * i + j)) = ucast (drop_bit (8 * j) (boot_words ! i))" if "j \<le> 4"
    using boot_read[OF assms, of j 4] that by (simp only: rd32_def w)
  show "rd16 (file_mem (words boot_words)) (of_nat (8 * i + j)) = ucast (drop_bit (8 * j) (boot_words ! i))" if "j \<le> 6"
    using boot_read[OF assms, of j 2] that by (simp only: rd16_def w)
qed

lemma boot_header:
  "hdr_entry_point (file_header (words boot_words)) = 0x10" "hdr_ph_offset (file_header (words boot_words)) = 64"
  "hdr_sh_offset (file_header (words boot_words)) = 256" "hdr_ph_entry_count (file_header (words boot_words)) = 2"
  "hdr_sh_entry_count (file_header (words boot_words)) = 2" "hdr_name_string_table_index (file_header (words boot_words)) = 0"
  using boot_rd(1)[of 3] boot_rd(1)[of 4] boot_rd(1)[of 5] boot_rd(3)[of 7 0] boot_rd(3)[of 7 4] boot_rd(3)[of 7 6]
  by (simp_all add: read_header_def boot_words_nth)

definition boot_segment :: "nat \<Rightarrow> segment_header" where
  "boot_segment i = ph_entry (file_mem (words boot_words)) 0 i"

definition boot_section :: "nat \<Rightarrow> section_header" where
  "boot_section i = read_section_header (file_mem (words boot_words)) (256 + of_nat (64 * i))"

lemma boot_lists:
  "file_segments (words boot_words) = [boot_segment 0, boot_segment 1]" "file_sections (words boot_words) = [boot_section 0, boot_section 1]"
  by (simp_all add: ph_list_def ph_count_def sh_list_def boot_header boot_segment_def boot_section_def upt_conv_Cons)

lemma boot_segment_fields:
  "ph_seg_type (boot_segment 0) = 1" "ph_data_offset (boot_segment 0) = 176" "ph_virt_addr (boot_segment 0) = 0"
  "ph_data_size (boot_segment 0) = 80" "ph_virt_size (boot_segment 0) = 88" "ph_seg_type (boot_segment 1) = 2" "ph_virt_addr (boot_segment 1) = 8"
  using boot_rd(2)[of 8 0] boot_rd(1)[of 9] boot_rd(1)[of 10] boot_rd(1)[of 12] boot_rd(1)[of 13] boot_rd(2)[of 15 0] boot_rd(1)[of 17]
  by (simp_all add: boot_segment_def ph_entry_def boot_header read_segment_header_def boot_words_nth SIZE_SEGMENT_HEADER_def)

lemma boot_section_fields:
  "sh_sec_type (boot_section 0) = 3" "sh_file_offset (boot_section 0) = 384" "sh_sec_type (boot_section 1) = 1"
  "sh_name_offset (boot_section 1) = 0" "sh_virt_addr (boot_section 1) = 0x10"
  using boot_rd(2)[of 32 4] boot_rd(1)[of 35] boot_rd(2)[of 40 4] boot_rd(2)[of 40 0] boot_rd(1)[of 42]
  by (simp_all add: boot_section_def read_section_header_def boot_words_nth)

lemma boot_data: "take 80 (drop 176 (words boot_words)) = words demo_segment"
proof -
  have "words boot_words = words (take 22 boot_words) @ words demo_segment @ words (drop 32 boot_words)"
    by (simp add: boot_words_def demo_segment_def words_def del: le_bytes_numeral)
  moreover have "length (words (take 22 boot_words)) = 176" "length (words demo_segment) = 80"
    by (simp_all add: boot_words_length demo_segment_def)
  ultimately show ?thesis by simp
qed

lemma boot_loads:
  assumes "length buf = 88"
  shows "\<exists>bs. spec_prepare base (words boot_words) (file_segments (words boot_words)) buf = Some bs"
proof -
  let ?ws = "words (demo_segment @ [0])"
  have "le_bytes 8 (0 :: u64) = replicate 8 0" by code_simp
  then have z: "words demo_segment @ replicate 8 0 = ?ws" by (simp add: words_def del: le_bytes_numeral)
  have "length (words demo_segment) = 80" by (simp add: demo_segment_length)
  with assms have ld: "spec_segment base (words boot_words) (boot_segment 0) buf = Some ?ws"
    by (simp add: spec_segment_def SEGTYPE_LOAD_def spec_load_def boot_segment_fields slice_def patch_def boot_words_length boot_data z)
  obtain bs where "spec_fold (\<lambda>i. spec_relocate base (56 + 24 * i)) [0..<1] ?ws = Some bs"
    using spec_relocs_succeed[OF demo_relocs le_refl] by blast
  then have "spec_segment base (words boot_words) (boot_segment 1) ?ws = Some bs"
    by (simp add: spec_segment_def spec_dynamic_def boot_segment_fields[unfolded One_nat_def] SEGTYPE_LOAD_def SEGTYPE_DYNAMIC_def demo_scan)
  with ld show ?thesis by (simp add: boot_lists spec_prepare_def)
qed

lemma boot_name: "cstring (file_mem (words boot_words)) 384 [46, 116, 101, 120, 116]"
proof (rule cstringI[where n = 6])
  have "le_bytes 6 (0x747865742E :: u64) = [46, 116, 101, 120, 116] @ [0]" by code_simp
  then show "load (file_mem (words boot_words)) 384 6 = [46, 116, 101, 120, 116] @ [0]"
    using boot_read[of 48 0 6] by (simp add: boot_words_nth del: le_bytes_numeral load.simps)
qed simp_all

lemma boot_file_bootable: "bootable_kernel (words boot_words) 88"
proof -
  have "tables_inside (words boot_words)" by (simp add: tables_inside_def boot_words_length boot_header boot_lists)
  moreover have "get_size (file_mem (words boot_words)) 0 = Inr (of_nat 88)"
    by (simp add: get_size_def boot_lists boot_segment_fields[unfolded One_nat_def] SEGTYPE_LOAD_def checked_add_def)
  moreover have "\<forall>base buf. length buf = 88 \<longrightarrow> spec_prepare base (words boot_words) (file_segments (words boot_words)) buf \<noteq> None"
    using boot_loads by fastforce
  moreover have "name_offset (words boot_words) (boot_section 1) = 384"
    by (simp add: name_offset_def boot_header boot_lists boot_section_fields[unfolded One_nat_def])
  ultimately show ?thesis using boot_name
    by (auto simp: bootable_kernel_def boot_header boot_lists boot_section_fields[unfolded One_nat_def] SHT_PROGBITS_def boot_words_length
        intro!: exI[of _ "[46, 116, 101, 120, 116]"])
qed

end
