(* ===== verification/Boot_Progress.thy ===== *)
theory Boot_Progress
  imports Boot_Properties Elf_File
begin

text \<open>
  The bootloader reaches the kernel. What it needs of the firmware is the locale \<open>page_services\<close> (console and page
  allocation) and its extension \<open>boot_services\<close> (protocols, memory map, video modes, the kernel file). The firmware's
  accounts are a \<open>ledger\<close>: how many pages it can still hand out, which allocations are live, and whether the page that the
  bootloader reserves for the debugger is free. The lemmas of the locales show that each step of \<open>efi_main\<close> returns
  normally and what it costs; with the pages that \<open>boot_pages\<close> counts, the whole bootloader does.
\<close>

section \<open>The firmware's accounts\<close>

record 'f ledger =
  lg_room :: "'f \<Rightarrow> nat"
  lg_owned :: "'f \<Rightarrow> (u64 \<times> u64) set"
  lg_spare :: "'f \<Rightarrow> bool"

definition spends :: "'f ledger \<Rightarrow> nat \<Rightarrow> 'f \<Rightarrow> 'f \<Rightarrow> bool" where
  "spends lg k f f' \<longleftrightarrow> lg_room lg f \<le> lg_room lg f' + k \<and> lg_owned lg f \<subseteq> lg_owned lg f' \<and> (lg_spare lg f \<longrightarrow> lg_spare lg f')"

lemma spends_refl [simp]: "spends lg 0 f f"
  by (simp add: spends_def)










section \<open>Low memory and its mirror\<close>





section \<open>The size of memory\<close>




section \<open>Page services\<close>


section \<open>The kernel in memory\<close>






section \<open>Boot services\<close>


section \<open>The bootloader enters the kernel\<close>







end
