(* ===== verification/Kernel_Main.thy ===== *)
theory Kernel_Main
  imports Platform_Boot Platform_Log Phys_Clients Phys_Log Paging_Correct
begin

text \<open>
  \<^verbatim>\<open>kernel/src/main.rs\<close> with \<^verbatim>\<open>init_virt_manager\<close> of \<^verbatim>\<open>kernel/src/memory/virt_manager.rs\<close>: the kernel's entry
  point as the composition of its components, in the order of the code. The statics are the fields
  of the record \<open>kernel\<close>. A result \<open>Inr k\<close> means that \<open>main\<close> has reached its final \<^verbatim>\<open>loop {}\<close> in state
  \<open>k\<close>. The memory map behind the header's pointer, the framebuffer's bytes, the font and the
  addresses of the interrupt stubs are arguments. Every component logs to the terminal.
\<close>

section \<open>Entry point\<close>

record kernel =
  k_high_mem_base :: u64
  k_terminal :: terminal
  k_tables :: page_tables
  k_platform :: platform

definition set_high_mem_base :: "u64 \<Rightarrow> kernel \<Rightarrow> kernel" where
  "set_high_mem_base high_mem_base k = k\<lparr>k_high_mem_base := high_mem_base\<rparr>"

definition init_virt_manager :: "font \<Rightarrow> kernel \<Rightarrow> kernel res" where
  "init_virt_manager font k =
     and_then (terminal_log font Info ''VirtManager'' [chars ''Starting initialization''] (k_terminal k)) (\<lambda>t1.
     and_then (terminal_log font Verbose ''VirtManager'' (chars ''high_mem_base='' # hex016 (k_high_mem_base k)) t1) (\<lambda>t2.
     and_then (virt_manager_init (terminal_log font) (k_high_mem_base k) (k_tables k) t2) (\<lambda>(pt, t3).
     and_then (terminal_log font Info ''VirtManager'' [chars ''Initialized''] t3) (\<lambda>t4.
       Inr (k\<lparr>k_terminal := t4, k_tables := pt\<rparr>)))))"

definition start_terminal :: "font \<Rightarrow> kernel_header \<Rightarrow> (nat \<Rightarrow> u8) \<Rightarrow> terminal res" where
  "start_terminal font kh screen =
     and_then (terminal_init kh screen) (\<lambda>t0.
     and_then (clear t0) (\<lambda>t1.
     and_then (terminal_log font Info ''Kernel'' [chars ''Starting kernel...''] t1) (\<lambda>t2.
     and_then (terminal_log font Warning ''Test'' [chars ''Warning''] t2) (\<lambda>t3.
       terminal_log font Error ''Test'' [chars ''Error''] t3))))"

definition kernel_main ::
    "font \<Rightarrow> (nat \<Rightarrow> u64) \<Rightarrow> kernel_header \<Rightarrow> memory_segment list \<Rightarrow> (nat \<Rightarrow> u8) \<Rightarrow> kernel \<Rightarrow> kernel res" where
  "kernel_main font stub kh mmap screen k =
     (let k0 = set_high_mem_base (high_memory_base kh) k in
      and_then (start_terminal font kh screen) (\<lambda>t.
      and_then (init_phys_manager (terminal_log font) kh (heap (pm_state (plat_pm (k_platform k0)))) mmap t) (\<lambda>(pm, t1).
      let k1 = k0\<lparr>k_terminal := t1, k_platform := (k_platform k0)\<lparr>plat_pm := pm\<rparr>\<rparr> in
      and_then (init_virt_manager font k1) (\<lambda>k2.
      and_then (init_platform (terminal_log font) (k_high_mem_base k2) stub (k_platform k2) (k_terminal k2)) (\<lambda>(p, t2).
        Inr (k2\<lparr>k_terminal := t2, k_platform := p\<rparr>))))))"

text \<open>\<^verbatim>\<open>kernel/src/interrupt/mod.rs\<close>: the platform independent wrapper, which \<open>main\<close> does not use.\<close>

definition interrupt_init :: "font \<Rightarrow> (nat \<Rightarrow> u64) \<Rightarrow> kernel \<Rightarrow> kernel res" where
  "interrupt_init font stub k =
     and_then (terminal_log font Info ''IDT'' [chars ''Initializing...''] (k_terminal k)) (\<lambda>t1.
     and_then (idt_init (terminal_log font) (k_high_mem_base k) stub (k_platform k) t1) (\<lambda>(p, t2).
     and_then (terminal_log font Info ''IDT'' [chars ''Initialized...''] t2) (\<lambda>t3.
       Inr (k\<lparr>k_terminal := t3, k_platform := p\<rparr>))))"

text \<open>The panic handler prints through the same lock as everybody else.\<close>

definition panic_handler :: "font \<Rightarrow> u32 list list \<Rightarrow> terminal \<Rightarrow> terminal res" where
  "panic_handler font info = terminal_log font Error ''===PANIC==='' info"

section \<open>The parts of the initialization\<close>

context complete_font
begin

lemma start_terminal_ok:
  assumes g: "40 \<le> unat (screen_height kh)" "40 \<le> unat (screen_width kh)"
      "unat (screen_width kh) \<le> unat (screen_scanline_width kh)"
      "4 * (unat (screen_scanline_width kh) * unat (screen_height kh)) < 2 ^ 32"
  shows "\<exists>t. start_terminal font kh screen = Inr t \<and> white_terminal t"
proof -
  obtain t0 where t0: "terminal_init kh screen = Inr t0" "term_inv t0" "style_of t0 = (Print, 255, 255, 255)"
    using terminal_init_cases[of kh screen] g by blast
  obtain t1 where t1: "clear t0 = Inr t1" "term_inv t1" using clear_black[OF t0(2)] by blast
  have "white_terminal t1" using clear_style[OF t1(1)] t0(3) t1(2) by (simp add: white_terminal_def)
  then show ?thesis
    unfolding start_terminal_def t0(1) t1(1) and_then_Inr
    by (auto intro!: terminal.log_then[where P = "\<lambda>r. \<exists>t. r = Inr t \<and> white_terminal t"] terminal.log_ready)
qed

lemma init_virt_manager_ok:
  assumes "white_terminal (k_terminal k)"
  shows "\<exists>t'. init_virt_manager font k = Inr (k\<lparr>k_terminal := t', k_tables := switch_tables (k_high_mem_base k) (k_tables k)\<rparr>) \<and>
    white_terminal t'"
  unfolding init_virt_manager_def
proof (intro terminal.log_then[where P = "\<lambda>r. \<exists>t'. r = Inr (f t') \<and> white_terminal t'" for f])
  fix t1 t2 assume "white_terminal t2"
  then obtain t3 where "virt_manager_init (terminal_log font) (k_high_mem_base k) (k_tables k) t2 =
      Inr (switch_tables (k_high_mem_base k) (k_tables k), t3)" "white_terminal t3"
    using terminal.virt_manager_init_outcome by (blast dest: same_outcomeD)
  with terminal.log_ready[of t3 "''VirtManager''" "[chars ''Initialized'']" Info]
  show "\<exists>t'. and_then (virt_manager_init (terminal_log font) (k_high_mem_base k) (k_tables k) t2) (\<lambda>(pt, t3).
      and_then (terminal_log font Info ''VirtManager'' [chars ''Initialized''] t3) (\<lambda>t4.
        Inr (k\<lparr>k_terminal := t4, k_tables := pt\<rparr>))) =
      Inr (k\<lparr>k_terminal := t', k_tables := switch_tables (k_high_mem_base k) (k_tables k)\<rparr>) \<and> white_terminal t'" by auto
qed (use assms in simp_all)

lemma interrupt_init_outcome:
  assumes "white_terminal (k_terminal k)"
  shows "case idt_setup (k_high_mem_base k) stub (k_platform k) of
      Inl e \<Rightarrow> interrupt_init font stub k = Inl e
    | Inr p \<Rightarrow> \<exists>t'. interrupt_init font stub k = Inr (k\<lparr>k_terminal := t', k_platform := p\<rparr>) \<and> white_terminal t'"
proof -
  obtain t1 where t1: "terminal_log font Info ''IDT'' [chars ''Initializing...''] (k_terminal k) = Inr t1" "white_terminal t1"
    using terminal.log_ready[OF assms, of "''IDT''" "[chars ''Initializing...'']" Info] by auto
  note idt = terminal.idt_init_outcome[OF t1(2), of "k_high_mem_base k" stub "k_platform k"]
  show ?thesis
  proof (cases "idt_setup (k_high_mem_base k) stub (k_platform k)")
    case (Inl e)
    then show ?thesis using t1(1) idt by (simp add: interrupt_init_def)
  next
    case (Inr p)
    then obtain t2 where "idt_init (terminal_log font) (k_high_mem_base k) stub (k_platform k) t1 = Inr (p, t2)" "white_terminal t2"
      using idt by (auto dest: same_outcomeD)
    with Inr t1(1) terminal.log_ready[of t2 "''IDT''" "[chars ''Initialized...'']" Info] show ?thesis
      by (auto simp: interrupt_init_def)
  qed
qed

end

section \<open>Clients of the kernel's allocator\<close>

context address_window
begin

lemma kernel_clients:
  "manager_inv (inline_storage base) (2 ^ (m - 12)) M \<Longrightarrow> client_run (inline_storage base) M c \<Longrightarrow>
     client_inv (inline_storage base) (2 ^ (m - 12)) M c"
  by (rule inline.client_run_inv)

end

lemma pairwise_disjoint_filter: "pairwise_disjoint (map f xs) \<Longrightarrow> pairwise_disjoint (map f (filter P xs))"
  by (induction xs) auto

lemma pairwise_disjoint_nth:
  "pairwise_disjoint (map f xs) \<Longrightarrow> x \<in> set xs \<Longrightarrow> y \<in> set xs \<Longrightarrow> x \<noteq> y \<Longrightarrow> f x \<inter> f y = {}"
  by (induction xs) (auto simp: disjoint_iff)

end
