(* ===== verification/Spec2Isabelle.thy ===== *)
theory Spec2Isabelle
  imports Builder_Properties Phys_Tests Terminal_Properties Platform_Properties Interrupt_Correct Paging_Properties Boot_Progress Kernel_Main
begin

text \<open>
  SimpleOS-rs, a small operating system in Rust: a model of its code and the theorems that make it
  correct. Paths are relative to \<^verbatim>\<open>src/\<close>.

  \<^bold>\<open>The program.\<close> The host tool (\<^verbatim>\<open>builder\<close>) compiles bootloader and kernel and packs them into a disk image.
  The bootloader (\<^verbatim>\<open>bootloader\<close>) runs under UEFI: it selects a video mode, builds a page table that maps physical
  memory twice, loads and relocates the kernel's ELF file, converts the firmware's memory map, and jumps to
  the kernel with a \<open>KernelHeader\<close> (\<^verbatim>\<open>common-structures\<close>). The kernel (\<^verbatim>\<open>kernel\<close>) sets up the terminal on the
  framebuffer, a buddy allocator for physical pages, its address space, the GDT and TSS, and the IDT with 256
  assembly stubs that call Rust handlers. The kernel's shared structures are protected by a spin lock.

  \<^bold>\<open>Conventions\<close> (theory \<open>Prelude\<close>). Integers keep their width: \<open>u8\<close> \<dots> \<open>u64\<close> are words. Fallible code returns
  \<open>abort + 'a\<close>, where \<open>abort\<close> has the panics (overflow, index out of bounds, explicit messages) and \<open>Hang\<close> for
  code that spins for ever. The model follows the debug profile, in which overflow panics; a run that
  returns \<open>Inr\<close> has no overflow, so the release profile computes the same. State is passed
  explicitly; statics are fields of records. There is no fuel: loops over data are structural,
  the recursions of \<open>free_block\<close>, \<open>alloc_block\<close> and \<open>add_region\<close> have termination proofs by measures, and the four
  loops that may run for ever (\<open>Lock::lock\<close>, the C string comparison, the scan of the dynamic table, the count of a free list) are partial
  functions into \<open>option\<close> whose termination is part of the properties.

  \<^bold>\<open>Messages.\<close> The kernel logs on the terminal, and a message can panic or wait for the terminal's lock, so the messages are part of
  the model: every function that logs takes a \<open>logger\<close> and the state it works on (theory \<open>Logging\<close>), the terminal in the kernel. What the components need of a
  logger is the locale \<open>log_sink\<close> (theory \<open>Log_Sink\<close>), which the terminal satisfies for every complete font; in it,
  \<open>same_outcome\<close> relates each initialization to a reference definition without messages (\<open>manager_new\<close>, \<open>gdt_setup\<close>, \<open>idt_setup\<close>, \<open>platform_setup\<close>,
  \<open>switch_tables\<close>), on which the other proofs work (theories \<open>Phys_Log\<close>, \<open>Platform_Log\<close>).

  \<^bold>\<open>Theories and sources.\<close>

  \<^item> \<open>Mutex\<close> (\<^verbatim>\<open>kernel/src/mutex.rs\<close>): the trait \<open>Lock\<close> as the locale \<open>lock_trait\<close>, interpreted by \<open>SpinLock\<close>; \<open>LockGuard\<close> as \<open>with_guard\<close>;
    a step relation of any number of cores that share a lock, with mutual exclusion, serialisation and absence of deadlock.
  \<^item> \<open>Common_Structures\<close> (\<^verbatim>\<open>common-structures/src\<close>), \<open>Virt_Manager\<close> (the address conversions of
    \<^verbatim>\<open>kernel/src/memory/virt_manager.rs\<close>; the locale \<open>address_window\<close> states what a usable base address is), \<open>Byte_Memory\<close>
    (byte-addressed memory for the code that works on raw pointers).
  \<^item> \<open>Free_List\<close>, \<open>Buddy_Spec\<close>, \<open>Phys_Manager\<close>, \<open>Phys_Refinement\<close>, \<open>Phys_Correct\<close>, \<open>Phys_Methods\<close>, \<open>Phys_Init\<close>, \<open>Phys_Log\<close>, \<open>Phys_Clients\<close>, \<open>Phys_Properties\<close>,
    \<open>Phys_Tests\<close> (\<^verbatim>\<open>kernel/src/memory/phys_manager.rs\<close>). The free lists are intrusive: a heap maps addresses to \<open>FreeEntry\<close> records.
    \<open>Free_List\<close> proves that they represent sequences (locale \<open>intrusive_list\<close>); \<open>Buddy_Spec\<close> is the abstract buddy system on sets of
    blocks; \<open>Phys_Manager\<close> has the operations of the code; \<open>Phys_Refinement\<close> and \<open>Phys_Correct\<close> prove that they implement the
    specification for every storage that satisfies the locale \<open>phys_storage\<close>, which the two backends of the code do.
    \<open>Phys_Methods\<close> lifts this to the public methods (locale \<open>page_source\<close>), \<open>Phys_Init\<close> covers the initialization
    from the memory map (with \<open>Phys_Log\<close> for its messages), \<open>Phys_Clients\<close> sequences of calls by clients, and \<open>Phys_Tests\<close> runs the unit tests of the source.
  \<^item> \<open>Terminal\<close>, \<open>Logging\<close>, \<open>Terminal_Correct\<close>, \<open>Log_Sink\<close>, \<open>Terminal_Properties\<close> (\<^verbatim>\<open>kernel/src/terminal.rs\<close>): cursor, escape modes, glyph drawing into
    the bytes of the framebuffer, and the logging macros; the glyph tables of the crate \<open>font8x8\<close> are a parameter of which
    only the size of a glyph is assumed, and that a space has one.
  \<^item> \<open>Gdt\<close>, \<open>Idt\<close>, \<open>Platform_Log\<close>, \<open>Platform_Boot\<close>, \<open>Platform_Properties\<close> (\<^verbatim>\<open>kernel/src/arch/x86_64/gdt.rs\<close>, \<^verbatim>\<open>interrupt/mod.rs\<close>, \<^verbatim>\<open>mod.rs\<close>): the descriptor
    tables as bytes in memory, the registers loaded with them, and the composed platform initialization.
  \<^item> \<open>Interrupt_Stubs\<close>, \<open>Interrupt_Correct\<close> (\<^verbatim>\<open>interrupt/mod.rs\<close>, \<^verbatim>\<open>isrs.rs\<close>, \<^verbatim>\<open>set_isrs.rs\<close>): the assembly stubs as instruction
    lists on a machine with registers and a stack, the frame the CPU pushes, the handler table and the two generated tables.
  \<^item> \<open>Paging\<close>, \<open>Paging_Correct\<close>, \<open>Paging_Properties\<close> (\<^verbatim>\<open>bootloader/src/paging.rs\<close>, \<^verbatim>\<open>kernel/src/arch/x86_64/virt_manager.rs\<close>): the
    construction of the page table, checked against the page walk of the processor.
  \<^item> \<open>Elf\<close>, \<open>Elf_Correct\<close>, \<open>Elf_Image\<close>, \<open>Elf_Properties\<close>, \<open>Elf_File\<close> (\<^verbatim>\<open>bootloader/src/elf.rs\<close>): the loader on raw memory, an abstract loader
    on byte lists that checks every access, the refinement between them, the contents of the loaded image, and what makes a
    file bootable wherever it lies in memory.
  \<^item> \<open>Boot\<close>, \<open>Boot_Properties\<close>, \<open>Boot_Progress\<close> (\<^verbatim>\<open>bootloader/src/main.rs\<close>, \<^verbatim>\<open>allocator.rs\<close>, \<^verbatim>\<open>io.rs\<close>, \<^verbatim>\<open>platform.rs\<close>): the bootloader as a whole, with the UEFI
    firmware as a record of services over an abstract state, its console included. \<open>Boot_Properties\<close> has what holds whenever the
    kernel is entered, \<open>Boot_Progress\<close> that it is entered, from the services that the locales \<open>page_services\<close> and \<open>boot_services\<close> state.
  \<^item> \<open>Kernel_Main\<close> (\<^verbatim>\<open>kernel/src/main.rs\<close>, \<^verbatim>\<open>kernel/src/interrupt/mod.rs\<close>): the kernel's entry point as the composition of the
    components; its properties, and those across bootloader and kernel, are in this theory.
  \<^item> \<open>Builder\<close>, \<open>Builder_Properties\<close> (\<^verbatim>\<open>builder/src/main.rs\<close>): the tool as a sequence of requests to the outside world, which
    is a parameter that answers them in any way.

  \<^bold>\<open>Where the code fails.\<close> Some theorems state failures of the code as it is: initialization panics when memory ends
  inside a superblock, the TSS descriptors of two cores overlap, clearing the IDT's page writes sixteen pages, and the address
  conversion aliases when the number of PML4 entries is no power of two; all unit tests that create a manager panic in its first
  message, and an unhandled interrupt that arrives while the terminal is locked never returns. The properties of the
  composed system have the hypotheses that exclude these cases.

  \<^bold>\<open>Not modelled.\<close> The crates \<open>uefi\<close>, \<open>font8x8\<close>, \<open>fatfs\<close> and \<open>gpt\<close> and cargo, which are parameters; the kernel built without its default feature
  \<^verbatim>\<open>verbose-logging\<close>; weak memory orderings
  (atomic operations are sequentially consistent); effects of the processor beyond
  the registers named; files that only re-export (\<^verbatim>\<open>kernel/src/arch/mod.rs\<close>, \<^verbatim>\<open>kernel/src/memory/mod.rs\<close>,
  \<^verbatim>\<open>common-structures/src/lib.rs\<close>).
\<close>

section \<open>The kernel's initialization\<close>


text \<open>
  A memory map the kernel can start from, for physical addresses of \<open>m\<close> bits: the free segments are disjoint
  and covered by the bitmap, one of them has room for the bitmap, an aligned run of sixteen free pages
  remains, the last page of the address space is not free, and memory ends below 8 TiB.
\<close>

definition usable_map :: "nat \<Rightarrow> memory_segment list \<Rightarrow> bool" where
  "usable_map m mmap \<longleftrightarrow>
     (\<forall>e\<in>set mmap. segment_limit e \<le> 2 ^ m) \<and>
     pairwise_disjoint (map segment_pages (free_segments mmap)) \<and>
     (\<forall>e\<in>set (free_segments mmap). \<forall>p\<in>segment_pages e. covered (bitmap_words mmap) p) \<and>
     2 ^ (m - 12) - 1 \<notin> \<Union> (segment_pages ` set (free_segments mmap)) \<and> countable_memory mmap \<and>
     (\<exists>e q. find (holds_bitmap (bitmap_pages mmap)) mmap = Some e \<and> 16 dvd q \<and>
        {q..<q + 16} \<subseteq> \<Union> (segment_pages ` set (free_segments mmap)) -
          {unat (seg_start e) div 4096..<unat (seg_start e) div 4096 + bitmap_pages mmap})"








section \<open>From the firmware to the kernel's idle loop\<close>



lemma demo_descs_map:
  "map segment_of demo_descs = [\<lparr>seg_start = 0, seg_page_count = 0x80, seg_state = Free\<rparr>, \<lparr>seg_start = 0x80000, seg_page_count = 0x380, seg_state = Occupied\<rparr>]"
  by (simp add: demo_descs_def segment_of_def)

lemma demo_descs_bitmap: "bitmap_words (map segment_of demo_descs) = 16" "bitmap_pages (map segment_of demo_descs) = 1"
  unfolding demo_descs_map by (simp_all add: bitmap_pages_def bitmap_words_def segment_limit_def)

lemma demo_descs_usable:
  defines "mmap \<equiv> map segment_of demo_descs"
  shows "\<forall>e\<in>set mmap. segment_limit e \<le> 2 ^ 39" "find (holds_bitmap (bitmap_pages mmap)) mmap = Some (hd mmap)"
    "pairwise_disjoint (map segment_pages mmap)"
    "\<forall>e\<in>set (free_segments mmap). \<forall>p\<in>segment_pages e. covered (bitmap_words mmap) p" "usable_map 39 mmap"
    "countable_memory mmap"
proof -
  show count: "countable_memory mmap" unfolding mmap_def countable_memory_def demo_descs_bitmap by simp
  show limit: "\<forall>e\<in>set mmap. segment_limit e \<le> 2 ^ 39" unfolding mmap_def demo_descs_map by (simp add: segment_limit_def)
  show find: "find (holds_bitmap (bitmap_pages mmap)) mmap = Some (hd mmap)"
    unfolding mmap_def demo_descs_bitmap unfolding demo_descs_map by (simp add: holds_bitmap_def)
  show dis: "pairwise_disjoint (map segment_pages mmap)" unfolding mmap_def demo_descs_map by (auto simp: segment_pages_def)
  show cov: "\<forall>e\<in>set (free_segments mmap). \<forall>p\<in>segment_pages e. covered (bitmap_words mmap) p"
    unfolding mmap_def demo_descs_bitmap unfolding demo_descs_map by (auto simp: free_segments_def segment_pages_def covered_def)
  have free: "\<Union> (segment_pages ` set (free_segments mmap)) = {0..<128}"
    unfolding mmap_def demo_descs_map by (simp add: free_segments_def segment_pages_def)
  have "{16..<16 + 16} \<subseteq> \<Union> (segment_pages ` set (free_segments mmap)) -
      {unat (seg_start (hd mmap)) div 4096..<unat (seg_start (hd mmap)) div 4096 + bitmap_pages mmap}"
    unfolding free unfolding mmap_def demo_descs_bitmap unfolding demo_descs_map by auto
  moreover have "2 ^ (39 - 12) - 1 \<notin> \<Union> (segment_pages ` set (free_segments mmap))" unfolding free by simp
  moreover have "(16 :: nat) dvd 16" by simp
  moreover have "pairwise_disjoint (map segment_pages (free_segments mmap))" using dis unfolding free_segments_def by (rule pairwise_disjoint_filter)
  ultimately show "usable_map 39 mmap" using limit find cov count unfolding usable_map_def by blast
qed


section \<open>From the firmware's memory map to the kernel's clients\<close>

text \<open>
  C3: Memory the firmware or the bootloader still use is never handed out. From the memory map as the
  bootloader converts it, the kernel's manager initializes (or panics, when the superblock of some free page leaves the
  bitmap), and whatever its clients allocate and free
  afterwards, no page they hold belongs to a descriptor other than free memory, boot services and loader
  code: the kernel's image, header, stack and page table (loader data), firmware run-time
  memory and devices stay untouched.
\<close>

theorem reserved_memory_never_handed_out:
  assumes win: "address_window base m" "18 \<le> m" and log: "font_ok font" "white_terminal t"
    and map: "\<forall>e\<in>set (map segment_of descs). segment_limit e \<le> 2 ^ m"
      "find (holds_bitmap (bitmap_pages (map segment_of descs))) (map segment_of descs) = Some e"
      "pairwise_disjoint (map segment_pages (map segment_of descs))" "countable_memory (map segment_of descs)"
    and d: "d \<in> set descs" "md_ty d \<notin> {BOOT_SERVICES_CODE, BOOT_SERVICES_DATA, CONVENTIONAL, LOADER_CODE}"
  shows "phys_manager_new (terminal_log font) (inline_storage base) h (map segment_of descs) t = Inl IndexOutOfBounds \<and>
      (\<exists>e\<in>set (free_segments (map segment_of descs)). uncovered (bitmap_words (map segment_of descs)) e) \<or>
    (\<exists>M mmap' t'. phys_manager_new (terminal_log font) (inline_storage base) h (map segment_of descs) t = Inr (M, mmap', t') \<and>
    (\<forall>M' own. client_run (inline_storage base) M (M', own) \<longrightarrow>
       \<Union> (set (map pages_of own)) \<inter> segment_pages (segment_of d) = {}))"
proof -
  let ?mmap = "map segment_of descs" and ?st = "inline_storage base"
  have occ: "seg_state (segment_of d) = Occupied" using d(2) by (simp add: segment_of_def split: memory_type.splits)
  have "segment_pages f \<inter> segment_pages (segment_of d) = {}" if "f \<in> set (free_segments ?mmap)" for f
    using that d(1) occ by (intro pairwise_disjoint_nth[OF map(3)]) (auto simp: free_segments_def)
  then have free: "\<Union> (segment_pages ` set (free_segments ?mmap)) \<inter> segment_pages (segment_of d) = {}" by blast
  have held: "\<Union> (set (map pages_of own)) \<subseteq> available ?st M"
    if "manager_inv ?st (2 ^ (m - 12)) M" "client_run ?st M (M', own)" for M M' own
    using address_window.kernel_clients[OF win(1) that] by (auto simp: client_inv_def)
  have "pairwise_disjoint (map segment_pages (free_segments ?mmap))"
    unfolding free_segments_def by (rule pairwise_disjoint_filter[OF map(3)])
  from address_window.kernel_init_logged[OF win(1) terminal_is_sink[OF log(1)] log(2) win(2) map(1,2) this map(4), of h]
  show ?thesis
  proof
    assume "\<exists>M mmap' t'. phys_manager_new (terminal_log font) ?st h ?mmap t = Inr (M, mmap', t') \<and> white_terminal t' \<and>
      manager_inv ?st (2 ^ (m - 12)) M \<and> available ?st M = \<Union> (segment_pages ` set (free_segments ?mmap)) -
        {unat (seg_start e) div 4096..<unat (seg_start e) div 4096 + bitmap_pages ?mmap}"
    then obtain M mmap' t' where M: "phys_manager_new (terminal_log font) ?st h ?mmap t = Inr (M, mmap', t')"
        "manager_inv ?st (2 ^ (m - 12)) M" and av: "available ?st M \<subseteq> \<Union> (segment_pages ` set (free_segments ?mmap))"
      by (elim exE conjE) (rule that, assumption+, simp)
    have "\<Union> (set (map pages_of own)) \<inter> segment_pages (segment_of d) = {}" if "client_run ?st M (M', own)" for M' own
      using held[OF M(2) that] av free by blast
    with M(1) show ?thesis by blast
  qed blast
qed

theorem reserved_memory_never_handed_out_witness:
  "\<exists>M mmap' t'. phys_manager_new (terminal_log demo_font) (inline_storage 0xFFFFFF8000000000) demo_heap (map segment_of demo_descs) demo_terminal =
       Inr (M, mmap', t') \<and>
     (\<forall>M' a. client_run (inline_storage 0xFFFFFF8000000000) M (M', [(a, 1)]) \<longrightarrow> 0x200 \<notin> allocation_pages a 1)"
proof -
  have u: "\<not> (\<exists>e\<in>set (free_segments (map segment_of demo_descs)). uncovered (bitmap_words (map segment_of demo_descs)) e)"
    using demo_descs_usable(4) by (simp add: uncovered_def)
  have d: "demo_descs ! 1 \<in> set demo_descs" "md_ty (demo_descs ! 1) \<notin> {BOOT_SERVICES_CODE, BOOT_SERVICES_DATA, CONVENTIONAL, LOADER_CODE}"
    by (simp_all add: demo_descs_def)
  have "0x200 \<in> segment_pages (segment_of (demo_descs ! 1))" by (simp add: demo_descs_def segment_of_def segment_pages_def)
  with reserved_memory_never_handed_out[OF win512.address_window_axioms _ demo_font_ok demo_terminal_white demo_descs_usable(1-3,6) d, of demo_heap] u
  show ?thesis by fastforce
qed

end
